(* ===== verification/Prelude.thy ===== *)
theory Prelude
  imports Main "HOL-Library.Word" "HOL-Library.Monad_Syntax" "HOL-Library.Sublist"
begin

text \<open>
  Shared vocabulary of the development: bytes, raw memory blocks and the three things a C++
  statement can do besides returning a value. A failed \<open>assert\<close>, an access outside an object
  and a recursion that does not come back are all the value \<open>None\<close>; \<open>check\<close> is the model
  of \<open>assert\<close>. The generic facts on lists used by several components are collected here, and what a
  sequence of calls of setters amounts to (\<open>last_argument\<close>, \<open>given\<close>).
\<close>

type_synonym byte = "8 word"
type_synonym u8 = "8 word"
type_synonym u16 = "16 word"
type_synonym u32 = "32 word"
type_synonym u64 = "64 word"

named_theorems view_simps \<open>what an operation does to the bytes a component stands for\<close>

definition check :: "bool \<Rightarrow> unit option" where
  "check b = (if b then Some () else None)"

lemma check_simps [simp]: "check True = Some ()" "check False = None"
  by (simp_all add: check_def)

lemma check_eq_Some [simp]: "check b = Some u \<longleftrightarrow> b"
  by (simp add: check_def)

lemma check_bind [simp]: "Option.bind (check b) f = (if b then f () else None)"
  by (simp add: check_def)

section \<open>Raw memory\<close>

text \<open>
  \<open>std::make_unique< std::byte[] >( n )\<close> value-initialises its elements; \<open>blit\<close> is
  \<open>std::memcpy( dst + off, src, src.size() )\<close>.
\<close>

definition make_unique_bytes :: "nat \<Rightarrow> byte list" where
  "make_unique_bytes n = replicate n 0"

definition blit :: "byte list \<Rightarrow> nat \<Rightarrow> byte list \<Rightarrow> byte list" where
  "blit dst off src = take off dst @ src @ drop (off + length src) dst"

lemma length_make_unique_bytes [simp]: "length (make_unique_bytes n) = n"
  by (simp add: make_unique_bytes_def)

lemma length_blit [simp]: "off + length src \<le> length dst \<Longrightarrow> length (blit dst off src) = length dst"
  by (simp add: blit_def)

lemma take_blit_upto [simp]:
  "off + length src \<le> length dst \<Longrightarrow> n = off + length src \<Longrightarrow> take n (blit dst off src) = take off dst @ src"
  by (simp add: blit_def)

lemma take_blit_before: "n \<le> off \<Longrightarrow> off \<le> length dst \<Longrightarrow> take n (blit dst off src) = take n dst"
  by (simp add: blit_def min_absorb1)

lemma blit_all [simp]: "length src = length dst \<Longrightarrow> blit dst 0 src = src"
  by (simp add: blit_def)

lemma take_blit_start [simp]:
  "length src = n \<Longrightarrow> n \<le> length dst \<Longrightarrow> take n (blit dst 0 src) = src"
  by (simp add: blit_def)

lemma blit_blit:
  "off + length x + length y \<le> length dst \<Longrightarrow>
   blit (blit dst off x) (off + length x) y = blit dst off (x @ y)"
  by (simp add: blit_def ac_simps)

section \<open>Lists\<close>

lemma take_append_exact [simp]: "length xs = n \<Longrightarrow> take n (xs @ ys) = xs"
  by simp

lemma list_eq_snoc_last: "xs \<noteq> [] \<Longrightarrow> butlast xs @ [last xs] = xs"
  by simp

lemma append_split_short: "xs @ t = ys @ r \<Longrightarrow> length xs < length ys \<Longrightarrow> xs @ drop (length xs) ys = ys"
proof -
  assume eq: "xs @ t = ys @ r" and len: "length xs < length ys"
  have "xs = take (length xs) (ys @ r)" using arg_cong [OF eq, of "take (length xs)"] by simp
  then have "xs = take (length xs) ys" using len by simp
  then show ?thesis by (metis append_take_drop_id)
qed

lemma append_split_long: "xs @ t = ys @ r \<Longrightarrow> length ys \<le> length xs \<Longrightarrow> ys @ drop (length ys) xs = xs"
proof -
  assume eq: "xs @ t = ys @ r" and len: "length ys \<le> length xs"
  have "ys = take (length ys) (xs @ t)" by (subst eq) simp
  then have "ys = take (length ys) xs" using len by simp
  then show ?thesis by (metis append_take_drop_id)
qed

lemma concat_map_butlast_last:
  "xs \<noteq> [] \<Longrightarrow> concat (map f xs) = concat (map f (butlast xs)) @ f (last xs)"
  by (induction xs) auto

lemma prefix_take [simp]: "prefix (take n xs) xs"
  by (metis append_take_drop_id prefixI)

lemma prefix_append_take [simp]: "prefix (xs @ take n ys) (xs @ ys)"
  by simp

lemma prefix_extend: "prefix xs ys \<Longrightarrow> prefix xs (ys @ zs)"
  by (auto simp: prefix_def)

lemma list_set_nth_last:
  "xs \<noteq> [] \<Longrightarrow> xs[length xs - 1 := y] = butlast xs @ [y]"
  by (metis append_butlast_last_id length_butlast list_update_length)

lemma length_concat_map: "length (concat (map f xs)) = sum_list (map (\<lambda>x. length (f x)) xs)"
  by (simp add: length_concat comp_def)

section \<open>Integers in memory\<close>

text \<open>The \<open>n\<close> bytes of an integer in memory on a little-endian host, and the integer they hold.\<close>

fun le_bytes :: "nat \<Rightarrow> nat \<Rightarrow> byte list" where
  "le_bytes 0 v = []"
| "le_bytes (Suc n) v = word_of_nat v # le_bytes n (v div 256)"

fun le_value :: "byte list \<Rightarrow> nat" where
  "le_value [] = 0"
| "le_value (b # bs) = unat b + 256 * le_value bs"

lemma length_le_bytes [simp]: "length (le_bytes n v) = n"
  by (induction n arbitrary: v) simp_all

lemma le_bytes_zero [simp]: "le_bytes n 0 = replicate n 0"
  by (induction n) simp_all

lemma replicate_2_4: "replicate 2 x = [x, x]" "replicate 4 x = [x, x, x, x]"
  by (simp_all add: eval_nat_numeral)

lemma unat_byte_of_nat: "unat (word_of_nat v :: byte) = v mod 256"
  by (simp add: unat_of_nat)

lemma le_value_le_bytes: "le_value (le_bytes n v) = v mod 256 ^ n"
proof (induction n arbitrary: v)
  case 0
  then show ?case by simp
next
  case (Suc n)
  have "v mod 256 + 256 * (v div 256 mod 256 ^ n) = v mod (256 * 256 ^ n)"
    by (simp add: mod_mult2_eq)
  then show ?case by (simp add: Suc unat_byte_of_nat)
qed

lemma unat_less_256: "unat (b :: byte) < 256"
proof -
  have "unat b < 2 ^ LENGTH(8)" by (rule unsigned_less)
  then show ?thesis by simp
qed

lemma le_bytes_le_value: "le_bytes (length bs) (le_value bs) = bs"
proof (induction bs)
  case (Cons b bs)
  have "(unat b + 256 * le_value bs) div 256 = le_value bs"
    using unat_less_256 [of b] by simp
  moreover have "(word_of_nat (unat b + 256 * le_value bs) :: byte) = b"
  proof (rule word_unat_eq_iff [THEN iffD2])
    show "unat (word_of_nat (unat b + 256 * le_value bs) :: byte) = unat b"
      using unat_less_256 [of b] by (simp only: unat_byte_of_nat) simp
  qed
  ultimately show ?case using Cons by simp
qed simp

lemma le_value_less: "le_value bs < 256 ^ length bs"
proof (induction bs)
  case (Cons b bs)
  have "unat b < 256" using unat_less_256 [of b] by simp
  then show ?case using Cons by simp
qed simp

section \<open>Decimal text\<close>

text \<open>What \<open>fmt::format( "{}", n )\<close> and \<open>std::to_string\<close> print for an integer.\<close>

fun fmt_nat :: "nat \<Rightarrow> string" where
  "fmt_nat n = (if n < 10 then [char_of (48 + n)] else fmt_nat (n div 10) @ [char_of (48 + n mod 10)])"

declare fmt_nat.simps [simp del]

definition fmt_int :: "int \<Rightarrow> string" where
  "fmt_int i = (if i < 0 then CHR ''-'' # fmt_nat (nat (- i)) else fmt_nat (nat i))"

section \<open>Parameters set by a sequence of calls\<close>

text \<open>The argument of the last call that \<open>sel\<close> selects.\<close>

definition last_argument :: "('s \<Rightarrow> 'v option) \<Rightarrow> 's list \<Rightarrow> 'v option" where
  "last_argument sel calls = fold (\<lambda>s found. case sel s of Some v \<Rightarrow> Some v | None \<Rightarrow> found) calls None"

lemma last_argument_simps [simp]:
  "last_argument sel [] = None"
  "last_argument sel (calls @ [s]) = (case sel s of Some v \<Rightarrow> Some v | None \<Rightarrow> last_argument sel calls)"
  by (simp_all add: last_argument_def split: option.split)

lemma last_argument_None: "last_argument sel calls = None \<longleftrightarrow> (\<forall>s\<in>set calls. sel s = None)"
  by (induction calls rule: rev_induct) (auto split: option.splits)

definition or_else :: "'a option \<Rightarrow> 'a \<Rightarrow> 'a" where
  "or_else param dflt = (case param of Some v \<Rightarrow> v | None \<Rightarrow> dflt)"

lemma or_else_simps [simp]: "or_else (Some v) d = v" "or_else None d = d"
  by (simp_all add: or_else_def)

text \<open>The value that was set, or else the default, if there is one.\<close>

definition pick :: "'a option \<Rightarrow> 'a option \<Rightarrow> 'a option" where
  "pick param dflt = (case param of Some v \<Rightarrow> Some v | None \<Rightarrow> dflt)"

lemma pick_Some: "pick param (Some d) = Some (or_else param d)"
  by (simp add: pick_def or_else_def split: option.split)

text \<open>The parameter an object is made with: the argument of the last call of its setter, or else the default.\<close>

definition given :: "('s \<Rightarrow> 'v option) \<Rightarrow> 's list \<Rightarrow> 'v option \<Rightarrow> 'v option" where
  "given sel calls dflt = pick (last_argument sel calls) dflt"

end
