(* ===== verification/Buffer.thy ===== *)
theory Buffer
  imports Prelude
begin

text \<open>
  \<open>net/include/opio/net/buffer.hpp\<close>: \<open>simple_buffer_t\<close>, an owned block of \<open>m_capacity\<close>
  bytes of which the first \<open>m_size\<close> are the data, and \<open>simple_buffer_driver_t\<close>. The bytes a
  buffer stands for are \<open>sb_view\<close>; every operation keeps \<open>sb_wf\<close>.
\<close>

section \<open>The buffer\<close>

record simple_buffer =
  sb_size :: nat
  sb_capacity :: nat
  sb_data :: "byte list"

definition sb_wf :: "simple_buffer \<Rightarrow> bool" where
  "sb_wf b \<longleftrightarrow> sb_size b \<le> sb_capacity b \<and> length (sb_data b) = sb_capacity b"

definition sb_view :: "simple_buffer \<Rightarrow> byte list" where
  "sb_view b = take (sb_size b) (sb_data b)"

text \<open>\<open>simple_buffer_t()\<close> and what a move leaves in its source.\<close>

definition sb_default :: simple_buffer where
  "sb_default = \<lparr>sb_size = 0, sb_capacity = 0, sb_data = []\<rparr>"

definition sb_new :: "nat \<Rightarrow> simple_buffer" where
  "sb_new n = \<lparr>sb_size = n, sb_capacity = n, sb_data = (if n \<noteq> 0 then make_unique_bytes n else [])\<rparr>"

definition sb_new_filled :: "nat \<Rightarrow> byte \<Rightarrow> simple_buffer" where
  "sb_new_filled n v = (let b = sb_new n in b\<lparr>sb_data := replicate (sb_size b) v @ drop (sb_size b) (sb_data b)\<rparr>)"

definition sb_of_bytes :: "byte list \<Rightarrow> simple_buffer" where
  "sb_of_bytes src = (let b = sb_new (length src) in b\<lparr>sb_data := blit (sb_data b) 0 src\<rparr>)"

text \<open>The move constructor and the move assignment: the new object and the source after the move.\<close>

definition sb_move_construct :: "simple_buffer \<Rightarrow> simple_buffer \<times> simple_buffer" where
  "sb_move_construct sb =
     (\<lparr>sb_size = sb_size sb, sb_capacity = sb_capacity sb, sb_data = sb_data sb\<rparr>,
      sb\<lparr>sb_size := 0, sb_capacity := 0, sb_data := []\<rparr>)"

definition sb_move_assign :: "simple_buffer \<Rightarrow> simple_buffer \<Rightarrow> simple_buffer \<times> simple_buffer" where
  "sb_move_assign this sb =
     (let n = sb_size sb; cap = sb_capacity sb; buf = sb_data sb;
          sb' = sb\<lparr>sb_data := [], sb_size := 0, sb_capacity := 0\<rparr>
      in (this\<lparr>sb_size := n, sb_capacity := cap, sb_data := buf\<rparr>, sb'))"

text \<open>\<open>empty()\<close> as the source writes it: \<open>return 0 != m_size\<close>.\<close>

definition sb_empty :: "simple_buffer \<Rightarrow> bool" where
  "sb_empty b \<longleftrightarrow> 0 \<noteq> sb_size b"

definition sb_offset_data :: "simple_buffer \<Rightarrow> nat \<Rightarrow> byte list" where
  "sb_offset_data b n = drop n (sb_data b)"

definition sb_make_copy :: "simple_buffer \<Rightarrow> simple_buffer" where
  "sb_make_copy b = sb_of_bytes (sb_view b)"

definition sb_shrink_size :: "simple_buffer \<Rightarrow> nat \<Rightarrow> simple_buffer option" where
  "sb_shrink_size b n = do { check (sb_size b \<ge> n); Some (b\<lparr>sb_size := n\<rparr>) }"

definition sb_resize :: "simple_buffer \<Rightarrow> nat \<Rightarrow> simple_buffer" where
  "sb_resize b n =
     (if n \<le> sb_capacity b then b\<lparr>sb_size := n\<rparr>
      else let new_buf = blit (make_unique_bytes n) 0 (sb_view b)
           in b\<lparr>sb_data := new_buf, sb_size := n, sb_capacity := n\<rparr>)"

definition sb_resize_with_double_capacity_growth :: "simple_buffer \<Rightarrow> nat \<Rightarrow> simple_buffer" where
  "sb_resize_with_double_capacity_growth b n =
     (if n \<le> sb_capacity b then b\<lparr>sb_size := n\<rparr>
      else let new_capacity = max (sb_capacity b * 2) n;
               new_buf = blit (make_unique_bytes new_capacity) 0 (sb_view b)
           in b\<lparr>sb_data := new_buf, sb_size := n, sb_capacity := new_capacity\<rparr>)"

definition sb_increment_size_with_double_capacity_growth :: "simple_buffer \<Rightarrow> nat \<Rightarrow> simple_buffer" where
  "sb_increment_size_with_double_capacity_growth b k =
     sb_resize_with_double_capacity_growth b (sb_size b + k)"

definition sb_resize_drop_data :: "simple_buffer \<Rightarrow> nat \<Rightarrow> simple_buffer option" where
  "sb_resize_drop_data b n = do {
     check (sb_size b \<le> n);
     if n \<le> sb_capacity b then Some (b\<lparr>sb_size := n\<rparr>)
     else Some (b\<lparr>sb_data := make_unique_bytes n, sb_size := n, sb_capacity := n\<rparr>) }"

text \<open>\<open>operator==\<close> and the initializer-list factory.\<close>

definition sb_eq :: "simple_buffer \<Rightarrow> simple_buffer \<Rightarrow> bool" where
  "sb_eq left right \<longleftrightarrow>
     sb_size left = sb_size right \<and>
     take (sb_size left) (sb_data left) = take (sb_size left) (sb_data right)"

definition sb_make_from :: "byte list \<Rightarrow> simple_buffer" where
  "sb_make_from init = (let buf = sb_new (length init) in buf\<lparr>sb_data := blit (sb_data buf) 0 init\<rparr>)"

text \<open>A write through the \<open>data()\<close> pointer at an offset.\<close>

definition sb_write :: "simple_buffer \<Rightarrow> nat \<Rightarrow> byte list \<Rightarrow> simple_buffer" where
  "sb_write b off src = b\<lparr>sb_data := blit (sb_data b) off src\<rparr>"

section \<open>Facts\<close>

lemma sb_view_length: "sb_wf b \<Longrightarrow> length (sb_view b) = sb_size b"
  by (simp add: sb_wf_def sb_view_def)

lemma sb_default_simps [simp]: "sb_size sb_default = 0" "sb_view sb_default = []" "sb_wf sb_default"
  by (simp_all add: sb_default_def sb_view_def sb_wf_def)

lemma sb_new_simps [simp]: "sb_size (sb_new n) = n" "sb_capacity (sb_new n) = n" "length (sb_data (sb_new n)) = n"
  by (simp_all add: sb_new_def)

lemma sb_new_wf [simp]: "sb_wf (sb_new n)"
  by (simp add: sb_wf_def)

lemma sb_new_filled_view: "sb_view (sb_new_filled n v) = replicate n v"
  by (simp add: sb_new_filled_def sb_view_def Let_def)

lemma sb_of_bytes_wf [simp]: "sb_wf (sb_of_bytes bs)"
  by (simp add: sb_of_bytes_def sb_wf_def Let_def)

lemma sb_of_bytes_view [simp, view_simps]: "sb_view (sb_of_bytes bs) = bs"
  by (simp add: sb_of_bytes_def sb_view_def Let_def)

lemma sb_of_bytes_size [simp]: "sb_size (sb_of_bytes bs) = length bs"
  by (simp add: sb_of_bytes_def Let_def)

lemma sb_make_from_eq: "sb_make_from bs = sb_of_bytes bs"
  by (simp add: sb_make_from_def sb_of_bytes_def)

lemma sb_make_copy_view [view_simps]: "sb_view (sb_make_copy b) = sb_view b"
  by (simp add: sb_make_copy_def)

lemma sb_move_construct_simps [simp]:
  "fst (sb_move_construct b) = b" "sb_view (snd (sb_move_construct b)) = []"
  by (simp_all add: sb_move_construct_def sb_view_def)

lemma sb_move_construct_eq: "sb_move_construct b = (b, sb_default)"
  by (cases b) (simp add: sb_move_construct_def sb_default_def)

lemma sb_move_assign_fst [simp]: "fst (sb_move_assign t b) = b"
  by (cases t, cases b) (simp add: sb_move_assign_def Let_def)

lemma sb_move_assign_simps:
  "sb_view (fst (sb_move_assign t b)) = sb_view b" "sb_view (snd (sb_move_assign t b)) = []"
  by (simp_all add: sb_move_assign_def sb_view_def Let_def)

lemma sb_shrink_size_view:
  "sb_wf b \<Longrightarrow> n \<le> sb_size b \<Longrightarrow>
   \<exists>b'. sb_shrink_size b n = Some b' \<and> sb_wf b' \<and> sb_view b' = take n (sb_view b)"
  by (simp add: sb_shrink_size_def sb_wf_def sb_view_def min_absorb1)

lemma sb_resize_wf [simp]: "sb_wf b \<Longrightarrow> sb_wf (sb_resize b n)"
  by (auto simp: sb_resize_def sb_wf_def sb_view_def Let_def)

lemma sb_resize_size [simp]: "sb_size (sb_resize b n) = n"
  by (simp add: sb_resize_def Let_def)

lemma sb_resize_keeps_data:
  assumes "sb_wf b" "sb_size b \<le> n"
  shows "take (sb_size b) (sb_data (sb_resize b n)) = sb_view b"
proof (cases "n \<le> sb_capacity b")
  case True
  then show ?thesis by (simp add: sb_resize_def sb_view_def)
next
  case False
  with assms show ?thesis
    by (simp add: sb_resize_def sb_wf_def sb_view_def Let_def)
qed

lemma sb_growth_wf [simp]: "sb_wf b \<Longrightarrow> sb_wf (sb_resize_with_double_capacity_growth b n)"
  by (auto simp: sb_resize_with_double_capacity_growth_def sb_wf_def sb_view_def Let_def max_def)

lemma sb_growth_keeps_data:
  assumes "sb_wf b" "sb_size b \<le> n"
  shows "take (sb_size b) (sb_view (sb_resize_with_double_capacity_growth b n)) = sb_view b"
proof (cases "n \<le> sb_capacity b")
  case True
  with assms show ?thesis
    by (simp add: sb_resize_with_double_capacity_growth_def sb_view_def min_absorb1)
next
  case False
  with assms show ?thesis
    by (auto simp: sb_resize_with_double_capacity_growth_def sb_wf_def sb_view_def Let_def min_absorb1 max_def)
qed

text \<open>
  Appending through \<open>resize\<close> and a copy, as \<open>pkg_input_t::append()\<close> does on a full ring.
\<close>

lemma sb_resize_write_view:
  assumes "sb_wf b"
  shows "sb_view (sb_write (sb_resize b (sb_size b + length src)) (sb_size b) src) = sb_view b @ src"
    and "sb_wf (sb_write (sb_resize b (sb_size b + length src)) (sb_size b) src)"
proof -
  let ?r = "sb_resize b (sb_size b + length src)"
  have wf: "sb_wf ?r" and sz: "sb_size ?r = sb_size b + length src"
    using assms by simp_all
  then have len: "sb_size b + length src \<le> length (sb_data ?r)"
    by (simp add: sb_wf_def)
  have pre: "take (sb_size b) (sb_data ?r) = sb_view b"
    using assms by (simp add: sb_resize_keeps_data)
  show "sb_view (sb_write ?r (sb_size b) src) = sb_view b @ src"
    using len pre by (simp add: sb_write_def sb_view_def)
  show "sb_wf (sb_write ?r (sb_size b) src)"
    using wf len by (simp add: sb_write_def sb_wf_def)
qed

section \<open>Growth by doubling is amortised\<close>

text \<open>
  A run of \<open>increment_size_with_double_capacity_growth\<close> calls, with the number of bytes the
  reallocations copy. The copies never add up to more than twice the final size.
\<close>

fun sb_grow_run :: "simple_buffer \<Rightarrow> nat list \<Rightarrow> simple_buffer \<times> nat" where
  "sb_grow_run b [] = (b, 0)"
| "sb_grow_run b (k # ks) =
     (let copied = (if sb_size b + k \<le> sb_capacity b then 0 else sb_size b);
          (b', rest) = sb_grow_run (sb_increment_size_with_double_capacity_growth b k) ks
      in (b', copied + rest))"

lemma sb_grow_run_bound:
  assumes "sb_wf b" "c \<le> sb_capacity b" "c \<le> 2 * sb_size b"
  shows "c + snd (sb_grow_run b ks) \<le> 2 * sb_size (fst (sb_grow_run b ks))"
  using assms
proof (induction b ks arbitrary: c rule: sb_grow_run.induct)
  case (1 b)
  then show ?case by simp
next
  case (2 b k ks)
  define b' where "b' = sb_increment_size_with_double_capacity_growth b k"
  define copied where "copied = (if sb_size b + k \<le> sb_capacity b then 0 else sb_size b)"
  have wf: "sb_wf b'"
    using "2.prems"(1) by (simp add: b'_def sb_increment_size_with_double_capacity_growth_def)
  have sz: "sb_size b' = sb_size b + k"
    by (simp add: b'_def sb_increment_size_with_double_capacity_growth_def
        sb_resize_with_double_capacity_growth_def Let_def)
  have "c + copied \<le> sb_capacity b'" and "c + copied \<le> 2 * sb_size b'"
    using "2.prems" by (auto simp: copied_def b'_def sb_increment_size_with_double_capacity_growth_def
        sb_resize_with_double_capacity_growth_def sb_wf_def Let_def)
  then have "(c + copied) + snd (sb_grow_run b' ks) \<le> 2 * sb_size (fst (sb_grow_run b' ks))"
    using "2.IH"[of copied "c + copied"] wf by (simp add: b'_def copied_def)
  then show ?case
    by (simp add: b'_def copied_def Let_def case_prod_beta)
qed

text \<open>
  C36. Growing a buffer by any sequence of \<open>increment_size_with_double_capacity_growth\<close> calls keeps the
  bytes it had, ends with the sum of the increments as its size, and copies at most twice as many
  bytes as the final size, however small the steps.
\<close>

theorem doubling_growth_amortised:
  assumes "sb_wf b" "sb_size b = 0"
  shows "snd (sb_grow_run b ks) \<le> 2 * sum_list ks \<and> sb_size (fst (sb_grow_run b ks)) = sum_list ks"
proof -
  have size: "sb_size (fst (sb_grow_run x ks)) = sb_size x + sum_list ks" for x
    by (induction x ks rule: sb_grow_run.induct)
      (simp_all add: case_prod_beta Let_def sb_increment_size_with_double_capacity_growth_def
        sb_resize_with_double_capacity_growth_def)
  show ?thesis
    using sb_grow_run_bound [OF assms(1), of 0 ks] size [of b] assms(2) by simp
qed

theorem doubling_growth_amortised_witness:
  "snd (sb_grow_run sb_default [1, 1, 1, 1, 1]) \<le> 10"
  using doubling_growth_amortised [of sb_default "[1, 1, 1, 1, 1]"] by simp

section \<open>Buffer drivers\<close>

text \<open>
  The \<open>Buffer_Driver\<close> parameter of the connection as a record of the operations the connection
  calls. Both drivers of the library read into \<open>simple_buffer_t\<close> and hand out
  \<open>simple_buffer_t\<close> from \<open>allocate_output\<close>; \<open>bd_to_output\<close> is the implicit conversion to
  \<open>output_buffer_t\<close>. An asio const buffer is the bytes it refers to.
\<close>

record 'b buffer_driver =
  bd_allocate_input :: "nat \<Rightarrow> simple_buffer"
  bd_reallocate_input :: "simple_buffer \<Rightarrow> nat \<Rightarrow> simple_buffer"
  bd_reduce_size_input :: "simple_buffer \<Rightarrow> nat \<Rightarrow> simple_buffer option"
  bd_allocate_output :: "nat \<Rightarrow> simple_buffer"
  bd_to_output :: "simple_buffer \<Rightarrow> 'b"
  bd_make_asio_const_buffer :: "'b \<Rightarrow> byte list"
  bd_buffer_size :: "'b \<Rightarrow> nat"

text \<open>What the connection relies on.\<close>

locale buffer_driver_laws =
  fixes d :: "'b buffer_driver"
  assumes allocate_input: "sb_wf (bd_allocate_input d n) \<and> sb_size (bd_allocate_input d n) = n"
    and reallocate_input:
      "sb_wf b \<Longrightarrow> sb_wf (bd_reallocate_input d b n) \<and> sb_size (bd_reallocate_input d b n) = n"
    and reduce_size_input:
      "sb_wf b \<Longrightarrow> n \<le> sb_size b \<Longrightarrow>
       \<exists>b'. bd_reduce_size_input d b n = Some b' \<and> sb_wf b' \<and> sb_view b' = take n (sb_view b)"
    and allocate_output: "sb_wf (bd_allocate_output d n) \<and> sb_size (bd_allocate_output d n) = n"
    and view_to_output: "sb_wf b \<Longrightarrow> bd_make_asio_const_buffer d (bd_to_output d b) = sb_view b"
begin

text \<open>A freshly allocated output buffer filled front to back carries exactly the bytes written.\<close>

lemma write_whole_output:
  assumes "n = length src"
  shows "bd_make_asio_const_buffer d (bd_to_output d (sb_write (bd_allocate_output d n) 0 src)) = src"
proof -
  have wf: "sb_wf (bd_allocate_output d n)" and sz: "sb_size (bd_allocate_output d n) = n"
    using allocate_output by blast+
  then have len: "length src \<le> length (sb_data (bd_allocate_output d n))"
    using assms by (simp add: sb_wf_def)
  have "sb_wf (sb_write (bd_allocate_output d n) 0 src)"
    using wf len by (simp add: sb_write_def sb_wf_def)
  then have "bd_make_asio_const_buffer d (bd_to_output d (sb_write (bd_allocate_output d n) 0 src))
      = sb_view (sb_write (bd_allocate_output d n) 0 src)"
    by (rule view_to_output)
  also have "\<dots> = src"
    using sz len assms by (simp add: sb_write_def sb_view_def)
  finally show ?thesis .
qed

end

text \<open>\<open>simple_buffer_driver_t\<close>.\<close>

definition simple_allocate_input :: "nat \<Rightarrow> simple_buffer" where
  "simple_allocate_input n = sb_new n"

definition simple_reallocate_input :: "simple_buffer \<Rightarrow> nat \<Rightarrow> simple_buffer" where
  "simple_reallocate_input old_buf n = sb_resize old_buf n"

definition simple_reduce_size_input :: "simple_buffer \<Rightarrow> nat \<Rightarrow> simple_buffer option" where
  "simple_reduce_size_input old_buf n = sb_shrink_size old_buf n"

definition simple_allocate_output :: "nat \<Rightarrow> simple_buffer" where
  "simple_allocate_output n = sb_new n"

definition simple_reallocate_output :: "simple_buffer \<Rightarrow> nat \<Rightarrow> simple_buffer" where
  "simple_reallocate_output old_buf n = sb_resize old_buf n"

definition simple_make_asio_const_buffer :: "simple_buffer \<Rightarrow> byte list" where
  "simple_make_asio_const_buffer buf = sb_view buf"

definition simple_buffer_size :: "simple_buffer \<Rightarrow> nat" where
  "simple_buffer_size buf = sb_size buf"

definition simple_buffer_driver :: "simple_buffer buffer_driver" where
  "simple_buffer_driver =
     \<lparr>bd_allocate_input = simple_allocate_input, bd_reallocate_input = simple_reallocate_input,
      bd_reduce_size_input = simple_reduce_size_input, bd_allocate_output = simple_allocate_output,
      bd_to_output = id, bd_make_asio_const_buffer = simple_make_asio_const_buffer,
      bd_buffer_size = simple_buffer_size\<rparr>"

interpretation simple_drv: buffer_driver_laws simple_buffer_driver
  by unfold_locales
    (simp_all add: simple_buffer_driver_def simple_allocate_input_def simple_reallocate_input_def
      simple_reduce_size_input_def simple_allocate_output_def simple_make_asio_const_buffer_def
      sb_shrink_size_view)

end
