(* ===== verification/HeterogeneousBuffer.thy ===== *)
theory HeterogeneousBuffer
  imports Buffer
begin

text \<open>
  \<open>net/include/opio/net/heterogeneous_buffer.hpp\<close>: the buffer entities behind
  \<open>buffer_iface_t\<close> as the constructors of one datatype, \<open>heterogeneous_buffer_t\<close> as a value of
  it, and \<open>heterogeneous_buffer_driver_t\<close>. A datasizeable type other than
  \<open>simple_buffer_t\<close> is given by its bytes.
\<close>

text \<open>\<open>opio::exception_t\<close>.\<close>

datatype exception_t = Exception string

text \<open>
  \<open>const_buffer_t\<close>, \<open>datasizeable_buffer_t\<close>, \<open>shared_datasizeable_buffer_t\<close> (with the use count of
  the shared pointer and whether the pointee is a mutable datasizeable) and
  \<open>adjustable_content_buffer_t\<close> (with its adjuster, which rewrites the bytes in place).
\<close>

datatype hbuf =
    ConstBuffer "byte list"
  | DatasizeableSimple simple_buffer
  | DatasizeableOther "byte list"
  | SharedSimple simple_buffer nat
  | SharedOther "byte list" bool
  | AdjustableSimple simple_buffer "byte list \<Rightarrow> byte list"
  | AdjustableOther "byte list" "byte list \<Rightarrow> byte list"

text \<open>The default constructor holds a const buffer over nothing.\<close>

definition hb_default :: hbuf where
  "hb_default = ConstBuffer []"

definition hb_of_cstr :: "byte list \<Rightarrow> hbuf" where
  "hb_of_cstr str = DatasizeableOther str"

definition hb_of_shared_simple :: "(simple_buffer \<times> nat) option \<Rightarrow> exception_t + hbuf" where
  "hb_of_shared_simple sp =
     (case sp of None \<Rightarrow> Inl (Exception ''empty shared_ptr cannot be used as buffer'')
      | Some (b, cnt) \<Rightarrow> Inr (SharedSimple b cnt))"

text \<open>
  \<open>make_asio_const_buffer\<close>: the bytes referred to and the entity afterwards, since asking an
  adjustable buffer for its content runs the adjuster on it.
\<close>

fun hb_make_asio_const_buffer :: "hbuf \<Rightarrow> byte list \<times> hbuf" where
  "hb_make_asio_const_buffer (ConstBuffer bs) = (bs, ConstBuffer bs)"
| "hb_make_asio_const_buffer (DatasizeableSimple b) = (sb_view b, DatasizeableSimple b)"
| "hb_make_asio_const_buffer (DatasizeableOther bs) = (bs, DatasizeableOther bs)"
| "hb_make_asio_const_buffer (SharedSimple b cnt) = (sb_view b, SharedSimple b cnt)"
| "hb_make_asio_const_buffer (SharedOther bs m) = (bs, SharedOther bs m)"
| "hb_make_asio_const_buffer (AdjustableSimple b adj) =
     (let b' = sb_write b 0 (adj (sb_view b)) in (sb_view b', AdjustableSimple b' adj))"
| "hb_make_asio_const_buffer (AdjustableOther bs adj) =
     (let bs' = adj bs in (bs', AdjustableOther bs' adj))"

fun hb_make_asio_mutable_buffer :: "hbuf \<Rightarrow> exception_t + byte list" where
  "hb_make_asio_mutable_buffer (ConstBuffer bs) =
     Inl (Exception ''const_buffer_t cannot act as a write to buffer'')"
| "hb_make_asio_mutable_buffer (DatasizeableSimple b) = Inr (sb_view b)"
| "hb_make_asio_mutable_buffer (DatasizeableOther bs) = Inr bs"
| "hb_make_asio_mutable_buffer (SharedSimple b cnt) = Inr (sb_view b)"
| "hb_make_asio_mutable_buffer (SharedOther bs m) =
     (if m then Inr bs else Inl (Exception ''constant buffer cannot act as a write to buffer''))"
| "hb_make_asio_mutable_buffer (AdjustableSimple b adj) = Inr (sb_view b)"
| "hb_make_asio_mutable_buffer (AdjustableOther bs adj) = Inr bs"

fun hb_get_size :: "hbuf \<Rightarrow> nat" where
  "hb_get_size (ConstBuffer bs) = length bs"
| "hb_get_size (DatasizeableSimple b) = sb_size b"
| "hb_get_size (DatasizeableOther bs) = length bs"
| "hb_get_size (SharedSimple b cnt) = sb_size b"
| "hb_get_size (SharedOther bs m) = length bs"
| "hb_get_size (AdjustableSimple b adj) = sb_size b"
| "hb_get_size (AdjustableOther bs adj) = length bs"

text \<open>
  \<open>extract_reusable_simple_buffer( buf )\<close>: whether a buffer was given away, \<open>buf\<close> afterwards and
  the entity afterwards (moved from where it was given away).
\<close>

fun hb_extract_reusable_simple_buffer :: "hbuf \<Rightarrow> simple_buffer \<Rightarrow> bool \<times> simple_buffer \<times> hbuf" where
  "hb_extract_reusable_simple_buffer (DatasizeableSimple b) buf =
     (let (buf', b') = sb_move_assign buf b in (True, buf', DatasizeableSimple b'))"
| "hb_extract_reusable_simple_buffer (SharedSimple b cnt) buf =
     (if 1 < cnt then (False, buf, SharedSimple b cnt)
      else let (buf', b') = sb_move_assign buf b in (True, buf', SharedSimple b' cnt))"
| "hb_extract_reusable_simple_buffer (AdjustableSimple b adj) buf =
     (let (buf', b') = sb_move_assign buf b in (True, buf', AdjustableSimple b' adj))"
| "hb_extract_reusable_simple_buffer hb buf = (False, buf, hb)"

text \<open>
  \<open>relocate_to\<close>: the entity constructed in the new storage by move construction, and the
  move assignment, which destroys the old entity first.
\<close>

fun hb_relocate_to :: "hbuf \<Rightarrow> hbuf" where
  "hb_relocate_to (DatasizeableSimple b) = DatasizeableSimple (fst (sb_move_construct b))"
| "hb_relocate_to (AdjustableSimple b adj) = AdjustableSimple (fst (sb_move_construct b)) adj"
| "hb_relocate_to hb = hb"

definition hb_move_construct :: "hbuf \<Rightarrow> hbuf" where
  "hb_move_construct b = hb_relocate_to b"

definition hb_move_assign :: "hbuf \<Rightarrow> hbuf \<Rightarrow> hbuf" where
  "hb_move_assign this b = hb_relocate_to b"

text \<open>
  \<open>heterogeneous_buffer_driver_t\<close>. The driver record has a pure view of a buffer, so through it
  an adjustable buffer shows the content its first adjustment gives; the connection asks for the
  content several times, which is the same thing for an adjuster that changes nothing the second
  time.
\<close>

definition hb_reallocate_output :: "hbuf \<Rightarrow> nat \<Rightarrow> hbuf" where
  "hb_reallocate_output old_buf n =
     (let (ok, buf, old') = hb_extract_reusable_simple_buffer old_buf sb_default
      in DatasizeableSimple (sb_resize buf n))"

definition hetero_allocate_input :: "nat \<Rightarrow> simple_buffer" where
  "hetero_allocate_input n = sb_new n"

definition hetero_reallocate_input :: "simple_buffer \<Rightarrow> nat \<Rightarrow> simple_buffer" where
  "hetero_reallocate_input old_buf n = sb_resize old_buf n"

definition hetero_reduce_size_input :: "simple_buffer \<Rightarrow> nat \<Rightarrow> simple_buffer option" where
  "hetero_reduce_size_input old_buf n = sb_shrink_size old_buf n"

definition hetero_allocate_output :: "nat \<Rightarrow> simple_buffer" where
  "hetero_allocate_output n = sb_new n"

definition hetero_make_asio_const_buffer :: "hbuf \<Rightarrow> byte list" where
  "hetero_make_asio_const_buffer buf = fst (hb_make_asio_const_buffer buf)"

definition hetero_buffer_size :: "hbuf \<Rightarrow> nat" where
  "hetero_buffer_size buf = hb_get_size buf"

definition heterogeneous_buffer_driver :: "hbuf buffer_driver" where
  "heterogeneous_buffer_driver =
     \<lparr>bd_allocate_input = hetero_allocate_input, bd_reallocate_input = hetero_reallocate_input,
      bd_reduce_size_input = hetero_reduce_size_input, bd_allocate_output = hetero_allocate_output,
      bd_to_output = DatasizeableSimple, bd_make_asio_const_buffer = hetero_make_asio_const_buffer,
      bd_buffer_size = hetero_buffer_size\<rparr>"

interpretation hetero_drv: buffer_driver_laws heterogeneous_buffer_driver
  by unfold_locales
    (simp_all add: heterogeneous_buffer_driver_def hetero_allocate_input_def hetero_reallocate_input_def
      hetero_reduce_size_input_def hetero_allocate_output_def hetero_make_asio_const_buffer_def
      sb_shrink_size_view)

section \<open>Facts\<close>

fun hb_wf :: "hbuf \<Rightarrow> bool" where
  "hb_wf (DatasizeableSimple b) = sb_wf b"
| "hb_wf (SharedSimple b cnt) = sb_wf b"
| "hb_wf (AdjustableSimple b adj) = (sb_wf b \<and> (\<forall>bs. length (adj bs) = length bs))"
| "hb_wf (AdjustableOther bs adj) = (\<forall>bs. length (adj bs) = length bs)"
| "hb_wf hb = True"

lemma hb_size_is_view_length:
  "hb_wf hb \<Longrightarrow> hb_get_size hb = length (fst (hb_make_asio_const_buffer hb))"
  by (cases hb) (simp_all add: sb_view_length sb_write_def sb_wf_def sb_view_def Let_def min_absorb1)

lemma hb_relocate_to_id: "hb_relocate_to hb = hb"
  by (cases hb) simp_all

lemma hb_const_buffer_wf: "hb_wf hb \<Longrightarrow> hb_wf (snd (hb_make_asio_const_buffer hb))"
  by (cases hb) (auto simp: Let_def sb_write_def sb_wf_def sb_view_def)

end
