(* ===== verification/WriteSequence.thy ===== *)
theory WriteSequence
  imports Buffer
begin

text \<open>
  \<open>net/include/opio/net/tcp/connection.hpp\<close>, namespace \<open>details\<close>:
  \<open>single_writable_sequence_t\<close>, the unit of one gathering write, with the in-place compaction
  \<open>concat_small_buffers\<close>, and \<open>skip_transferred_part\<close>. The compaction is proved equal to a
  structural greedy grouping, from which its properties follow.
\<close>

section \<open>The sequence\<close>

text \<open>
  \<open>asio::detail::max_iov_len\<close> belongs to asio, so it is an argument. A completion callback is
  known by a number.
\<close>

definition reasonable_max_iov_len :: "nat \<Rightarrow> nat" where
  "reasonable_max_iov_len asio_max_iov_len = min asio_max_iov_len 16"

definition concatenated_buffer_max_size :: nat where
  "concatenated_buffer_max_size = 16 * 1024"

type_synonym cb_id = nat

record 'b wseq =
  ws_bufs :: "'b list"
  ws_cbs :: "cb_id list"

definition ws_empty :: "'b wseq" where
  "ws_empty = \<lparr>ws_bufs = [], ws_cbs = []\<rparr>"

definition ws_can_append_buffer :: "nat \<Rightarrow> 'b wseq \<Rightarrow> nat \<Rightarrow> bool" where
  "ws_can_append_buffer mx ws n \<longleftrightarrow> length (ws_bufs ws) + n \<le> mx"

definition ws_append_buffer :: "nat \<Rightarrow> 'b wseq \<Rightarrow> 'b \<Rightarrow> 'b wseq option" where
  "ws_append_buffer mx ws buf = do {
     check (ws_can_append_buffer mx ws 1);
     Some (ws\<lparr>ws_bufs := ws_bufs ws @ [buf]\<rparr>) }"

definition ws_append_completion_cb :: "nat \<Rightarrow> 'b wseq \<Rightarrow> cb_id \<Rightarrow> 'b wseq option" where
  "ws_append_completion_cb mx ws cb = do {
     check (length (ws_cbs ws) < mx);
     Some (ws\<lparr>ws_cbs := ws_cbs ws @ [cb]\<rparr>) }"

definition ws_asio_bufs :: "'b buffer_driver \<Rightarrow> 'b wseq \<Rightarrow> byte list list \<times> nat" where
  "ws_asio_bufs d ws =
     (let bufs = map (bd_make_asio_const_buffer d) (ws_bufs ws)
      in (bufs, sum_list (map length bufs)))"

definition ws_send_complete_cb_list :: "'b wseq \<Rightarrow> cb_id list" where
  "ws_send_complete_cb_list ws = ws_cbs ws"

section \<open>Compaction\<close>

text \<open>The inner loop: advance \<open>last_to_concat\<close> while the next buffer still fits.\<close>

function concat_find_last :: "nat \<Rightarrow> byte list list \<Rightarrow> nat \<Rightarrow> nat \<Rightarrow> nat \<times> nat" where
  "concat_find_last mx bufs last_to_concat concatenated_size =
     (if last_to_concat < length bufs \<and>
         concatenated_size + length (bufs ! last_to_concat) \<le> mx
      then concat_find_last mx bufs (last_to_concat + 1)
             (concatenated_size + length (bufs ! last_to_concat))
      else (last_to_concat, concatenated_size))"
  by pat_completeness auto
termination
  by (relation "measure (\<lambda>(mx, bufs, l, c). length bufs - l)") auto

declare concat_find_last.simps [simp del]

text \<open>The copy loop: \<open>dest\<close> advances through the new buffer.\<close>

fun concat_copy :: "simple_buffer \<Rightarrow> nat \<Rightarrow> byte list list \<Rightarrow> simple_buffer" where
  "concat_copy new_buf dest [] = new_buf"
| "concat_copy new_buf dest (buf_from # rest) =
     concat_copy (sb_write new_buf dest buf_from) (dest + length buf_from) rest"

lemma concat_find_last_ge: "l \<le> fst (concat_find_last mx bufs l c)"
proof (induction mx bufs l c rule: concat_find_last.induct)
  case (1 mx bufs l c)
  show ?case
  proof (cases "l < length bufs \<and> c + length (bufs ! l) \<le> mx")
    case True
    then have "l + 1 \<le> fst (concat_find_last mx bufs (l + 1) (c + length (bufs ! l)))"
      using 1 by blast
    then show ?thesis using True by (subst concat_find_last.simps) simp
  next
    case False
    then show ?thesis by (subst concat_find_last.simps) auto
  qed
qed

text \<open>
  The outer loop over \<open>m_bufs_storage\<close>, \<open>results_first\<close>, \<open>first_to_concat\<close> and
  \<open>new_seq_size\<close>; \<open>bufs\<close> are the descriptors taken before the loop, and \<open>last_to_concat\<close> is
  \<open>first_to_concat + 1\<close> whenever a round starts.
\<close>

function concat_loop ::
  "'b buffer_driver \<Rightarrow> nat \<Rightarrow> byte list list \<Rightarrow> 'b list \<Rightarrow> nat \<Rightarrow> nat \<Rightarrow> nat \<Rightarrow> 'b list \<times> nat" where
  "concat_loop d mx bufs storage results_first first_to_concat new_seq_size =
     (if first_to_concat < length bufs then
        let found = concat_find_last mx bufs (first_to_concat + 1) (length (bufs ! first_to_concat));
            last_to_concat = fst found;
            concatenated_size = snd found;
            storage' =
              (if last_to_concat - first_to_concat > 1 then
                 storage[results_first := bd_to_output d
                   (concat_copy (bd_allocate_output d concatenated_size) 0
                     (take (last_to_concat - first_to_concat) (drop first_to_concat bufs)))]
               else if results_first \<noteq> first_to_concat then
                 storage[results_first := storage ! first_to_concat]
               else storage)
        in concat_loop d mx bufs storage' (results_first + 1) last_to_concat
             (new_seq_size - (last_to_concat - first_to_concat - 1))
      else (storage, new_seq_size))"
  by pat_completeness auto
termination
proof (relation "measure (\<lambda>(d, mx, bufs, st, rf, ff, n). length bufs - ff)", goal_cases)
  case 1
  then show ?case by simp
next
  case (2 d mx bufs st rf ff n found last csz st')
  then have "ff + 1 \<le> last" using concat_find_last_ge by simp
  with 2 show ?case by simp
qed

declare concat_loop.simps [simp del]

definition ws_concat_small_buffers :: "'b buffer_driver \<Rightarrow> nat \<Rightarrow> 'b wseq \<Rightarrow> 'b wseq option" where
  "ws_concat_small_buffers d mx ws = do {
     check (0 \<noteq> length (ws_bufs ws));
     let bufs = fst (ws_asio_bufs d ws);
     let (storage, new_seq_size) = concat_loop d mx bufs (ws_bufs ws) 0 0 (length (ws_bufs ws));
     check (length storage \<ge> new_seq_size);
     Some (ws\<lparr>ws_bufs := take new_seq_size storage\<rparr>) }"

section \<open>\<open>skip_transferred_part\<close>\<close>

text \<open>
  The loop leaves the span when \<open>transferred\<close> is not less than the bytes it covers; the read out
  of range is \<open>None\<close>, as the assertion on an empty span is.
\<close>

fun skip_transferred_part :: "byte list list \<Rightarrow> nat \<Rightarrow> byte list list option" where
  "skip_transferred_part [] transferred = None"
| "skip_transferred_part (b # bufs) transferred =
     (if length b \<le> transferred then skip_transferred_part bufs (transferred - length b)
      else Some (drop transferred b # bufs))"

lemma skip_transferred_part_Some:
  "transferred < length (concat bufs) \<Longrightarrow>
   \<exists>res. skip_transferred_part bufs transferred = Some res \<and>
         concat res = drop transferred (concat bufs) \<and> res \<noteq> [] \<and> hd res \<noteq> []"
proof (induction bufs transferred rule: skip_transferred_part.induct)
  case (1 t)
  then show ?case by simp
next
  case (2 b bufs t)
  show ?case
  proof (cases "length b \<le> t")
    case True
    with "2.prems" have "t - length b < length (concat bufs)" by simp
    with "2.IH"[OF True] True show ?thesis by auto
  next
    case False
    then show ?thesis by simp
  qed
qed

lemma skip_transferred_part_None:
  "length (concat bufs) \<le> transferred \<Longrightarrow> skip_transferred_part bufs transferred = None"
  by (induction bufs transferred rule: skip_transferred_part.induct) auto

section \<open>The structural reading of the compaction\<close>

text \<open>How many of the following buffers join the group that has \<open>c\<close> bytes so far.\<close>

fun fitting :: "('b \<Rightarrow> byte list) \<Rightarrow> nat \<Rightarrow> nat \<Rightarrow> 'b list \<Rightarrow> nat" where
  "fitting v mx c [] = 0"
| "fitting v mx c (b # bs) =
     (if c + length (v b) \<le> mx then Suc (fitting v mx (c + length (v b)) bs) else 0)"

definition merged :: "'b buffer_driver \<Rightarrow> 'b list \<Rightarrow> 'b" where
  "merged d bs =
     (let bytes = concat (map (bd_make_asio_const_buffer d) bs)
      in bd_to_output d (sb_write (bd_allocate_output d (length bytes)) 0 bytes))"

function compacted :: "'b buffer_driver \<Rightarrow> nat \<Rightarrow> 'b list \<Rightarrow> 'b list" where
  "compacted d mx [] = []"
| "compacted d mx (b # bs) =
     (let v = bd_make_asio_const_buffer d; k = fitting v mx (length (v b)) bs
      in (if 0 < k then merged d (b # take k bs) else b) # compacted d mx (drop k bs))"
  by pat_completeness auto
termination
  by (relation "measure (\<lambda>(d, mx, bs). length bs)") auto

lemma fitting_le: "fitting v mx c bs \<le> length bs"
  by (induction v mx c bs rule: fitting.induct) auto

lemma fitting_size: "c \<le> mx \<Longrightarrow> c + length (concat (map v (take (fitting v mx c bs) bs))) \<le> mx"
  by (induction v mx c bs rule: fitting.induct) (auto simp: add.assoc)

lemma fitting_stops:
  "fitting v mx c bs < length bs \<Longrightarrow>
   mx < c + length (concat (map v (take (fitting v mx c bs) bs))) + length (v (bs ! fitting v mx c bs))"
  by (induction v mx c bs rule: fitting.induct) (auto simp: add.assoc split: if_splits)

lemma concat_find_last_fitting:
  "concat_find_last mx (map v bs) l c =
     (l + fitting v mx c (drop l bs),
      c + length (concat (map v (take (fitting v mx c (drop l bs)) (drop l bs)))))"
proof (induction "length bs - l" arbitrary: l c)
  case 0
  then show ?case by (simp add: concat_find_last.simps)
next
  case (Suc n)
  then have l: "l < length bs" by simp
  then have split: "drop l bs = bs ! l # drop (Suc l) bs"
    by (simp add: Cons_nth_drop_Suc)
  have IH: "concat_find_last mx (map v bs) (Suc l) c' =
     (Suc l + fitting v mx c' (drop (Suc l) bs),
      c' + length (concat (map v (take (fitting v mx c' (drop (Suc l) bs)) (drop (Suc l) bs)))))" for c'
    using Suc by (metis Suc_diff_Suc diff_Suc_1 l)
  show ?case
  proof (cases "c + length (v (bs ! l)) \<le> mx")
    case True
    then show ?thesis
      using l by (simp add: concat_find_last.simps [of mx _ l c] split IH add.assoc)
  next
    case False
    then show ?thesis
      using l by (simp add: concat_find_last.simps [of mx _ l c] split)
  qed
qed

section \<open>The loop computes the grouping\<close>

lemma concat_copy_eq:
  "off + length (concat bs) \<le> length (sb_data b) \<Longrightarrow> concat_copy b off bs = sb_write b off (concat bs)"
proof (induction b off bs rule: concat_copy.induct)
  case (1 b off)
  then show ?case by (simp add: sb_write_def blit_def)
next
  case (2 b off x xs)
  then have "concat_copy (sb_write b off x) (off + length x) xs =
      sb_write (sb_write b off x) (off + length x) (concat xs)"
    by (simp add: sb_write_def)
  also have "\<dots> = sb_write b off (concat (x # xs))"
    using 2 by (simp add: sb_write_def blit_blit)
  finally show ?case by simp
qed

context buffer_driver_laws
begin

lemma allocate_output_room: "n \<le> length (sb_data (bd_allocate_output d n))"
  using allocate_output [of n] by (simp add: sb_wf_def)

lemma concat_copy_merged:
  "bd_to_output d (concat_copy (bd_allocate_output d (length (concat (map (bd_make_asio_const_buffer d) bs)))) 0
      (map (bd_make_asio_const_buffer d) bs)) = merged d bs"
  using allocate_output_room by (simp add: concat_copy_eq merged_def Let_def)

text \<open>One round of the outer loop, with the invariant that ties the storage to the input.\<close>

lemma concat_round:
  fixes bs :: "'b list" and mx :: nat
  assumes "ff < length bs" "length st = length bs" "rf \<le> ff" "drop ff st = drop ff bs"
  defines "v \<equiv> bd_make_asio_const_buffer d"
  defines "k \<equiv> fitting v mx (length (v (bs ! ff))) (drop (Suc ff) bs)"
  defines "e \<equiv> (if 0 < k then merged d (bs ! ff # take k (drop (Suc ff) bs)) else bs ! ff)"
  shows "concat_loop d mx (map v bs) st rf ff n =
         concat_loop d mx (map v bs) (st[rf := e]) (Suc rf) (Suc ff + k) (n - k)"
proof -
  have found: "concat_find_last mx (map v bs) (ff + 1) (length (map v bs ! ff)) =
      (Suc ff + k, length (concat (map v (bs ! ff # take k (drop (Suc ff) bs)))))"
    using assms(1) by (simp add: concat_find_last_fitting k_def)
  have slice: "take (Suc k) (drop ff (map v bs)) = map v (bs ! ff # take k (drop (Suc ff) bs))"
    using assms(1) by (simp add: Cons_nth_drop_Suc [symmetric] take_map drop_map)
  have stff: "st ! ff = bs ! ff"
    using assms(1,2,4) by (metis hd_drop_conv_nth)
  have upd: "(if Suc ff + k - ff > 1 then
        st[rf := bd_to_output d (concat_copy (bd_allocate_output d
          (length (concat (map v (bs ! ff # take k (drop (Suc ff) bs)))))) 0
          (take (Suc ff + k - ff) (drop ff (map v bs))))]
      else if rf \<noteq> ff then st[rf := st ! ff] else st) = st[rf := e]"
  proof (cases "0 < k")
    case True
    have lengths: "Suc ff + k - ff = Suc k" "1 < Suc k" using True by simp_all
    show ?thesis
      unfolding lengths(1) slice
      using concat_copy_merged [of "bs ! ff # take k (drop (Suc ff) bs)", folded v_def] True
      by (simp only: e_def lengths if_True)
  next
    case False
    then show ?thesis
      using stff list_update_id [of st ff] by (simp add: e_def)
  qed
  have "concat_loop d mx (map v bs) st rf ff n =
      concat_loop d mx (map v bs)
       (if Suc ff + k - ff > 1 then
        st[rf := bd_to_output d (concat_copy (bd_allocate_output d
          (length (concat (map v (bs ! ff # take k (drop (Suc ff) bs)))))) 0
          (take (Suc ff + k - ff) (drop ff (map v bs))))]
        else if rf \<noteq> ff then st[rf := st ! ff] else st) (rf + 1) (Suc ff + k) (n - (Suc ff + k - ff - 1))"
    using assms(1) by (subst concat_loop.simps) (simp only: found fst_conv snd_conv Let_def if_True length_map)
  then show ?thesis unfolding upd by simp
qed

lemma concat_loop_compacted:
  fixes bs :: "'b list" and mx :: nat
  assumes "ff \<le> length bs" "length st = length bs" "rf \<le> ff" "drop ff st = drop ff bs"
    and "n = rf + (length bs - ff)"
  defines "v \<equiv> bd_make_asio_const_buffer d"
  shows "length (fst (concat_loop d mx (map v bs) st rf ff n)) = length bs \<and>
         snd (concat_loop d mx (map v bs) st rf ff n) \<le> length bs \<and>
         take (snd (concat_loop d mx (map v bs) st rf ff n)) (fst (concat_loop d mx (map v bs) st rf ff n)) =
           take rf st @ compacted d mx (drop ff bs)"
  using assms(1-5)
proof (induction "length bs - ff" arbitrary: ff st rf n rule: less_induct)
  case less
  show ?case
  proof (cases "ff < length bs")
    case False
    then have "concat_loop d mx (map v bs) st rf ff n = (st, rf)"
      using less.prems by (subst concat_loop.simps) simp
    with False less.prems show ?thesis by simp
  next
    case True
    define k where "k = fitting v mx (length (v (bs ! ff))) (drop (Suc ff) bs)"
    define e where "e = (if 0 < k then merged d (bs ! ff # take k (drop (Suc ff) bs)) else bs ! ff)"
    have kle: "k \<le> length bs - Suc ff"
      using fitting_le [of v mx _ "drop (Suc ff) bs"] by (simp add: k_def)
    have round: "concat_loop d mx (map v bs) st rf ff n =
        concat_loop d mx (map v bs) (st[rf := e]) (Suc rf) (Suc ff + k) (n - k)"
      unfolding k_def e_def v_def
      by (rule concat_round) (use True less.prems in simp_all)
    have drop': "drop (Suc ff + k) (st[rf := e]) = drop (Suc ff + k) bs"
    proof -
      have "drop (Suc ff + k) (st[rf := e]) = drop (Suc k) (drop ff st)"
        using less.prems(3) by (simp add: add.commute)
      also have "\<dots> = drop (Suc ff + k) bs"
        by (simp add: less.prems(4) add.commute)
      finally show ?thesis .
    qed
    have take': "take (Suc rf) (st[rf := e]) = take rf st @ [e]"
      using True less.prems by (simp add: take_Suc_conv_app_nth)
    have comp: "compacted d mx (drop ff bs) = e # compacted d mx (drop (Suc ff + k) bs)"
      using True by (simp add: Cons_nth_drop_Suc [symmetric] k_def e_def v_def Let_def add.commute)
    have smaller: "length bs - (Suc ff + k) < length bs - ff" and fits: "Suc ff + k \<le> length bs"
      and size: "n - k = Suc rf + (length bs - (Suc ff + k))"
      using True kle less.prems(5) by simp_all
    have lengths: "length (st[rf := e]) = length bs" "Suc rf \<le> Suc ff + k"
      using less.prems by simp_all
    show ?thesis
      unfolding round comp
      using less.hyps [OF smaller fits lengths drop' size] by (simp only: take' append_assoc append_Cons append_Nil)
  qed
qed

lemma ws_concat_small_buffers_eq:
  assumes "ws_bufs ws \<noteq> []"
  shows "ws_concat_small_buffers d mx ws = Some (ws\<lparr>ws_bufs := compacted d mx (ws_bufs ws)\<rparr>)"
  using concat_loop_compacted [of 0 "ws_bufs ws" "ws_bufs ws" 0 "length (ws_bufs ws)" mx] assms
  by (auto simp: ws_concat_small_buffers_def ws_asio_bufs_def case_prod_beta Let_def)

section \<open>What the grouping guarantees\<close>

lemma merged_view [view_simps]:
  "bd_make_asio_const_buffer d (merged d bs) = concat (map (bd_make_asio_const_buffer d) bs)"
  by (simp add: merged_def Let_def write_whole_output)

lemma compacted_bytes:
  "concat (map (bd_make_asio_const_buffer d) (compacted d mx bs)) =
   concat (map (bd_make_asio_const_buffer d) bs)"
proof (induction "length bs" arbitrary: bs rule: less_induct)
  case less
  show ?case
  proof (cases bs)
    case Nil
    then show ?thesis by simp
  next
    case (Cons b rest)
    define k where "k = fitting (bd_make_asio_const_buffer d) mx (length (bd_make_asio_const_buffer d b)) rest"
    have IH: "concat (map (bd_make_asio_const_buffer d) (compacted d mx (drop k rest))) =
        concat (map (bd_make_asio_const_buffer d) (drop k rest))"
      by (rule less) (simp add: Cons)
    have "concat (map (bd_make_asio_const_buffer d) rest) =
        concat (map (bd_make_asio_const_buffer d) (take k rest)) @
        concat (map (bd_make_asio_const_buffer d) (drop k rest))"
      by (simp flip: concat_append map_append)
    with IH show ?thesis
      by (simp add: Cons k_def [symmetric] Let_def merged_view)
  qed
qed

lemma compacted_nonempty: "bs \<noteq> [] \<Longrightarrow> compacted d mx bs \<noteq> []"
  by (cases bs) (simp_all add: Let_def)

lemma compacted_length: "length (compacted d mx bs) \<le> length bs"
proof (induction "length bs" arbitrary: bs rule: less_induct)
  case less
  show ?case
  proof (cases bs)
    case Nil
    then show ?thesis by simp
  next
    case (Cons b rest)
    define k where "k = fitting (bd_make_asio_const_buffer d) mx (length (bd_make_asio_const_buffer d b)) rest"
    have "length (compacted d mx (drop k rest)) \<le> length (drop k rest)"
      by (rule less) (simp add: Cons)
    then show ?thesis by (simp add: Cons k_def [symmetric] Let_def)
  qed
qed

lemma compacted_head_grows:
  "length (bd_make_asio_const_buffer d b) \<le> length (bd_make_asio_const_buffer d (hd (compacted d mx (b # bs))))"
  by (simp add: Let_def merged_view)

text \<open>A merged buffer is never above the limit; a larger one in the result is one of the input.\<close>

lemma compacted_size:
  "x \<in> set (compacted d mx bs) \<Longrightarrow> length (bd_make_asio_const_buffer d x) \<le> mx \<or> x \<in> set bs"
proof (induction "length bs" arbitrary: bs rule: less_induct)
  case less
  define v where "v = bd_make_asio_const_buffer d"
  from less.prems obtain b rest where bs: "bs = b # rest" by (cases bs) auto
  define k where "k = fitting v mx (length (v b)) rest"
  have split: "compacted d mx bs = (if 0 < k then merged d (b # take k rest) else b) # compacted d mx (drop k rest)"
    by (simp add: bs k_def v_def Let_def)
  consider (head) "x = (if 0 < k then merged d (b # take k rest) else b)" | (rest) "x \<in> set (compacted d mx (drop k rest))"
    using less.prems split by auto
  then show ?case
  proof cases
    case head
    have "length (v (merged d (b # take k rest))) \<le> mx" if "0 < k"
    proof -
      have "length (v b) \<le> mx"
        using that by (cases rest) (auto simp: k_def split: if_splits)
      then show ?thesis
        using fitting_size [of "length (v b)" mx v rest] by (simp add: v_def [symmetric] merged_view [folded v_def] k_def)
    qed
    then show ?thesis using head by (auto simp: bs v_def split: if_splits)
  next
    case rest
    then have "length (v x) \<le> mx \<or> x \<in> set (drop k rest)"
      using less.hyps [of "drop k rest"] by (simp add: bs v_def)
    then show ?thesis by (auto simp: bs v_def dest: in_set_dropD)
  qed
qed

text \<open>Nothing is left to merge: two neighbours of the result never fit in one buffer.\<close>

lemma compacted_maximal:
  "successively (\<lambda>x y. mx < length (bd_make_asio_const_buffer d x) + length (bd_make_asio_const_buffer d y))
     (compacted d mx bs)"
proof (induction "length bs" arbitrary: bs rule: less_induct)
  case less
  define v where "v = bd_make_asio_const_buffer d"
  show ?case
  proof (cases bs)
    case Nil
    then show ?thesis by simp
  next
    case (Cons b rest)
    define k where "k = fitting v mx (length (v b)) rest"
    define e where "e = (if 0 < k then merged d (b # take k rest) else b)"
    have split: "compacted d mx bs = e # compacted d mx (drop k rest)"
      by (simp add: Cons k_def e_def v_def Let_def)
    have size_e: "length (v e) = length (v b) + length (concat (map v (take k rest)))"
      by (auto simp: e_def v_def merged_view)
    have IH: "successively (\<lambda>x y. mx < length (v x) + length (v y)) (compacted d mx (drop k rest))"
      using less [of "drop k rest"] by (simp add: Cons v_def)
    show ?thesis
    proof (cases "k < length rest")
      case False
      then show ?thesis by (simp add: split)
    next
      case True
      define c where "c = rest ! k"
      have dr: "drop k rest = c # drop (Suc k) rest"
        using True by (simp add: c_def Cons_nth_drop_Suc)
      have "mx < length (v e) + length (v c)"
        using fitting_stops [of v mx "length (v b)" rest] True
        unfolding k_def [symmetric] size_e c_def by simp
      also have "\<dots> \<le> length (v e) + length (v (hd (compacted d mx (drop k rest))))"
        using compacted_head_grows [of c mx "drop (Suc k) rest"] by (simp add: v_def dr)
      finally show ?thesis
        using IH by (simp add: split successively_Cons v_def [symmetric])
    qed
  qed
qed

end

section \<open>Properties\<close>

text \<open>
  C23. \<open>concat_small_buffers\<close> keeps the bytes and the callbacks of a sequence, builds no merged buffer
  above the limit (16 KiB in a connection), never lengthens the sequence and leaves no two neighbours
  that would still fit together: running it again could not merge anything more.
\<close>

theorem concat_small_buffers_correct:
  assumes "buffer_driver_laws d" "ws_bufs ws \<noteq> []"
  shows "\<exists>ws'. ws_concat_small_buffers d mx ws = Some ws' \<and> ws_cbs ws' = ws_cbs ws \<and>
    concat (fst (ws_asio_bufs d ws')) = concat (fst (ws_asio_bufs d ws)) \<and>
    length (ws_bufs ws') \<le> length (ws_bufs ws) \<and>
    (\<forall>x\<in>set (ws_bufs ws'). length (bd_make_asio_const_buffer d x) \<le> mx \<or> x \<in> set (ws_bufs ws)) \<and>
    successively (\<lambda>x y. mx < length (bd_make_asio_const_buffer d x) + length (bd_make_asio_const_buffer d y)) (ws_bufs ws')"
  using assms
  by (simp add: buffer_driver_laws.ws_concat_small_buffers_eq ws_asio_bufs_def Let_def
      buffer_driver_laws.compacted_bytes buffer_driver_laws.compacted_maximal buffer_driver_laws.compacted_length)
    (meson buffer_driver_laws.compacted_size)

definition demo_seq :: "simple_buffer wseq" where
  "demo_seq = \<lparr>ws_bufs = [sb_of_bytes [1, 2], sb_of_bytes [3], sb_of_bytes [4, 5], sb_of_bytes [6, 7]], ws_cbs = [8]\<rparr>"

theorem concat_small_buffers_correct_witness:
  "\<exists>ws'. ws_concat_small_buffers simple_buffer_driver 3 demo_seq = Some ws' \<and> ws_cbs ws' = [8] \<and>
     concat (fst (ws_asio_bufs simple_buffer_driver ws')) = [1, 2, 3, 4, 5, 6, 7]"
  using concat_small_buffers_correct [OF simple_drv.buffer_driver_laws_axioms, of demo_seq 3]
  by (auto simp: demo_seq_def ws_asio_bufs_def simple_buffer_driver_def simple_make_asio_const_buffer_def)

text \<open>
  C24. \<open>skip_transferred_part\<close> after a partial write: the remaining descriptors cover exactly the bytes
  not yet transferred, the first of them is not empty, and the function never leaves the span as long
  as something is left to transfer.
\<close>

theorem skip_transferred_part_correct:
  assumes "transferred < length (concat bufs)"
  shows "\<exists>res. skip_transferred_part bufs transferred = Some res \<and> concat res = drop transferred (concat bufs) \<and>
    res \<noteq> [] \<and> hd res \<noteq> [] \<and> suffix (tl res) bufs"
proof -
  have tl_suffix: "suffix (tl res) bufs" if "skip_transferred_part bufs transferred = Some res" for res
    using that by (induction bufs transferred rule: skip_transferred_part.induct)
      (auto simp: suffix_Cons split: if_splits)
  show ?thesis
    using skip_transferred_part_Some [OF assms] tl_suffix by blast
qed

theorem skip_transferred_part_correct_witness:
  "\<exists>res. skip_transferred_part [[1, 2], [], [3, 4 :: byte]] 2 = Some res \<and> concat res = [3, 4]"
  using skip_transferred_part_correct [of 2 "[[1, 2], [], [3, 4 :: byte]]"] by simp

end
