(* ===== verification/NetBase.thy ===== *)
theory NetBase
  imports Prelude
begin

text \<open>
  The small parts the TCP components share: the error codes of
  \<open>net/include/opio/net/tcp/error_code.hpp\<close> and the error tests of \<open>asio_include.hpp\<close>, the socket
  options and endpoint configuration of \<open>tcp/cfg.hpp\<close> with \<open>set_socket_options\<close> of
  \<open>tcp/utils.hpp\<close>.
\<close>

section \<open>Error codes\<close>

datatype error_codes =
    Open_acceptor_failed_already_started
  | Open_acceptor_failed_exception_happened
  | Close_acceptor_failed_not_running
  | Close_acceptor_failed_exception_happened
  | Sync_write_unexpected_results

fun error_codes_value :: "error_codes \<Rightarrow> int" where
  "error_codes_value Open_acceptor_failed_already_started = 0x20001"
| "error_codes_value Open_acceptor_failed_exception_happened = 0x20002"
| "error_codes_value Close_acceptor_failed_not_running = 0x20003"
| "error_codes_value Close_acceptor_failed_exception_happened = 0x20004"
| "error_codes_value Sync_write_unexpected_results = 0x20100"

text \<open>\<open>error_category_t::message\<close>, with the empty string for a value outside the enumeration.\<close>

definition error_category_message :: "int \<Rightarrow> string" where
  "error_category_message value =
     (if value = 0x20001 then ''open acceptor failed already started''
      else if value = 0x20002 then ''open acceptor failed exception happened''
      else if value = 0x20003 then ''close acceptor failed not running''
      else if value = 0x20004 then ''close acceptor failed exception happened''
      else if value = 0x20100 then ''sync write unexpected results''
      else [])"

text \<open>
  \<open>asio::error_code\<close>: the values the code tests for, its own category, and any other error of
  the system by number.
\<close>

datatype error_code =
    Ec_success
  | Ec_would_block
  | Ec_operation_aborted
  | Ec_eof
  | Ec_opio int
  | Ec_system int

definition make_std_compaible_error :: "error_codes \<Rightarrow> error_code" where
  "make_std_compaible_error err = Ec_opio (error_codes_value err)"

definition error_is_operation_aborted :: "error_code \<Rightarrow> bool" where
  "error_is_operation_aborted ec \<longleftrightarrow> ec = Ec_operation_aborted"

definition error_is_eof :: "error_code \<Rightarrow> bool" where
  "error_is_eof ec \<longleftrightarrow> ec = Ec_eof"

definition error_is_would_block :: "error_code \<Rightarrow> bool" where
  "error_is_would_block ec \<longleftrightarrow> ec = Ec_would_block"

definition ec_failed :: "error_code \<Rightarrow> bool" where
  "ec_failed ec \<longleftrightarrow> ec \<noteq> Ec_success"

section \<open>Socket options\<close>

record socket_options_cfg =
  no_delay :: "bool option"
  keep_alive :: "bool option"
  linger :: "int option"
  receive_buffer_size :: "int option"
  send_buffer_size :: "int option"

definition soc_is_empty :: "socket_options_cfg \<Rightarrow> bool" where
  "soc_is_empty cfg =
     (let has_any_setting =
        no_delay cfg \<noteq> None \<or> keep_alive cfg \<noteq> None \<or> linger cfg \<noteq> None
        \<or> receive_buffer_size cfg \<noteq> None \<or> send_buffer_size cfg \<noteq> None
      in \<not> has_any_setting)"

text \<open>The \<open>set_option\<close> calls; a linger option always switches lingering on.\<close>

datatype socket_option =
    NoDelay bool
  | KeepAlive bool
  | Linger bool int
  | ReceiveBufferSize int
  | SendBufferSize int

definition set_socket_options_calls :: "socket_options_cfg \<Rightarrow> socket_option list" where
  "set_socket_options_calls cfg =
     (case no_delay cfg of None \<Rightarrow> [] | Some v \<Rightarrow> [NoDelay v]) @
     (case keep_alive cfg of None \<Rightarrow> [] | Some v \<Rightarrow> [KeepAlive v]) @
     (case linger cfg of None \<Rightarrow> [] | Some v \<Rightarrow> [Linger True v]) @
     (case receive_buffer_size cfg of None \<Rightarrow> [] | Some v \<Rightarrow> [ReceiveBufferSize v]) @
     (case send_buffer_size cfg of None \<Rightarrow> [] | Some v \<Rightarrow> [SendBufferSize v])"

text \<open>
  \<open>set_socket_options\<close> against a socket that may refuse an option by throwing: the options in
  force afterwards and whether an exception left the function.
\<close>

fun apply_options :: "(socket_option \<Rightarrow> bool) \<Rightarrow> socket_option list \<Rightarrow> socket_option list \<times> bool" where
  "apply_options accepts [] = ([], True)"
| "apply_options accepts (opt # opts) =
     (if accepts opt then let (done, ok) = apply_options accepts opts in (opt # done, ok) else ([], False))"

definition set_socket_options :: "(socket_option \<Rightarrow> bool) \<Rightarrow> socket_options_cfg \<Rightarrow> socket_option list \<times> bool" where
  "set_socket_options accepts cfg = apply_options accepts (set_socket_options_calls cfg)"

lemma soc_is_empty_iff: "soc_is_empty cfg \<longleftrightarrow> set_socket_options_calls cfg = []"
  by (auto simp: soc_is_empty_def set_socket_options_calls_def Let_def split: option.splits)

lemma apply_options_prefix: "prefix (fst (apply_options accepts opts)) opts"
  by (induction opts) (auto simp: case_prod_beta)

lemma apply_options_ok: "snd (apply_options accepts opts) \<longleftrightarrow> (\<forall>x\<in>set opts. accepts x)"
  by (induction opts) (auto simp: case_prod_beta)

lemma apply_options_complete: "snd (apply_options accepts opts) \<Longrightarrow> fst (apply_options accepts opts) = opts"
  by (induction opts) (auto simp: case_prod_beta split: if_splits)

text \<open>The \<open>fmt\<close> formatter of the options.\<close>

fun fmt_option :: "bool \<Rightarrow> string \<Rightarrow> string option \<Rightarrow> bool \<times> string" where
  "fmt_option is_first name None = (is_first, [])"
| "fmt_option is_first name (Some v) =
     (False, (if is_first then [] else '', '') @ name @ '': '' @ v)"

definition fmt_bool :: "bool \<Rightarrow> string" where
  "fmt_bool b = (if b then ''true'' else ''false'')"

definition fmt_socket_options :: "socket_options_cfg \<Rightarrow> string" where
  "fmt_socket_options cfg =
     (if soc_is_empty cfg then ''<empty>''
      else
        let (f1, s1) = fmt_option True ''no_delay'' (map_option fmt_bool (no_delay cfg));
            (f2, s2) = fmt_option f1 ''keep_alive'' (map_option fmt_bool (keep_alive cfg));
            (f3, s3) = fmt_option f2 ''linger'' (map_option fmt_int (linger cfg));
            (f4, s4) = fmt_option f3 ''receive_buffer_size'' (map_option fmt_int (receive_buffer_size cfg));
            (f5, s5) = fmt_option f4 ''send_buffer_size'' (map_option fmt_int (send_buffer_size cfg))
        in ''['' @ s1 @ s2 @ s3 @ s4 @ s5 @ '']'')"

section \<open>Endpoint configuration\<close>

text \<open>
  Host names, addresses and the local host name come from asio: \<open>make_address\<close> and \<open>host_name\<close>
  are arguments. A protocol is 4 or 6, as \<open>tcp::v4()\<close> and \<open>tcp::v6()\<close>.
\<close>

datatype tcp_protocol = TcpV4 | TcpV6

record tcp_endpoint_cfg =
  ep_protocol :: tcp_protocol
  ep_host :: string
  ep_port :: u16
  ep_socket_options :: socket_options_cfg

definition default_socket_options :: socket_options_cfg where
  "default_socket_options = \<lparr>no_delay = None, keep_alive = None, linger = None,
     receive_buffer_size = None, send_buffer_size = None\<rparr>"

definition default_tcp_endpoint_cfg :: tcp_endpoint_cfg where
  "default_tcp_endpoint_cfg = \<lparr>ep_protocol = TcpV4, ep_host = ''localhost'', ep_port = 0,
     ep_socket_options = default_socket_options\<rparr>"

definition make_query :: "tcp_endpoint_cfg \<Rightarrow> tcp_protocol \<times> string \<times> string" where
  "make_query cfg =
     (let target_host = (if ep_host cfg = [] then ''127.0.0.1'' else ep_host cfg)
      in (ep_protocol cfg, target_host, fmt_nat (unat (ep_port cfg))))"

datatype 'addr tcp_endpoint = AnyEndpoint tcp_protocol u16 | AddrEndpoint 'addr u16

definition make_endpoint :: "(string \<Rightarrow> 'addr option) \<Rightarrow> tcp_endpoint_cfg \<Rightarrow> 'addr tcp_endpoint option" where
  "make_endpoint make_address cfg =
     (if ep_host cfg = [] then Some (AnyEndpoint (ep_protocol cfg) (ep_port cfg))
      else if ep_host cfg = ''localhost'' then
        map_option (\<lambda>a. AddrEndpoint a (ep_port cfg)) (make_address ''127.0.0.1'')
      else if ep_host cfg = ''ip6-localhost'' then
        map_option (\<lambda>a. AddrEndpoint a (ep_port cfg)) (make_address ''::1'')
      else map_option (\<lambda>a. AddrEndpoint a (ep_port cfg)) (make_address (ep_host cfg)))"

definition get_real_host :: "string \<Rightarrow> tcp_endpoint_cfg \<Rightarrow> string" where
  "get_real_host host_name cfg =
     (if ep_host cfg = [] \<or> ep_host cfg = ''127.0.0.1'' \<or> ep_host cfg = ''0.0.0.0'' then host_name
      else ep_host cfg)"

end
