(* ===== verification/ConnCfg.thy ===== *)
theory ConnCfg
  imports Buffer NetBase
begin

text \<open>
  \<open>connection_cfg_t\<close> and \<open>connection_t::ctor_params_t\<close> of
  \<open>net/include/opio/net/tcp/connection.hpp\<close>, with \<open>connection_t::make\<close> as far as it collects the
  parameters of the constructor.
\<close>

section \<open>Configuration\<close>

text \<open>A \<open>steady_clock::duration\<close> is its count of nanoseconds, a signed 64-bit number.\<close>

definition seconds :: "int \<Rightarrow> int" where
  "seconds n = n * 1000000000"

record connection_cfg =
  m_input_buffer_size :: nat
  m_write_timeout_per_1mb :: int

definition default_connection_cfg :: connection_cfg where
  "default_connection_cfg =
     \<lparr>m_input_buffer_size = 256 * 1024, m_write_timeout_per_1mb = seconds 1\<rparr>"

definition cfg_input_buffer_size :: "nat \<Rightarrow> connection_cfg \<Rightarrow> connection_cfg option" where
  "cfg_input_buffer_size v cfg = do { check (v > 0); Some (cfg\<lparr>m_input_buffer_size := v\<rparr>) }"

definition cfg_write_timeout_per_1mb :: "int \<Rightarrow> connection_cfg \<Rightarrow> connection_cfg" where
  "cfg_write_timeout_per_1mb v cfg =
     (if v > seconds 0 then cfg\<lparr>m_write_timeout_per_1mb := v\<rparr> else cfg)"

text \<open>
  \<open>make_write_timeout_per_buffer\<close>. The size is a \<open>size_t\<close>; its product with a duration of
  \<open>int64_t\<close> ticks is computed with unsigned 64-bit ticks and read back as signed ones.
\<close>

definition make_write_timeout_per_buffer :: "connection_cfg \<Rightarrow> u64 \<Rightarrow> int" where
  "make_write_timeout_per_buffer cfg buffer_size_bytes =
     (let size_1mb = 1024 * 1024; adjust_for_ceiling = size_1mb - 1
      in if size_1mb \<ge> buffer_size_bytes then m_write_timeout_per_1mb cfg
         else sint (((buffer_size_bytes + adjust_for_ceiling) div size_1mb)
                * word_of_int (m_write_timeout_per_1mb cfg)))"

lemma make_write_timeout_small:
  "n \<le> 1024 * 1024 \<Longrightarrow> make_write_timeout_per_buffer cfg n = m_write_timeout_per_1mb cfg"
  by (simp add: make_write_timeout_per_buffer_def Let_def)

lemma make_write_timeout_ceiling:
  assumes "1024 * 1024 < unat n" "unat n < 2 ^ 64 - 1024 * 1024"
    and "0 \<le> m_write_timeout_per_1mb cfg"
    and "int ((unat n + 1048575) div 1048576) * m_write_timeout_per_1mb cfg < 2 ^ 63"
  shows "make_write_timeout_per_buffer cfg n =
         int ((unat n + 1048575) div 1048576) * m_write_timeout_per_1mb cfg"
proof -
  define t where "t = m_write_timeout_per_1mb cfg"
  define q where "q = (n + 1048575) div 1048576"
  have sum: "unat (n + 1048575) = unat n + 1048575"
  proof -
    have "unat n + unat (1048575 :: u64) < 2 ^ LENGTH(64)" using assms(2) by simp
    then have "unat (n + 1048575) = unat n + unat (1048575 :: u64)" by (rule unat_add_lem [THEN iffD1])
    then show ?thesis by simp
  qed
  have uq: "unat q = (unat n + 1048575) div 1048576"
    by (simp add: q_def unat_div sum)
  have big: "\<not> 1048576 \<ge> n"
    using assms(1) by (simp add: word_le_nat_alt)
  have prod: "q * word_of_int t = word_of_int (int (unat q) * t)"
    by simp
  have range: "- (2 ^ 63) \<le> int (unat q) * t" "int (unat q) * t < 2 ^ 63"
  proof -
    have "0 \<le> int (unat q) * t" using assms(3) by (simp add: t_def)
    then show "- (2 ^ 63) \<le> int (unat q) * t" by simp
    show "int (unat q) * t < 2 ^ 63" using assms(4) by (simp only: t_def uq)
  qed
  have "sint (word_of_int (int (unat q) * t) :: u64) = signed_take_bit 63 (int (unat q) * t)"
    using sint_sbintrunc' [where 'a = 64, of "int (unat q) * t"] by simp
  also have "\<dots> = int (unat q) * t"
    using range by (intro signed_take_bit_int_eq_self)
  finally have "sint (q * word_of_int t) = int (unat q) * t"
    unfolding prod .
  then show ?thesis
    using big unfolding make_write_timeout_per_buffer_def Let_def q_def [symmetric] t_def [symmetric] uq [symmetric]
    by (simp add: q_def)
qed

text \<open>
  The write timeout of an operation is the configured timeout per megabyte times the size in
  megabytes, rounded up, and at least one megabyte, as long as the product fits into the duration.
\<close>

lemma write_timeout_rounds_up:
  assumes "unat n < 2 ^ 64 - 1024 * 1024" "0 \<le> m_write_timeout_per_1mb cfg"
    and "int (max 1 ((unat n + 1048575) div 1048576)) * m_write_timeout_per_1mb cfg < 2 ^ 63"
  shows "make_write_timeout_per_buffer cfg n =
    int (max 1 ((unat n + 1048575) div 1048576)) * m_write_timeout_per_1mb cfg"
proof (cases "1024 * 1024 < unat n")
  case True
  then have "max 1 ((unat n + 1048575) div 1048576) = (unat n + 1048575) div 1048576" by simp
  then show ?thesis using make_write_timeout_ceiling [OF True assms(1,2)] assms(3) by simp
next
  case False
  then have "(unat n + 1048575) div 1048576 \<le> 1" by simp
  then have "max 1 ((unat n + 1048575) div 1048576) = 1" by simp
  moreover have "n \<le> 1024 * 1024" using False by (simp add: word_le_nat_alt)
  ultimately show ?thesis by (simp only: make_write_timeout_small int_ops mult_1)
qed

lemma write_timeout_rounds_up_witness:
  "make_write_timeout_per_buffer default_connection_cfg 1048577 = 2000000000"
  using write_timeout_rounds_up [of 1048577 default_connection_cfg]
  by (simp add: default_connection_cfg_def seconds_def)

section \<open>Constructor parameters\<close>

text \<open>
  The parameters are optional values of the types the traits choose. \<open>giveaway\<close> moves a value
  out; for one that was not set it falls back on the default constructor, where the type has one
  (\<open>dflt\<close> is \<open>None\<close> where it has not), and throws otherwise.
\<close>

record ('log, 'drv, 'inp, 'shut, 'wd, 'st) ctor_params =
  cp_conn_id :: u64
  cp_cfg :: connection_cfg
  cp_logger :: "'log option"
  cp_buffer_driver :: "'drv option"
  cp_input_handler :: "'inp option"
  cp_shutdown_handler :: "'shut option"
  cp_operation_watchdog :: "'wd option"
  cp_stats_driver :: "'st option"

definition default_ctor_params :: "('log, 'drv, 'inp, 'shut, 'wd, 'st) ctor_params" where
  "default_ctor_params =
     \<lparr>cp_conn_id = 0, cp_cfg = default_connection_cfg, cp_logger = None, cp_buffer_driver = None,
      cp_input_handler = None, cp_shutdown_handler = None, cp_operation_watchdog = None,
      cp_stats_driver = None\<rparr>"

definition giveaway :: "'a option \<Rightarrow> 'a option \<Rightarrow> string \<Rightarrow> string + 'a" where
  "giveaway dflt param param_name =
     (case param of
        None \<Rightarrow> (case dflt of
            Some v \<Rightarrow> Inr v
          | None \<Rightarrow> Inl (''connection parameter '' @ param_name @
              '' must be explicitly set (the type is not default constructible)''))
      | Some v \<Rightarrow> Inr v)"

text \<open>Which of the trait types can be default constructed, and the watchdog from the executor.\<close>

record ('log, 'drv, 'inp, 'wd, 'st) ctor_defaults =
  cd_logger :: "'log option"
  cd_buffer_driver :: "'drv option"
  cd_input_handler :: "'inp option"
  cd_watchdog_from_executor :: "'wd option"
  cd_watchdog :: "'wd option"
  cd_stats_driver :: "'st option"

definition watchdog_giveaway ::
  "('log, 'drv, 'inp, 'wd, 'st) ctor_defaults \<Rightarrow> ('log, 'drv, 'inp, 'shut, 'wd, 'st) ctor_params \<Rightarrow> string + 'wd" where
  "watchdog_giveaway defaults params =
     (case cp_operation_watchdog params of
        Some w \<Rightarrow> Inr w
      | None \<Rightarrow> (case cd_watchdog_from_executor defaults of
          Some w \<Rightarrow> Inr w
        | None \<Rightarrow> (case cd_watchdog defaults of
            Some w \<Rightarrow> Inr w
          | None \<Rightarrow> Inl (''connection parameter operation_watchdog must be explicitly set '' @
              ''(the type is not default constructible or constructible from socket.get_executor())''))))"

text \<open>
  \<open>make( socket, params )\<close>: the arguments of the constructor, or the exception. C++ leaves the order
  of the argument evaluations open; the first missing one in the order written is reported.
\<close>

definition make_ctor_args ::
  "('log, 'drv, 'inp, 'wd, 'st) ctor_defaults \<Rightarrow> ('log, 'drv, 'inp, 'shut, 'wd, 'st) ctor_params \<Rightarrow>
   string + (u64 \<times> connection_cfg \<times> 'log \<times> 'drv \<times> 'inp \<times> 'shut option \<times> 'wd \<times> 'st)" where
  "make_ctor_args defaults params =
     (case watchdog_giveaway defaults params of Inl e \<Rightarrow> Inl e | Inr wd \<Rightarrow>
      case giveaway (cd_logger defaults) (cp_logger params) ''logger'' of Inl e \<Rightarrow> Inl e | Inr log \<Rightarrow>
      case giveaway (cd_buffer_driver defaults) (cp_buffer_driver params) ''buffer_driver'' of
        Inl e \<Rightarrow> Inl e | Inr drv \<Rightarrow>
      case giveaway (cd_input_handler defaults) (cp_input_handler params) ''input_handler'' of
        Inl e \<Rightarrow> Inl e | Inr inp \<Rightarrow>
      case giveaway (cd_stats_driver defaults) (cp_stats_driver params) ''stats_driver'' of
        Inl e \<Rightarrow> Inl e | Inr st \<Rightarrow>
      Inr (cp_conn_id params, cp_cfg params, log, drv, inp, cp_shutdown_handler params, wd, st))"

lemma giveaway_fails_iff: "(\<exists>e. giveaway dflt param name = Inl e) \<longleftrightarrow> param = None \<and> dflt = None"
  by (auto simp: giveaway_def split: option.splits)

lemma make_ctor_args_all_set:
  assumes "cp_logger p = Some l" "cp_buffer_driver p = Some d" "cp_input_handler p = Some i"
    and "cp_operation_watchdog p = Some w" "cp_stats_driver p = Some s"
  shows "make_ctor_args defaults p = Inr (cp_conn_id p, cp_cfg p, l, d, i, cp_shutdown_handler p, w, s)"
  using assms by (simp add: make_ctor_args_def watchdog_giveaway_def giveaway_def)

end
