(* ===== verification/Watchdog.thy ===== *)
theory Watchdog
  imports Prelude
begin

text \<open>
  \<open>net/include/opio/net/operation_watchdog.hpp\<close>: \<open>asio_timer_operation_watchdog_t\<close>, a timer
  with a key that tells the operation a timeout belongs to, and \<open>noop_operation_watchdog_t\<close>. The
  contract the connection relies on is a locale; a callback may still arrive for a cancelled
  operation, but never with the key the watchdog has then.
\<close>

section \<open>The timer\<close>

text \<open>
  \<open>asio::steady_timer\<close> as asio documents it: \<open>expires_after\<close> and \<open>cancel\<close> complete the waits
  that have not completed yet with \<open>operation_aborted\<close>; a wait whose handler is already on its way
  to the executor is not recalled. A wait is known by the key its lambda captured.
\<close>

record watchdog =
  wd_timeout_key :: u64
  wd_waiting :: "u64 list"
  wd_queued :: "(bool \<times> u64) list"

definition wd_init :: watchdog where
  "wd_init = \<lparr>wd_timeout_key = 0, wd_waiting = [], wd_queued = []\<rparr>"

definition wd_timer_cancel :: "watchdog \<Rightarrow> watchdog" where
  "wd_timer_cancel w =
     w\<lparr>wd_queued := wd_queued w @ map (\<lambda>k. (False, k)) (wd_waiting w), wd_waiting := []\<rparr>"

definition wd_start_watch_operation :: "int \<Rightarrow> watchdog \<Rightarrow> watchdog" where
  "wd_start_watch_operation timeout w =
     (let w = wd_timer_cancel w;
          w = w\<lparr>wd_timeout_key := wd_timeout_key w + 1\<rparr>
      in w\<lparr>wd_waiting := wd_waiting w @ [wd_timeout_key w]\<rparr>)"

definition wd_cancel_watch_operation :: "watchdog \<Rightarrow> watchdog" where
  "wd_cancel_watch_operation w =
     (let w = wd_timer_cancel w in w\<lparr>wd_timeout_key := wd_timeout_key w + 1\<rparr>)"

text \<open>Time passes: the waits complete with success. Then the executor runs the queued lambdas.\<close>

definition wd_timer_expires :: "watchdog \<Rightarrow> watchdog" where
  "wd_timer_expires w =
     w\<lparr>wd_queued := wd_queued w @ map (\<lambda>k. (True, k)) (wd_waiting w), wd_waiting := []\<rparr>"

definition wd_run_handler :: "watchdog \<Rightarrow> u64 option \<times> watchdog" where
  "wd_run_handler w =
     (case wd_queued w of
        [] \<Rightarrow> (None, w)
      | (no_error, timeout_key) # rest \<Rightarrow>
          (if no_error then Some timeout_key else None, w\<lparr>wd_queued := rest\<rparr>))"

section \<open>The contract\<close>

text \<open>
  \<open>live w\<close> are the keys the callback can still be called with. The key is a 64-bit counter, so
  the contract holds for the operations that do not exhaust it: \<open>left w\<close> bounds them.
\<close>

locale watchdog_laws =
  fixes start :: "int \<Rightarrow> 'w \<Rightarrow> 'w"
    and cancel :: "'w \<Rightarrow> 'w"
    and key :: "'w \<Rightarrow> u64"
    and live :: "'w \<Rightarrow> u64 set"
    and left :: "'w \<Rightarrow> nat"
    and ok :: "'w \<Rightarrow> bool"
  assumes ok_start: "ok w \<Longrightarrow> 0 < left w \<Longrightarrow> ok (start t w) \<and> left w \<le> Suc (left (start t w))"
    and ok_cancel: "ok w \<Longrightarrow> 0 < left w \<Longrightarrow> ok (cancel w) \<and> left w \<le> Suc (left (cancel w))"
    and live_start: "ok w \<Longrightarrow> 0 < left w \<Longrightarrow> live (start t w) \<subseteq> insert (key (start t w)) (live w)"
    and live_cancel: "ok w \<Longrightarrow> 0 < left w \<Longrightarrow> live (cancel w) \<subseteq> live w"
    and fresh_start: "ok w \<Longrightarrow> 0 < left w \<Longrightarrow> key (start t w) \<notin> live w"
    and fresh_cancel: "ok w \<Longrightarrow> 0 < left w \<Longrightarrow> key (cancel w) \<notin> live w"
begin

lemma cancelled_is_silent: "ok w \<Longrightarrow> 0 < left w \<Longrightarrow> key (cancel w) \<notin> live (cancel w)"
  using fresh_cancel live_cancel by blast

text \<open>A timeout of an operation that was completed is not the timeout of the next one.\<close>

lemma completed_then_started:
  assumes "ok w" "1 < left w" "k \<in> live (cancel w)"
  shows "k \<noteq> key (cancel w)" and "k \<noteq> key (start t (cancel w))"
proof -
  have "ok (cancel w)" and "0 < left (cancel w)"
    using ok_cancel [of w] assms by auto
  then show "k \<noteq> key (start t (cancel w))" using fresh_start [of "cancel w" t] assms(3) by blast
  show "k \<noteq> key (cancel w)" using cancelled_is_silent [of w] assms by auto
qed

end

section \<open>The asio timer provides it\<close>

definition wd_live :: "watchdog \<Rightarrow> u64 set" where
  "wd_live w = set (wd_waiting w) \<union> {k. (True, k) \<in> set (wd_queued w)}"

definition wd_ok :: "watchdog \<Rightarrow> bool" where
  "wd_ok w \<longleftrightarrow> (\<forall>k\<in>wd_live w. unat k \<le> unat (wd_timeout_key w))"

definition wd_left :: "watchdog \<Rightarrow> nat" where
  "wd_left w = 2 ^ 64 - 1 - unat (wd_timeout_key w)"

lemma wd_init_ok [simp]: "wd_ok wd_init" "wd_left wd_init = 2 ^ 64 - 1"
  by (simp_all add: wd_ok_def wd_live_def wd_init_def wd_left_def)

lemma unat_key_Suc: "unat (k :: u64) < 2 ^ 64 - 1 \<Longrightarrow> unat (k + 1) = Suc (unat k)"
  by (simp add: unat_word_ariths)

lemma wd_start_simps:
  "wd_timeout_key (wd_start_watch_operation t w) = wd_timeout_key w + 1"
  "wd_live (wd_start_watch_operation t w) = insert (wd_timeout_key w + 1) {k. (True, k) \<in> set (wd_queued w)}"
  by (auto simp: wd_start_watch_operation_def wd_timer_cancel_def wd_live_def Let_def)

lemma wd_cancel_simps:
  "wd_timeout_key (wd_cancel_watch_operation w) = wd_timeout_key w + 1"
  "wd_live (wd_cancel_watch_operation w) = {k. (True, k) \<in> set (wd_queued w)}"
  by (auto simp: wd_cancel_watch_operation_def wd_timer_cancel_def wd_live_def Let_def)

lemma wd_next_fresh: "wd_ok w \<Longrightarrow> 0 < wd_left w \<Longrightarrow> wd_timeout_key w + 1 \<notin> wd_live w"
  using unat_key_Suc [of "wd_timeout_key w"] by (fastforce simp: wd_ok_def wd_left_def)

interpretation asio_wd: watchdog_laws
  wd_start_watch_operation wd_cancel_watch_operation wd_timeout_key wd_live wd_left wd_ok
proof (unfold_locales, goal_cases)
  case (1 w t)
  then show ?case
    using unat_key_Suc [of "wd_timeout_key w"]
    by (auto simp: wd_ok_def wd_start_simps wd_left_def) (force simp: wd_live_def)
next
  case (2 w)
  then show ?case
    using unat_key_Suc [of "wd_timeout_key w"]
    by (auto simp: wd_ok_def wd_cancel_simps wd_left_def) (force simp: wd_live_def)
next
  case (3 w t)
  then show ?case by (auto simp: wd_start_simps) (simp add: wd_live_def)
next
  case (4 w)
  then show ?case by (auto simp: wd_cancel_simps) (simp add: wd_live_def)
next
  case (5 w t)
  then show ?case by (simp add: wd_next_fresh wd_start_simps)
next
  case (6 w)
  then show ?case by (simp add: wd_next_fresh wd_cancel_simps)
qed

section \<open>The noop watchdog provides it\<close>

definition noop_start_watch_operation :: "int \<Rightarrow> unit \<Rightarrow> unit" where
  "noop_start_watch_operation timeout w = ()"

definition noop_cancel_watch_operation :: "unit \<Rightarrow> unit" where
  "noop_cancel_watch_operation w = ()"

definition noop_timeout_key :: "unit \<Rightarrow> u64" where
  "noop_timeout_key w = 0"

interpretation noop_wd: watchdog_laws
  noop_start_watch_operation noop_cancel_watch_operation noop_timeout_key "\<lambda>_. {}" "\<lambda>_. 1" "\<lambda>_. True"
  by unfold_locales auto

end
