(* ===== verification/Connection.thy ===== *)
theory Connection
  imports WriteSequence ConnCfg Watchdog
begin

text \<open>
  \<open>connection_t\<close> of \<open>net/include/opio/net/tcp/connection.hpp\<close>: its state, the outgoing data path,
  shutdown, write timeouts and the destructor. Reading and the public interface are in
  \<open>ConnectionApi\<close>, the facts about the write path in \<open>ConnectionFacts\<close>.
\<close>

section \<open>Enumerations and what can be observed\<close>

datatype send_buffers_result =
    Send_success
  | Send_io_error
  | Send_didnt_send
  | Send_rejected_schedule_send

datatype update_socket_options_cb_result =
    Options_success
  | Options_socket_closed
  | Options_error

datatype connection_shutdown_reason =
    User_initiated
  | Io_error
  | Eof
  | Write_timeout
  | Read_ts_not_supported_on_this_platform

definition fmt_connection_shutdown_reason :: "connection_shutdown_reason \<Rightarrow> string" where
  "fmt_connection_shutdown_reason reason =
     (case reason of
        User_initiated \<Rightarrow> ''user_initiated''
      | Io_error \<Rightarrow> ''io_error''
      | Eof \<Rightarrow> ''eof''
      | Write_timeout \<Rightarrow> ''write_timeout''
      | Read_ts_not_supported_on_this_platform \<Rightarrow> ''read_ts_not_supported_on_this_platform'')"

text \<open>
  The calls a connection makes to the outside, in order: callbacks, the statistics driver (the
  names are those of \<open>noop_stats_driver_t\<close> in \<open>stats.hpp\<close>), the watchdog and the socket.
  \<open>O_send_accepted\<close> is no call but a mark in the history: the callback and the bytes of a send the
  connection accepted.
\<close>

datatype observation =
    O_send_accepted "cb_id option" "byte list"
  | O_send_complete cb_id send_buffers_result
  | O_shutdown_handler connection_shutdown_reason
  | O_options_cb update_socket_options_cb_result
  | O_socket_shutdown
  | O_socket_options "socket_option list"
  | O_watch_started int
  | O_sync_write_started nat
  | O_sync_write_finished nat
  | O_async_write_started nat
  | O_async_write_finished nat
  | O_inc_bytes_tx_sync nat
  | O_inc_bytes_tx_async nat
  | O_inc_bytes_rx_async nat
  | O_hit_would_block_event nat
  | O_read_started nat
  | O_input "byte list"

section \<open>State\<close>

text \<open>The closures the public functions hand to the strand.\<close>

datatype 'b strand_work =
    W_start_reading
  | W_stop_reading
  | W_reset_input_handler nat
  | W_reset_shutdown_handler "nat option"
  | W_send "cb_id option" "'b list"
  | W_shutdown
  | W_update_socket_options socket_options_cfg bool
  | W_write_timeout u64

text \<open>
  The data members, then what belongs to asio: the strand's queue, whether the socket is open, the
  bytes the operating system took (\<open>c_wire\<close>), how many synchronous writes were made, the buffers
  a running \<open>async_write\<close> still has to send, the reads in progress and the observations. Handlers
  are known by numbers.
\<close>

record 'b conn =
  c_cfg :: connection_cfg
  c_write_queue :: "'b wseq list"
  c_read_buffer :: simple_buffer
  c_input_handler :: nat
  c_shutdown_handler :: "nat option"
  c_is_write_operation_running :: bool
  c_read_is_enabled :: bool
  c_schedule_for_write_is_enabled :: bool
  c_shutdown_was_called :: bool
  c_watchdog :: watchdog
  c_strand :: "'b strand_work list"
  c_socket_open :: bool
  c_wire :: "byte list"
  c_nwrites :: nat
  c_async :: "byte list list option"
  c_pending_reads :: nat
  c_out :: "observation list"

text \<open>
  What a connection is instantiated with: asio (\<open>e_write k bs\<close> is the result of the \<open>k\<close>-th
  \<open>asio::write\<close>, applied to the bytes \<open>bs\<close>), the platform, the buffer driver, the options the
  socket accepts, and the user's handlers as functions on the connection they may call back into.
  An input handler gets the buffer of its \<open>input_ctx_t\<close> and says what it leaves there and
  what it passed to \<open>next_read_buffer\<close>.
\<close>

record 'b conn_env =
  e_max_seq_length :: nat
  e_windows :: bool
  e_driver :: "'b buffer_driver"
  e_write :: "nat \<Rightarrow> byte list \<Rightarrow> nat \<times> error_code"
  e_accepts_option :: "socket_option \<Rightarrow> bool"
  e_send_cb :: "cb_id \<Rightarrow> send_buffers_result \<Rightarrow> 'b conn \<Rightarrow> 'b conn option"
  e_shutdown_cb :: "nat \<Rightarrow> connection_shutdown_reason \<Rightarrow> 'b conn \<Rightarrow> 'b conn option"
  e_input :: "nat \<Rightarrow> simple_buffer \<Rightarrow> 'b conn \<Rightarrow> (simple_buffer \<times> simple_buffer option \<times> 'b conn) option"

definition quik_sync_write_heuristic_size :: nat where
  "quik_sync_write_heuristic_size = 64 * 1024"

definition observe :: "observation \<Rightarrow> 'b conn \<Rightarrow> 'b conn" where
  "observe ob c = c\<lparr>c_out := c_out c @ [ob]\<rparr>"

text \<open>The constructor: the queue has one empty sequence, the read buffer the configured size.\<close>

definition connection_ctor :: "'b conn_env \<Rightarrow> connection_cfg \<Rightarrow> nat \<Rightarrow> nat option \<Rightarrow> 'b conn" where
  "connection_ctor E cfg input_handler shutdown_handler =
     \<lparr>c_cfg = cfg, c_write_queue = [ws_empty],
      c_read_buffer = bd_allocate_input (e_driver E) (m_input_buffer_size cfg),
      c_input_handler = input_handler, c_shutdown_handler = shutdown_handler,
      c_is_write_operation_running = False, c_read_is_enabled = False,
      c_schedule_for_write_is_enabled = True, c_shutdown_was_called = False,
      c_watchdog = wd_init, c_strand = [], c_socket_open = True, c_wire = [], c_nwrites = 0,
      c_async = None, c_pending_reads = 0, c_out = []\<rparr>"

text \<open>\<open>asio::write( m_socket, bufs, ec )\<close>.\<close>

definition socket_write :: "'b conn_env \<Rightarrow> byte list \<Rightarrow> 'b conn \<Rightarrow> nat \<times> error_code \<times> 'b conn" where
  "socket_write E bytes c =
     (let (transferred, ec) = e_write E (c_nwrites c) bytes
      in (transferred, ec,
          c\<lparr>c_wire := c_wire c @ take transferred bytes, c_nwrites := c_nwrites c + 1\<rparr>))"

section \<open>Outgoing buffers\<close>

definition push_seq :: "'b conn \<Rightarrow> 'b wseq \<Rightarrow> 'b conn" where
  "push_seq c ws = c\<lparr>c_write_queue := c_write_queue c @ [ws]\<rparr>"

definition set_back_seq :: "'b conn \<Rightarrow> 'b wseq \<Rightarrow> 'b conn" where
  "set_back_seq c ws = c\<lparr>c_write_queue := butlast (c_write_queue c) @ [ws]\<rparr>"

definition append_outgoing_buffer :: "'b conn_env \<Rightarrow> 'b \<Rightarrow> 'b conn \<Rightarrow> 'b conn option" where
  "append_outgoing_buffer E buf c = do {
     check (c_write_queue c \<noteq> []);
     let mx = e_max_seq_length E;
     let seq = last (c_write_queue c);
     if ws_can_append_buffer mx seq 1 then do {
       seq \<leftarrow> ws_append_buffer mx seq buf;
       Some (set_back_seq c seq) }
     else if length (c_write_queue c) \<le> 1 then do {
       seq \<leftarrow> ws_append_buffer mx ws_empty buf;
       Some (push_seq c seq) }
     else do {
       seq \<leftarrow> ws_concat_small_buffers (e_driver E) concatenated_buffer_max_size seq;
       let c = set_back_seq c seq;
       if \<not> ws_can_append_buffer mx seq 1 then do {
         seq \<leftarrow> ws_append_buffer mx ws_empty buf;
         Some (push_seq c seq) }
       else do {
         seq \<leftarrow> ws_append_buffer mx seq buf;
         Some (set_back_seq c seq) } } }"

text \<open>The value says whether the caller may stay aggressive.\<close>

definition append_outgoing_buffer_try_aggressive_write ::
  "'b conn_env \<Rightarrow> 'b \<Rightarrow> bool \<times> 'b conn \<Rightarrow> (bool \<times> 'b conn) option" where
  "append_outgoing_buffer_try_aggressive_write E buf st = (case st of (be_aggressive, c) \<Rightarrow>
     if be_aggressive \<and> \<not> c_is_write_operation_running c then do {
       let asio_buf = bd_make_asio_const_buffer (e_driver E) buf;
       if quik_sync_write_heuristic_size \<le> length asio_buf then do {
         c \<leftarrow> append_outgoing_buffer E buf c;
         Some (False, c) }
       else do {
         let c = observe (O_sync_write_started (length asio_buf)) c;
         let (transferred, ec, c) = socket_write E asio_buf c;
         let c = observe (O_sync_write_finished transferred) c;
         let c = observe (O_inc_bytes_tx_sync transferred) c;
         if transferred = length asio_buf then do {
           check (\<not> ec_failed ec);
           Some (True, c) }
         else do {
           let c = observe (O_hit_would_block_event (length asio_buf)) c;
           if transferred \<noteq> 0 then do {
             let tail_buf = sb_of_bytes (drop transferred asio_buf);
             c \<leftarrow> append_outgoing_buffer E (bd_to_output (e_driver E) tail_buf) c;
             Some (False, c) }
           else do {
             c \<leftarrow> append_outgoing_buffer E buf c;
             Some (False, c) } } } }
     else do {
       c \<leftarrow> append_outgoing_buffer E buf c;
       Some (False, c) })"

section \<open>Shutdown and errors\<close>

definition shutdown_impl :: "'b conn_env \<Rightarrow> connection_shutdown_reason \<Rightarrow> 'b conn \<Rightarrow> 'b conn option" where
  "shutdown_impl E reason c =
     (if \<not> c_shutdown_was_called c then do {
        let c = (if c_socket_open c then
            let c = c\<lparr>c_read_is_enabled := False\<rparr>;
                c = c\<lparr>c_schedule_for_write_is_enabled := False\<rparr>;
                c = (if e_windows E then c\<lparr>c_socket_open := False\<rparr> else c);
                c = observe O_socket_shutdown c
            in c\<lparr>c_watchdog := wd_cancel_watch_operation (c_watchdog c)\<rparr>
          else c);
        c \<leftarrow> (case c_shutdown_handler c of
               None \<Rightarrow> Some c
             | Some h \<Rightarrow> e_shutdown_cb E h reason (observe (O_shutdown_handler reason) c));
        Some (c\<lparr>c_shutdown_was_called := True\<rparr>) }
      else Some c)"

definition handle_io_error :: "'b conn_env \<Rightarrow> error_code \<Rightarrow> 'b conn \<Rightarrow> 'b conn option" where
  "handle_io_error E ec c =
     (if ec = Ec_operation_aborted then Some c
      else let reason = (if ec = Ec_eof then Eof else Io_error) in shutdown_impl E reason c)"

definition run_send_completion_callback ::
  "'b conn_env \<Rightarrow> send_buffers_result \<Rightarrow> cb_id option \<Rightarrow> 'b conn \<Rightarrow> 'b conn option" where
  "run_send_completion_callback E res cb c =
     (case cb of None \<Rightarrow> Some c | Some cb \<Rightarrow> e_send_cb E cb res (observe (O_send_complete cb res) c))"

fun run_send_completion_callbacks ::
  "'b conn_env \<Rightarrow> send_buffers_result \<Rightarrow> cb_id list \<Rightarrow> 'b conn \<Rightarrow> 'b conn option" where
  "run_send_completion_callbacks E res [] c = Some c"
| "run_send_completion_callbacks E res (cb # cbs) c = do {
     c \<leftarrow> run_send_completion_callback E res (Some cb) c;
     run_send_completion_callbacks E res cbs c }"

section \<open>Write operations\<close>

definition freeze_first_buf_sequence_in_queue :: "'b conn \<Rightarrow> 'b conn" where
  "freeze_first_buf_sequence_in_queue c =
     (if 1 = length (c_write_queue c) then push_seq c ws_empty else c)"

definition start_async_write :: "byte list list \<Rightarrow> nat \<Rightarrow> 'b conn \<Rightarrow> 'b conn" where
  "start_async_write bufs total_size c =
     (let timeout = make_write_timeout_per_buffer (c_cfg c) (word_of_nat total_size);
          c = observe (O_watch_started timeout) c;
          c = c\<lparr>c_watchdog := wd_start_watch_operation timeout (c_watchdog c)\<rparr>;
          c = observe (O_async_write_started total_size) c;
          c = c\<lparr>c_async := Some bufs\<rparr>;
          c = c\<lparr>c_is_write_operation_running := True\<rparr>
      in freeze_first_buf_sequence_in_queue c)"

text \<open>
  The end of a synchronous write of \<open>bufs\<close> that transferred \<open>transferred\<close> bytes with \<open>ec\<close>: it is complete,
  or broken, or the rest is left to an asynchronous write. \<open>after\<close> is \<open>after_write\<close>.
\<close>

definition complete_operation_now ::
  "(error_code \<Rightarrow> nat \<Rightarrow> 'b conn \<Rightarrow> 'b conn option) \<Rightarrow> nat \<Rightarrow> error_code \<Rightarrow> 'b conn \<Rightarrow> 'b conn option" where
  "complete_operation_now after transferred ec c = do {
     let c = freeze_first_buf_sequence_in_queue c;
     c \<leftarrow> after ec transferred c;
     Some (observe (O_inc_bytes_tx_sync transferred) c) }"

definition finish_sync_write ::
  "(error_code \<Rightarrow> nat \<Rightarrow> 'b conn \<Rightarrow> 'b conn option) \<Rightarrow> byte list list \<Rightarrow> nat \<Rightarrow> nat \<Rightarrow> error_code \<Rightarrow> 'b conn \<Rightarrow>
   'b conn option" where
  "finish_sync_write after bufs total_size transferred ec c = do {
     let c = observe (O_sync_write_finished transferred) c;
     if \<not> error_is_would_block ec then complete_operation_now after transferred ec c
     else do {
       let c = observe (O_hit_would_block_event total_size) c;
       if transferred \<ge> total_size
       then complete_operation_now after transferred (make_std_compaible_error Sync_write_unexpected_results) c
       else do {
         bufs \<leftarrow> skip_transferred_part bufs transferred;
         Some (start_async_write bufs (total_size - transferred) c) } } }"

declare complete_operation_now_def [simp] finish_sync_write_def [simp]

text \<open>
  \<open>initiate_write_if_necessary\<close> and \<open>after_write\<close> call each other for as long as synchronous writes
  succeed; the recursion is on fuel, and \<open>write_fuel\<close> is what a connection whose callbacks do not
  send needs.
\<close>

fun initiate_write_if_necessary :: "nat \<Rightarrow> 'b conn_env \<Rightarrow> 'b conn \<Rightarrow> 'b conn option"
and after_write :: "nat \<Rightarrow> 'b conn_env \<Rightarrow> error_code \<Rightarrow> nat \<Rightarrow> 'b conn \<Rightarrow> 'b conn option" where
  "initiate_write_if_necessary 0 E c = None"
| "initiate_write_if_necessary (Suc fuel) E c = do {
     check (c_write_queue c \<noteq> []);
     if c_is_write_operation_running c then Some c
     else do {
       let (bufs, total_size) = ws_asio_bufs (e_driver E) (hd (c_write_queue c));
       if length bufs = 0 then Some c
       else if quik_sync_write_heuristic_size \<ge> total_size then do {
         let c = observe (O_sync_write_started total_size) c;
         let (transferred, ec, c) = socket_write E (concat bufs) c;
         finish_sync_write (\<lambda>ec n c. after_write fuel E ec n c) bufs total_size transferred ec c }
       else Some (start_async_write bufs total_size c) } }"
| "after_write 0 E ec n c = None"
| "after_write (Suc fuel) E ec n c = do {
     let c = c\<lparr>c_watchdog := wd_cancel_watch_operation (c_watchdog c)\<rparr>;
     let cbs = ws_send_complete_cb_list (hd (c_write_queue c));
     if ec_failed ec then do {
       c \<leftarrow> handle_io_error E ec c;
       run_send_completion_callbacks E Send_io_error cbs c }
     else do {
       c \<leftarrow> run_send_completion_callbacks E Send_success cbs c;
       let c = c\<lparr>c_write_queue := tl (c_write_queue c)\<rparr>;
       check (c_write_queue c \<noteq> []);
       let c = c\<lparr>c_is_write_operation_running := False\<rparr>;
       initiate_write_if_necessary fuel E c } }"

definition write_fuel :: "'b conn \<Rightarrow> nat" where
  "write_fuel c = 2 * length (c_write_queue c) + 3"

text \<open>
  The handler of \<open>asio::async_write\<close>: it has transferred \<open>n\<close> bytes of the buffers and finished with
  \<open>ec\<close>. It does not take the connection's lock.
\<close>

definition on_async_write_completed :: "'b conn_env \<Rightarrow> error_code \<Rightarrow> nat \<Rightarrow> 'b conn \<Rightarrow> 'b conn option" where
  "on_async_write_completed E ec n c =
     (case c_async c of
        None \<Rightarrow> None
      | Some bufs \<Rightarrow> do {
          let c = c\<lparr>c_wire := c_wire c @ take n (concat bufs), c_async := None\<rparr>;
          let c = observe (O_async_write_finished n) c;
          c \<leftarrow> after_write (write_fuel c) E ec n c;
          Some (observe (O_inc_bytes_tx_async n) c) })"

definition handle_write_operation_timeout_impl :: "'b conn_env \<Rightarrow> u64 \<Rightarrow> 'b conn \<Rightarrow> 'b conn option" where
  "handle_write_operation_timeout_impl E timeout_key c =
     (if c_is_write_operation_running c \<and> timeout_key = wd_timeout_key (c_watchdog c)
      then shutdown_impl E Write_timeout c
      else Some c)"

section \<open>The destructor\<close>

fun didnt_send_all :: "'b conn_env \<Rightarrow> 'b wseq list \<Rightarrow> 'b conn \<Rightarrow> 'b conn option" where
  "didnt_send_all E [] c = Some c"
| "didnt_send_all E (ws # queue) c = do {
     c \<leftarrow> run_send_completion_callbacks E Send_didnt_send (ws_send_complete_cb_list ws) c;
     let c = c\<lparr>c_write_queue := queue\<rparr>;
     didnt_send_all E queue c }"

definition handle_remainig_write_queue :: "'b conn_env \<Rightarrow> 'b conn \<Rightarrow> 'b conn option" where
  "handle_remainig_write_queue E c = do {
     check (c_write_queue c \<noteq> []);
     let first_seq_size = snd (ws_asio_bufs (e_driver E) (hd (c_write_queue c)));
     if 1 < length (c_write_queue c) \<or> 0 < first_seq_size then do {
       c \<leftarrow> (if c_is_write_operation_running c then do {
              c \<leftarrow> run_send_completion_callbacks E Send_io_error
                     (ws_send_complete_cb_list (hd (c_write_queue c))) c;
              Some (c\<lparr>c_write_queue := tl (c_write_queue c)\<rparr>) }
            else Some c);
       didnt_send_all E (c_write_queue c) c }
     else Some c }"

end
