(* ===== verification/ConnectionApi.thy ===== *)
theory ConnectionApi
  imports Connection
begin

text \<open>
  The rest of \<open>connection_t\<close>: the read loop, the work the public functions run on the strand, the
  public functions themselves, and a connection as the sequence of events asio delivers to it.
\<close>

section \<open>Reading\<close>

definition initiate_read :: "'b conn \<Rightarrow> 'b conn" where
  "initiate_read c =
     (let c = observe (O_read_started (sb_size (c_read_buffer c))) c
      in c\<lparr>c_pending_reads := c_pending_reads c + 1\<rparr>)"

text \<open>
  The handler of \<open>async_read_some\<close>: the operating system has put \<open>bytes\<close> at the start of
  \<open>m_read_buffer\<close>.
\<close>

definition read_completes :: "byte list \<Rightarrow> 'b conn \<Rightarrow> 'b conn option" where
  "read_completes bytes c = do {
     check (0 < c_pending_reads c);
     let c = c\<lparr>c_pending_reads := c_pending_reads c - 1\<rparr>;
     Some (c\<lparr>c_read_buffer := sb_write (c_read_buffer c) 0 bytes\<rparr>) }"

text \<open>
  \<open>after_read\<close> before and after it calls the input handler. The handler runs with the buffer moved out of
  the connection, and leaves what it leaves of it.
\<close>

definition input_arrives :: "'b conn_env \<Rightarrow> nat \<Rightarrow> 'b conn \<Rightarrow> (simple_buffer \<times> 'b conn) option" where
  "input_arrives E len c = do {
     let c = observe (O_inc_bytes_rx_async len) c;
     check (sb_size (c_read_buffer c) \<ge> len);
     let (read_buffer, moved) = sb_move_construct (c_read_buffer c);
     buffer \<leftarrow> bd_reduce_size_input (e_driver E) read_buffer len;
     let c = c\<lparr>c_read_buffer := moved\<rparr>;
     Some (buffer, observe (O_input (sb_view buffer)) c) }"

definition input_handled ::
  "'b conn_env \<Rightarrow> simple_buffer \<Rightarrow> simple_buffer option \<Rightarrow> 'b conn \<Rightarrow> 'b conn" where
  "input_handled E buffer next_read_buffer c =
     (let c = (case next_read_buffer of
          Some b \<Rightarrow> if sb_size b > 0 then c\<lparr>c_read_buffer := b\<rparr>
            else c\<lparr>c_read_buffer := bd_reallocate_input (e_driver E) buffer (m_input_buffer_size (c_cfg c))\<rparr>
        | None \<Rightarrow>
            c\<lparr>c_read_buffer := bd_reallocate_input (e_driver E) buffer (m_input_buffer_size (c_cfg c))\<rparr>)
      in if c_read_is_enabled c then initiate_read c else c)"

declare read_completes_def [simp]

definition after_read :: "'b conn_env \<Rightarrow> error_code \<Rightarrow> byte list \<Rightarrow> 'b conn \<Rightarrow> 'b conn option" where
  "after_read E ec bytes c =
     (if ec_failed ec then handle_io_error E ec c
      else do {
        (buffer, c) \<leftarrow> input_arrives E (length bytes) c;
        (buffer, next_read_buffer, c) \<leftarrow> e_input E (c_input_handler c) buffer c;
        Some (input_handled E buffer next_read_buffer c) })"

definition on_async_read_completed :: "'b conn_env \<Rightarrow> error_code \<Rightarrow> byte list \<Rightarrow> 'b conn \<Rightarrow> 'b conn option" where
  "on_async_read_completed E ec bytes c = do {
     c \<leftarrow> read_completes bytes c;
     after_read E ec bytes c }"

section \<open>Work on the strand\<close>

definition start_reading_work :: "'b conn \<Rightarrow> 'b conn" where
  "start_reading_work c =
     (if \<not> c_read_is_enabled c then initiate_read (c\<lparr>c_read_is_enabled := True\<rparr>) else c)"

definition stop_reading_work :: "'b conn \<Rightarrow> 'b conn" where
  "stop_reading_work c =
     (if c_read_is_enabled c then c\<lparr>c_read_is_enabled := False\<rparr> else c)"

definition reset_input_handler_impl :: "nat \<Rightarrow> 'b conn \<Rightarrow> 'b conn" where
  "reset_input_handler_impl h c = c\<lparr>c_input_handler := h\<rparr>"

definition reset_shutdown_handler_impl :: "nat option \<Rightarrow> 'b conn \<Rightarrow> 'b conn" where
  "reset_shutdown_handler_impl h c = c\<lparr>c_shutdown_handler := h\<rparr>"

fun append_all_try_aggressive :: "'b conn_env \<Rightarrow> 'b list \<Rightarrow> bool \<times> 'b conn \<Rightarrow> (bool \<times> 'b conn) option" where
  "append_all_try_aggressive E [] st = Some st"
| "append_all_try_aggressive E (b # bufs) st = do {
     st \<leftarrow> append_outgoing_buffer_try_aggressive_write E b st;
     append_all_try_aggressive E bufs st }"

text \<open>
  What every \<open>send_work\<close> does once sending is allowed. The four templates differ in how the
  buffers are held (a pack or a vector) and in whether there is a callback; no callback and an empty
  callback are both \<open>None\<close>.
\<close>

definition send_bufs :: "'b conn_env \<Rightarrow> cb_id option \<Rightarrow> 'b list \<Rightarrow> 'b conn \<Rightarrow> 'b conn option" where
  "send_bufs E cb bufs c = do {
     let c = observe (O_send_accepted cb (concat (map (bd_make_asio_const_buffer (e_driver E)) bufs))) c;
     (all_aggressive, c) \<leftarrow> append_all_try_aggressive E bufs (True, c);
     if \<not> all_aggressive then do {
       c \<leftarrow> (case cb of
              None \<Rightarrow> Some c
            | Some cb \<Rightarrow> do {
                seq \<leftarrow> ws_append_completion_cb (e_max_seq_length E) (last (c_write_queue c)) cb;
                Some (set_back_seq c seq) });
       initiate_write_if_necessary (write_fuel c) E c }
     else run_send_completion_callback E Send_success cb c }"

definition send_work :: "'b conn_env \<Rightarrow> cb_id option \<Rightarrow> 'b list \<Rightarrow> 'b conn \<Rightarrow> 'b conn option" where
  "send_work E cb bufs c =
     (if \<not> c_schedule_for_write_is_enabled c
      then run_send_completion_callback E Send_rejected_schedule_send cb c
      else send_bufs E cb bufs c)"

definition update_socket_options_impl :: "'b conn_env \<Rightarrow> socket_options_cfg \<Rightarrow> bool \<Rightarrow> 'b conn \<Rightarrow> 'b conn" where
  "update_socket_options_impl E cfg cb c =
     (let call_cb_if_necessary = (\<lambda>result c. if cb then observe (O_options_cb result) c else c)
      in if c_socket_open c then
           let (applied, ok) = set_socket_options (e_accepts_option E) cfg;
               c = observe (O_socket_options applied) c
           in if ok then call_cb_if_necessary Options_success c else call_cb_if_necessary Options_error c
         else call_cb_if_necessary Options_socket_closed c)"

fun run_strand_work :: "'b conn_env \<Rightarrow> 'b strand_work \<Rightarrow> 'b conn \<Rightarrow> 'b conn option" where
  "run_strand_work E W_start_reading c = Some (start_reading_work c)"
| "run_strand_work E W_stop_reading c = Some (stop_reading_work c)"
| "run_strand_work E (W_reset_input_handler h) c = Some (reset_input_handler_impl h c)"
| "run_strand_work E (W_reset_shutdown_handler h) c = Some (reset_shutdown_handler_impl h c)"
| "run_strand_work E (W_send cb bufs) c = send_work E cb bufs c"
| "run_strand_work E W_shutdown c = shutdown_impl E User_initiated c"
| "run_strand_work E (W_update_socket_options cfg cb) c = Some (update_socket_options_impl E cfg cb c)"
| "run_strand_work E (W_write_timeout key) c = handle_write_operation_timeout_impl E key c"

text \<open>
  \<open>asio::post\<close> always queues; \<open>asio::dispatch\<close> runs the function at once when it is called on the
  strand (\<open>on_strand\<close>).
\<close>

definition asio_post :: "'b strand_work \<Rightarrow> 'b conn \<Rightarrow> 'b conn" where
  "asio_post w c = c\<lparr>c_strand := c_strand c @ [w]\<rparr>"

definition asio_dispatch :: "bool \<Rightarrow> 'b conn_env \<Rightarrow> 'b strand_work \<Rightarrow> 'b conn \<Rightarrow> 'b conn option" where
  "asio_dispatch on_strand E w c = (if on_strand then run_strand_work E w c else Some (asio_post w c))"

section \<open>Public functions\<close>

definition start_reading :: "bool \<Rightarrow> 'b conn_env \<Rightarrow> 'b conn \<Rightarrow> 'b conn option" where
  "start_reading on_strand E c = asio_dispatch on_strand E W_start_reading c"

definition stop_reading :: "bool \<Rightarrow> 'b conn_env \<Rightarrow> 'b conn \<Rightarrow> 'b conn option" where
  "stop_reading on_strand E c = asio_dispatch on_strand E W_stop_reading c"

definition reset_input_handler ::
  "bool \<Rightarrow> 'b conn_env \<Rightarrow> nat option \<Rightarrow> 'b conn \<Rightarrow> (string + 'b conn) option" where
  "reset_input_handler on_strand E input_handler c =
     (case input_handler of
        None \<Rightarrow> Some (Inl ''invalid input handler: empty function object'')
      | Some h \<Rightarrow> map_option Inr (asio_dispatch on_strand E (W_reset_input_handler h) c))"

definition reset_shutdown_handler :: "bool \<Rightarrow> 'b conn_env \<Rightarrow> nat option \<Rightarrow> 'b conn \<Rightarrow> 'b conn option" where
  "reset_shutdown_handler on_strand E h c = asio_dispatch on_strand E (W_reset_shutdown_handler h) c"

definition shutdown_conn :: "bool \<Rightarrow> 'b conn_env \<Rightarrow> 'b conn \<Rightarrow> 'b conn option" where
  "shutdown_conn on_strand E c = asio_dispatch on_strand E W_shutdown c"

text \<open>No options: the callback is called at once, on the caller's thread.\<close>

definition update_socket_options ::
  "bool \<Rightarrow> 'b conn_env \<Rightarrow> socket_options_cfg \<Rightarrow> bool \<Rightarrow> 'b conn \<Rightarrow> 'b conn option" where
  "update_socket_options on_strand E cfg cb c =
     (if soc_is_empty cfg then Some (if cb then observe (O_options_cb Options_success) c else c)
      else asio_dispatch on_strand E (W_update_socket_options cfg cb) c)"

definition hadle_write_operation_timeout :: "bool \<Rightarrow> 'b conn_env \<Rightarrow> u64 \<Rightarrow> 'b conn \<Rightarrow> 'b conn option" where
  "hadle_write_operation_timeout on_strand E key c = asio_dispatch on_strand E (W_write_timeout key) c"

datatype send_buffer_strategy = Dispatch | Aggressive_dispatch | Post

text \<open>
  The four templates. With a real lock (\<open>noop_lock\<close> false) an aggressive dispatch runs in the calling
  thread; it then returns without a word when sending is no longer allowed.
\<close>

definition schedule_send_impl ::
  "send_buffer_strategy \<Rightarrow> bool \<Rightarrow> bool \<Rightarrow> 'b conn_env \<Rightarrow> 'b list \<Rightarrow> 'b conn \<Rightarrow> 'b conn option" where
  "schedule_send_impl strategy noop_lock on_strand E bufs c =
     (if strategy = Aggressive_dispatch \<and> \<not> noop_lock then
        (if \<not> c_schedule_for_write_is_enabled c then Some c else send_bufs E None bufs c)
      else if strategy = Post then Some (asio_post (W_send None bufs) c)
      else asio_dispatch on_strand E (W_send None bufs) c)"

definition schedule_send_vec_impl ::
  "send_buffer_strategy \<Rightarrow> bool \<Rightarrow> bool \<Rightarrow> 'b conn_env \<Rightarrow> 'b list \<Rightarrow> 'b conn \<Rightarrow> 'b conn option" where
  "schedule_send_vec_impl strategy noop_lock on_strand E bufs c =
     (if strategy = Aggressive_dispatch \<and> \<not> noop_lock then
        (if \<not> c_schedule_for_write_is_enabled c then Some c else send_bufs E None bufs c)
      else if strategy = Post then Some (asio_post (W_send None bufs) c)
      else asio_dispatch on_strand E (W_send None bufs) c)"

definition schedule_send_impl_with_cb ::
  "send_buffer_strategy \<Rightarrow> bool \<Rightarrow> bool \<Rightarrow> 'b conn_env \<Rightarrow> cb_id option \<Rightarrow> 'b list \<Rightarrow> 'b conn \<Rightarrow> 'b conn option" where
  "schedule_send_impl_with_cb strategy noop_lock on_strand E cb bufs c =
     (if strategy = Aggressive_dispatch \<and> \<not> noop_lock then
        (if \<not> c_schedule_for_write_is_enabled c then Some c else send_bufs E cb bufs c)
      else if strategy = Post then Some (asio_post (W_send cb bufs) c)
      else asio_dispatch on_strand E (W_send cb bufs) c)"

definition schedule_send_vec_impl_with_cb ::
  "send_buffer_strategy \<Rightarrow> bool \<Rightarrow> bool \<Rightarrow> 'b conn_env \<Rightarrow> cb_id option \<Rightarrow> 'b list \<Rightarrow> 'b conn \<Rightarrow> 'b conn option" where
  "schedule_send_vec_impl_with_cb strategy noop_lock on_strand E cb bufs c =
     (if strategy = Aggressive_dispatch \<and> \<not> noop_lock then
        (if \<not> c_schedule_for_write_is_enabled c then Some c else send_bufs E cb bufs c)
      else if strategy = Post then Some (asio_post (W_send cb bufs) c)
      else asio_dispatch on_strand E (W_send cb bufs) c)"

text \<open>The sixteen entry points, by the name of the function.\<close>

definition schedule_send_vec where "schedule_send_vec = schedule_send_vec_impl Dispatch"
definition schedule_send where "schedule_send = schedule_send_impl Dispatch"
definition post_send_vec where "post_send_vec = schedule_send_vec_impl Post"
definition post_send where "post_send = schedule_send_impl Post"
definition dispatch_send_vec where "dispatch_send_vec = schedule_send_vec_impl Dispatch"
definition dispatch_send where "dispatch_send = schedule_send_impl Dispatch"
definition aggressive_dispatch_send_vec where
  "aggressive_dispatch_send_vec = schedule_send_vec_impl Aggressive_dispatch"
definition aggressive_dispatch_send where
  "aggressive_dispatch_send = schedule_send_impl Aggressive_dispatch"
definition schedule_send_vec_with_cb where
  "schedule_send_vec_with_cb = schedule_send_vec_impl_with_cb Dispatch"
definition schedule_send_with_cb where "schedule_send_with_cb = schedule_send_impl_with_cb Dispatch"
definition post_send_vec_with_cb where "post_send_vec_with_cb = schedule_send_vec_impl_with_cb Post"
definition post_send_with_cb where "post_send_with_cb = schedule_send_impl_with_cb Post"
definition dispatch_send_vec_with_cb where
  "dispatch_send_vec_with_cb = schedule_send_vec_impl_with_cb Dispatch"
definition dispatch_send_with_cb where "dispatch_send_with_cb = schedule_send_impl_with_cb Dispatch"
definition aggressive_dispatch_send_vec_with_cb where
  "aggressive_dispatch_send_vec_with_cb = schedule_send_vec_impl_with_cb Aggressive_dispatch"
definition aggressive_dispatch_send_with_cb where
  "aggressive_dispatch_send_with_cb = schedule_send_impl_with_cb Aggressive_dispatch"

section \<open>A connection as a state machine\<close>

text \<open>
  What can happen to a connection: a public function is called from another thread (its work is
  queued on the strand, or runs in place for an aggressive dispatch under the lock), the strand runs
  its next piece of work, asio completes an operation, the watchdog's timer expires, and its lambda
  runs.
\<close>

datatype 'b conn_event =
    Ev_call "'b strand_work"
  | Ev_aggressive_send "cb_id option" "'b list"
  | Ev_strand
  | Ev_write_completed error_code nat
  | Ev_read_completed error_code "byte list"
  | Ev_timer_expires
  | Ev_timer_handler

fun conn_step :: "'b conn_env \<Rightarrow> 'b conn_event \<Rightarrow> 'b conn \<Rightarrow> 'b conn option" where
  "conn_step E (Ev_call w) c = asio_dispatch False E w c"
| "conn_step E (Ev_aggressive_send cb bufs) c =
     schedule_send_impl_with_cb Aggressive_dispatch False False E cb bufs c"
| "conn_step E Ev_strand c =
     (case c_strand c of
        [] \<Rightarrow> None
      | w # ws \<Rightarrow> run_strand_work E w (c\<lparr>c_strand := ws\<rparr>))"
| "conn_step E (Ev_write_completed ec n) c = on_async_write_completed E ec n c"
| "conn_step E (Ev_read_completed ec bytes) c = on_async_read_completed E ec bytes c"
| "conn_step E Ev_timer_expires c = Some (c\<lparr>c_watchdog := wd_timer_expires (c_watchdog c)\<rparr>)"
| "conn_step E Ev_timer_handler c =
     (let (call, w) = wd_run_handler (c_watchdog c); c = c\<lparr>c_watchdog := w\<rparr>
      in case call of None \<Rightarrow> Some c | Some key \<Rightarrow> hadle_write_operation_timeout False E key c)"

fun conn_run :: "'b conn_env \<Rightarrow> 'b conn_event list \<Rightarrow> 'b conn \<Rightarrow> 'b conn option" where
  "conn_run E [] c = Some c"
| "conn_run E (ev # evs) c = do { c \<leftarrow> conn_step E ev c; conn_run E evs c }"

end
