(* ===== verification/ConnectionFacts.thy ===== *)
theory ConnectionFacts
  imports ConnectionApi HeterogeneousBuffer
begin

text \<open>
  What the write path of a connection guarantees. The invariant \<open>conn_ok\<close> ties the bytes the
  operating system took, the operation in progress and the queue to the bytes the connection
  accepted, and the completion callbacks that ran to the callbacks it accepted. It is proved for
  every operation in the locale \<open>quiet_env\<close>, the contract of asio and of handlers that do not call
  back into a running operation, and then for every run of the state machine.
\<close>

section \<open>Abstraction\<close>

definition queue_bytes :: "'b buffer_driver \<Rightarrow> 'b wseq list \<Rightarrow> byte list" where
  "queue_bytes d q = concat (map (\<lambda>ws. concat (map (bd_make_asio_const_buffer d) (ws_bufs ws))) q)"

definition queue_cbs :: "'b wseq list \<Rightarrow> cb_id list" where
  "queue_cbs q = concat (map ws_cbs q)"

fun accepted_bytes :: "observation list \<Rightarrow> byte list" where
  "accepted_bytes [] = []"
| "accepted_bytes (O_send_accepted cb bs # obs) = bs @ accepted_bytes obs"
| "accepted_bytes (_ # obs) = accepted_bytes obs"

fun accepted_cbs :: "observation list \<Rightarrow> cb_id list" where
  "accepted_cbs [] = []"
| "accepted_cbs (O_send_accepted (Some cb) bs # obs) = cb # accepted_cbs obs"
| "accepted_cbs (_ # obs) = accepted_cbs obs"

fun succeeded_cbs :: "observation list \<Rightarrow> cb_id list" where
  "succeeded_cbs [] = []"
| "succeeded_cbs (O_send_complete cb Send_success # obs) = cb # succeeded_cbs obs"
| "succeeded_cbs (_ # obs) = succeeded_cbs obs"

lemma accepted_bytes_append [simp]: "accepted_bytes (xs @ ys) = accepted_bytes xs @ accepted_bytes ys"
  by (induction xs rule: accepted_bytes.induct) simp_all

lemma accepted_cbs_append [simp]: "accepted_cbs (xs @ ys) = accepted_cbs xs @ accepted_cbs ys"
  by (induction xs rule: accepted_cbs.induct) simp_all

lemma succeeded_cbs_append [simp]: "succeeded_cbs (xs @ ys) = succeeded_cbs xs @ succeeded_cbs ys"
  by (induction xs rule: succeeded_cbs.induct) simp_all

lemma queue_bytes_simps [simp]:
  "queue_bytes d [] = []"
  "queue_bytes d (ws # q) = concat (map (bd_make_asio_const_buffer d) (ws_bufs ws)) @ queue_bytes d q"
  "queue_bytes d (q @ q') = queue_bytes d q @ queue_bytes d q'"
  by (simp_all add: queue_bytes_def)

lemma queue_cbs_simps [simp]:
  "queue_cbs [] = []" "queue_cbs (ws # q) = ws_cbs ws @ queue_cbs q" "queue_cbs (q @ q') = queue_cbs q @ queue_cbs q'"
  by (simp_all add: queue_cbs_def)

lemma ws_empty_simps [simp]: "ws_bufs ws_empty = []" "ws_cbs ws_empty = []"
  by (simp_all add: ws_empty_def)

lemma ws_empty_iff: "ws = ws_empty \<longleftrightarrow> ws_bufs ws = [] \<and> ws_cbs ws = []"
  by (cases ws) (simp add: ws_empty_def)

section \<open>The queue\<close>

text \<open>Only the last sequence may be empty, no sequence is too long, callbacks wait with their data.\<close>

definition queue_wf :: "nat \<Rightarrow> 'b wseq list \<Rightarrow> bool" where
  "queue_wf mx q \<longleftrightarrow>
     q \<noteq> [] \<and> (\<forall>ws\<in>set (butlast q). ws_bufs ws \<noteq> []) \<and>
     (\<forall>ws\<in>set q. length (ws_bufs ws) \<le> mx \<and> (ws_bufs ws = [] \<longrightarrow> ws_cbs ws = []))"

lemma queue_wf_snoc:
  "queue_wf mx (q @ [ws]) \<longleftrightarrow>
     (\<forall>x\<in>set q. ws_bufs x \<noteq> [] \<and> length (ws_bufs x) \<le> mx) \<and>
     length (ws_bufs ws) \<le> mx \<and> (ws_bufs ws = [] \<longrightarrow> ws_cbs ws = [])"
  by (auto simp: queue_wf_def)

lemma queue_wf_obtain:
  assumes "queue_wf mx q"
  obtains q0 ws where "q = q0 @ [ws]"
  using assms by (metis append_butlast_last_id queue_wf_def)

lemma queue_wf_tl: "queue_wf mx q \<Longrightarrow> 2 \<le> length q \<Longrightarrow> queue_wf mx (tl q)"
  by (cases q rule: rev_cases) (auto simp: queue_wf_snoc neq_Nil_conv tl_append split: list.splits)

lemma queue_wf_hd_empty:
  assumes "queue_wf mx q" "ws_bufs (hd q) = []"
  shows "q = [ws_empty]"
proof -
  obtain q0 ws where q: "q = q0 @ [ws]" using assms(1) by (rule queue_wf_obtain)
  then show ?thesis
    using assms unfolding q queue_wf_snoc by (cases q0) (auto simp: ws_empty_iff)
qed

lemma queue_wf_singleton [simp]: "queue_wf mx [ws_empty]"
  by (simp add: queue_wf_def)

section \<open>The contract of the environment\<close>

text \<open>The bytes a connection has taken responsibility for, in the order they leave.\<close>

definition conn_stream :: "'b conn_env \<Rightarrow> 'b conn \<Rightarrow> byte list" where
  "conn_stream E c = c_wire c @
     (case c_async c of
        None \<Rightarrow> queue_bytes (e_driver E) (c_write_queue c)
      | Some bufs \<Rightarrow> concat bufs @ queue_bytes (e_driver E) (tl (c_write_queue c)))"

text \<open>What appending a buffer leaves alone, and the states it starts from.\<close>

definition same_core :: "'b conn \<Rightarrow> 'b conn \<Rightarrow> bool" where
  "same_core c c' \<longleftrightarrow>
     c_is_write_operation_running c' = c_is_write_operation_running c \<and> c_async c' = c_async c \<and>
     c_schedule_for_write_is_enabled c' = c_schedule_for_write_is_enabled c \<and>
     c_shutdown_was_called c' = c_shutdown_was_called c \<and> c_socket_open c' = c_socket_open c \<and>
     c_strand c' = c_strand c \<and> accepted_bytes (c_out c') = accepted_bytes (c_out c) \<and>
     accepted_cbs (c_out c') = accepted_cbs (c_out c) \<and> succeeded_cbs (c_out c') = succeeded_cbs (c_out c)"

lemma same_core_refl [simp]: "same_core c c"
  by (simp add: same_core_def)

lemma same_core_trans: "same_core a b \<Longrightarrow> same_core b c \<Longrightarrow> same_core a c"
  by (simp add: same_core_def)

definition appendable :: "'b conn_env \<Rightarrow> bool \<Rightarrow> 'b conn \<Rightarrow> bool" where
  "appendable E be c \<longleftrightarrow>
     queue_wf (e_max_seq_length E) (c_write_queue c) \<and>
     (c_is_write_operation_running c \<longleftrightarrow> c_async c \<noteq> None) \<and>
     (c_is_write_operation_running c \<longrightarrow> 2 \<le> length (c_write_queue c)) \<and>
     (be \<and> \<not> c_is_write_operation_running c \<longrightarrow> c_write_queue c = [ws_empty])"

text \<open>Handlers may post work; an input handler may also call the public functions on the strand.\<close>

fun run_works :: "'b conn_env \<Rightarrow> 'b strand_work list \<Rightarrow> 'b conn \<Rightarrow> 'b conn option" where
  "run_works E [] c = Some c"
| "run_works E (w # ws) c = do { c \<leftarrow> run_strand_work E w c; run_works E ws c }"

text \<open>What a shutdown does before it calls the handler.\<close>

definition shutdown_begin :: "'b conn_env \<Rightarrow> 'b conn \<Rightarrow> 'b conn" where
  "shutdown_begin E c = (if c_socket_open c
     then let c = c\<lparr>c_read_is_enabled := False, c_schedule_for_write_is_enabled := False\<rparr>;
              c = observe O_socket_shutdown (if e_windows E then c\<lparr>c_socket_open := False\<rparr> else c)
          in c\<lparr>c_watchdog := wd_cancel_watch_operation (c_watchdog c)\<rparr>
     else c)"

lemma shutdown_impl_eq:
  "shutdown_impl E reason c = (if c_shutdown_was_called c then Some c
     else do {
       c \<leftarrow> (case c_shutdown_handler c of None \<Rightarrow> Some (shutdown_begin E c)
             | Some h \<Rightarrow> e_shutdown_cb E h reason (observe (O_shutdown_handler reason) (shutdown_begin E c)));
       Some (c\<lparr>c_shutdown_was_called := True\<rparr>) })"
  by (simp add: shutdown_impl_def shutdown_begin_def observe_def Let_def split: option.split)

lemma shutdown_begin_simps:
  "c_write_queue (shutdown_begin E c) = c_write_queue c" "c_async (shutdown_begin E c) = c_async c"
  "c_is_write_operation_running (shutdown_begin E c) = c_is_write_operation_running c"
  "c_wire (shutdown_begin E c) = c_wire c" "c_strand (shutdown_begin E c) = c_strand c"
  "c_shutdown_was_called (shutdown_begin E c) = c_shutdown_was_called c"
  "c_shutdown_handler (shutdown_begin E c) = c_shutdown_handler c"
  "c_read_buffer (shutdown_begin E c) = c_read_buffer c" "c_pending_reads (shutdown_begin E c) = c_pending_reads c"
  "c_read_is_enabled (shutdown_begin E c) \<longleftrightarrow> c_read_is_enabled c \<and> \<not> c_socket_open c"
  "c_schedule_for_write_is_enabled (shutdown_begin E c) \<longleftrightarrow> c_schedule_for_write_is_enabled c \<and> \<not> c_socket_open c"
  "accepted_bytes (c_out (shutdown_begin E c)) = accepted_bytes (c_out c)"
  "accepted_cbs (c_out (shutdown_begin E c)) = accepted_cbs (c_out c)"
  "succeeded_cbs (c_out (shutdown_begin E c)) = succeeded_cbs (c_out c)"
  by (simp_all add: shutdown_begin_def observe_def Let_def)

text \<open>
  A send with a callback has data. The completion callbacks leave the connection alone; a shutdown
  handler does so too, or it shuts the connection down unless it was a user who did so, as the one of
  \<open>net/examples/tcp/slow_proxy.cpp\<close> does.
\<close>

fun work_ok :: "'b strand_work \<Rightarrow> bool" where
  "work_ok (W_send (Some cb) bufs) = (bufs \<noteq> [])"
| "work_ok _ = True"

locale quiet_env = buffer_driver_laws "e_driver E" for E :: "'b conn_env" +
  assumes mx: "0 < e_max_seq_length E"
    and write_le: "e_write E k bs = (t, ec) \<Longrightarrow> t \<le> length bs"
    and write_all: "e_write E k bs = (t, ec) \<Longrightarrow> ec = Ec_success \<longleftrightarrow> t = length bs"
    and write_not_aborted: "e_write E k bs = (t, ec) \<Longrightarrow> ec \<noteq> Ec_operation_aborted"
    and send_cb_quiet: "e_send_cb E cb res c = Some c"
    and shutdown_cb_closes: "e_shutdown_cb E h reason c = Some c \<or>
      reason \<noteq> User_initiated \<and> e_shutdown_cb E h reason c = shutdown_impl E User_initiated c"
    and input_works: "e_input E h b c = Some (b', nb, c') \<Longrightarrow>
      \<exists>ws. run_works E ws c = Some c' \<and> (\<forall>w\<in>set ws. work_ok w)"
begin

lemma append_outgoing_buffer_queue:
  assumes "queue_wf (e_max_seq_length E) (c_write_queue c)"
  shows "\<exists>q. append_outgoing_buffer E buf c = Some (c\<lparr>c_write_queue := q\<rparr>) \<and>
      queue_wf (e_max_seq_length E) q \<and>
      queue_bytes (e_driver E) q =
        queue_bytes (e_driver E) (c_write_queue c) @ bd_make_asio_const_buffer (e_driver E) buf \<and>
      queue_cbs q = queue_cbs (c_write_queue c) \<and> ws_bufs (last q) \<noteq> [] \<and>
      (2 \<le> length (c_write_queue c) \<longrightarrow> 2 \<le> length q \<and> hd q = hd (c_write_queue c))"
proof -
  obtain q0 ws where q: "c_write_queue c = q0 @ [ws]"
    using assms by (rule queue_wf_obtain)
  define mxl where "mxl = e_max_seq_length E"
  have wf: "\<forall>x\<in>set q0. ws_bufs x \<noteq> [] \<and> length (ws_bufs x) \<le> mxl"
    "length (ws_bufs ws) \<le> mxl" "ws_bufs ws = [] \<longrightarrow> ws_cbs ws = []"
    using assms by (auto simp: q queue_wf_snoc mxl_def)
  have mx': "0 < mxl" using mx by (simp add: mxl_def)
  show ?thesis
  proof (cases "ws_can_append_buffer mxl ws 1")
    case True
    then show ?thesis
      using wf
      by (intro exI [of _ "q0 @ [ws\<lparr>ws_bufs := ws_bufs ws @ [buf]\<rparr>]"])
        (auto simp: append_outgoing_buffer_def q ws_append_buffer_def set_back_seq_def queue_wf_def
          mxl_def [symmetric] ws_can_append_buffer_def hd_append)
  next
    case full: False
    then have nonempty: "ws_bufs ws \<noteq> []" using mx' by (auto simp: ws_can_append_buffer_def)
    show ?thesis
    proof (cases "q0 = []")
      case True
      then show ?thesis
        using full wf mx' nonempty
        by (intro exI [of _ "[ws, ws_empty\<lparr>ws_bufs := [buf]\<rparr>]"]) (auto simp: append_outgoing_buffer_def q ws_append_buffer_def push_seq_def queue_wf_def
            mxl_def [symmetric] ws_can_append_buffer_def)
    next
      case False
      define ws' where "ws' = ws\<lparr>ws_bufs := compacted (e_driver E) concatenated_buffer_max_size (ws_bufs ws)\<rparr>"
      have concat_eq: "ws_concat_small_buffers (e_driver E) concatenated_buffer_max_size ws = Some ws'"
        using nonempty by (simp add: ws_concat_small_buffers_eq ws'_def)
      have ws': "ws_bufs ws' \<noteq> []" "length (ws_bufs ws') \<le> mxl" "ws_cbs ws' = ws_cbs ws"
        "concat (map (bd_make_asio_const_buffer (e_driver E)) (ws_bufs ws')) =
         concat (map (bd_make_asio_const_buffer (e_driver E)) (ws_bufs ws))"
        using nonempty compacted_length [of concatenated_buffer_max_size "ws_bufs ws"] wf(2)
        by (auto simp: ws'_def compacted_nonempty compacted_bytes)
      have len: "\<not> length (c_write_queue c) \<le> 1" using False by (cases q0) (simp_all add: q)
      show ?thesis
      proof (cases "ws_can_append_buffer mxl ws' 1")
        case True
        then show ?thesis
          using full len False wf ws'
          by (intro exI [of _ "q0 @ [ws'\<lparr>ws_bufs := ws_bufs ws' @ [buf]\<rparr>]"])
            (auto simp: append_outgoing_buffer_def q ws_append_buffer_def set_back_seq_def queue_wf_def
              mxl_def [symmetric] ws_can_append_buffer_def concat_eq Let_def hd_append)
      next
        case False': False
        then show ?thesis
          using full len False wf ws' mx'
          by (intro exI [of _ "q0 @ [ws', ws_empty\<lparr>ws_bufs := [buf]\<rparr>]"])
            (auto simp: append_outgoing_buffer_def q ws_append_buffer_def set_back_seq_def push_seq_def
              queue_wf_def butlast_append mxl_def [symmetric] ws_can_append_buffer_def concat_eq Let_def hd_append)
      qed
    qed
  qed
qed

lemma append_outgoing_buffer_stream:
  assumes "appendable E be c"
  shows "\<exists>c'. append_outgoing_buffer E buf c = Some c' \<and> same_core c c' \<and> appendable E False c' \<and>
      conn_stream E c' = conn_stream E c @ bd_make_asio_const_buffer (e_driver E) buf \<and>
      queue_cbs (c_write_queue c') = queue_cbs (c_write_queue c) \<and> ws_bufs (last (c_write_queue c')) \<noteq> []"
proof -
  let ?v = "bd_make_asio_const_buffer (e_driver E)"
  obtain q where q: "append_outgoing_buffer E buf c = Some (c\<lparr>c_write_queue := q\<rparr>)"
      "queue_wf (e_max_seq_length E) q"
      "queue_bytes (e_driver E) q = queue_bytes (e_driver E) (c_write_queue c) @ ?v buf"
      "queue_cbs q = queue_cbs (c_write_queue c)" "ws_bufs (last q) \<noteq> []"
      "2 \<le> length (c_write_queue c) \<Longrightarrow> 2 \<le> length q \<and> hd q = hd (c_write_queue c)"
    using append_outgoing_buffer_queue [of c buf] assms unfolding appendable_def by blast
  have tl_bytes: "queue_bytes (e_driver E) (tl q) = queue_bytes (e_driver E) (tl (c_write_queue c)) @ ?v buf"
    if "2 \<le> length (c_write_queue c)"
    using q(3) q(6) [OF that] that by (cases q; cases "c_write_queue c") auto
  have "conn_stream E (c\<lparr>c_write_queue := q\<rparr>) = conn_stream E c @ ?v buf"
    using q(3) tl_bytes assms by (auto simp: conn_stream_def appendable_def split: option.splits)
  then show ?thesis
    using q assms by (intro exI [of _ "c\<lparr>c_write_queue := q\<rparr>"]) (auto simp: same_core_def appendable_def)
qed

lemma try_aggressive_write_stream:
  assumes "appendable E be c"
  shows "\<exists>be' c'. append_outgoing_buffer_try_aggressive_write E buf (be, c) = Some (be', c') \<and>
      same_core c c' \<and> appendable E be' c' \<and>
      conn_stream E c' = conn_stream E c @ bd_make_asio_const_buffer (e_driver E) buf \<and>
      queue_cbs (c_write_queue c') = queue_cbs (c_write_queue c) \<and>
      (be' \<longrightarrow> be \<and> \<not> c_is_write_operation_running c) \<and>
      (\<not> be' \<longrightarrow> ws_bufs (last (c_write_queue c')) \<noteq> [])"
proof (cases "be \<and> \<not> c_is_write_operation_running c")
  case False
  then show ?thesis
    using append_outgoing_buffer_stream [OF assms, of buf]
    by (auto simp: append_outgoing_buffer_try_aggressive_write_def)
next
  case True
  let ?v = "bd_make_asio_const_buffer (e_driver E)"
  show ?thesis
  proof (cases "quik_sync_write_heuristic_size \<le> length (?v buf)")
    case True
    then show ?thesis
      using append_outgoing_buffer_stream [OF assms, of buf]
      by (auto simp: append_outgoing_buffer_try_aggressive_write_def)
  next
    case small: False
    obtain t ec where w: "e_write E (c_nwrites c) (?v buf) = (t, ec)" by fastforce
    define c1 where "c1 = c\<lparr>c_wire := c_wire c @ take t (?v buf), c_nwrites := c_nwrites c + 1,
        c_out := c_out c @ [O_sync_write_started (length (?v buf)), O_sync_write_finished t, O_inc_bytes_tx_sync t]\<rparr>"
    define c2 where "c2 = observe (O_hit_would_block_event (length (?v buf))) c1"
    have core: "same_core c c1" "same_core c c2"
      by (simp_all add: c1_def c2_def same_core_def observe_def)
    have app: "appendable E be c1" "appendable E be c2"
      using assms by (simp_all add: appendable_def c1_def c2_def observe_def)
    have idle: "c_async c = None" "c_write_queue c = [ws_empty]"
      using assms True by (auto simp: appendable_def)
    have str: "conn_stream E c1 = conn_stream E c @ take t (?v buf)" "conn_stream E c2 = conn_stream E c1"
      using idle by (simp_all add: conn_stream_def c1_def c2_def observe_def)
    have step: "append_outgoing_buffer_try_aggressive_write E buf (be, c) =
        (if t = length (?v buf) then do { check (\<not> ec_failed ec); Some (True, c1) }
         else if t \<noteq> 0 then do {
           c \<leftarrow> append_outgoing_buffer E (bd_to_output (e_driver E) (sb_of_bytes (drop t (?v buf)))) c2;
           Some (False, c) }
         else do { c \<leftarrow> append_outgoing_buffer E buf c2; Some (False, c) })"
      using True small w
      by (simp add: append_outgoing_buffer_try_aggressive_write_def Let_def socket_write_def observe_def c1_def c2_def)
    have cbs: "queue_cbs (c_write_queue c2) = queue_cbs (c_write_queue c)"
      by (simp add: c1_def c2_def observe_def)
    consider (all) "t = length (?v buf)" | (part) "t \<noteq> length (?v buf)" "t \<noteq> 0" | (none) "t \<noteq> length (?v buf)" "t = 0"
      by blast
    then show ?thesis
    proof cases
      case all
      then have "\<not> ec_failed ec" using write_all [OF w] by (simp add: ec_failed_def)
      moreover have "queue_cbs (c_write_queue c1) = queue_cbs (c_write_queue c)" "be = True"
        using True by (simp_all add: c1_def)
      ultimately show ?thesis
        using all True core(1) app(1) str(1) step
        by (intro exI [of _ True] exI [of _ c1]) simp
    next
      case part
      have tail: "?v (bd_to_output (e_driver E) (sb_of_bytes (drop t (?v buf)))) = drop t (?v buf)"
        by (simp add: view_to_output)
      show ?thesis
        using append_outgoing_buffer_stream [OF app(2), of "bd_to_output (e_driver E) (sb_of_bytes (drop t (?v buf)))"]
          part str cbs same_core_trans [OF core(2)] by (fastforce simp: step tail)
    next
      case none
      then show ?thesis
        using append_outgoing_buffer_stream [OF app(2), of buf] str cbs same_core_trans [OF core(2)]
        by (fastforce simp: step)
    qed
  qed
qed

lemma append_all_stream:
  assumes "appendable E be c"
  shows "\<exists>be' c'. append_all_try_aggressive E bufs (be, c) = Some (be', c') \<and>
      same_core c c' \<and> appendable E be' c' \<and>
      conn_stream E c' = conn_stream E c @ concat (map (bd_make_asio_const_buffer (e_driver E)) bufs) \<and>
      queue_cbs (c_write_queue c') = queue_cbs (c_write_queue c) \<and>
      (be' \<longrightarrow> be \<and> (bufs \<noteq> [] \<longrightarrow> \<not> c_is_write_operation_running c)) \<and>
      (bufs \<noteq> [] \<and> \<not> be' \<longrightarrow> ws_bufs (last (c_write_queue c')) \<noteq> []) \<and> (bufs = [] \<longrightarrow> be' = be)"
  using assms
proof (induction bufs arbitrary: be c)
  case Nil
  then show ?case by simp
next
  case (Cons b bufs)
  obtain be1 c1 where s1: "append_outgoing_buffer_try_aggressive_write E b (be, c) = Some (be1, c1)"
      "same_core c c1" "appendable E be1 c1"
      "conn_stream E c1 = conn_stream E c @ bd_make_asio_const_buffer (e_driver E) b"
      "queue_cbs (c_write_queue c1) = queue_cbs (c_write_queue c)"
      "be1 \<longrightarrow> be \<and> \<not> c_is_write_operation_running c"
      "\<not> be1 \<longrightarrow> ws_bufs (last (c_write_queue c1)) \<noteq> []"
    using try_aggressive_write_stream [OF Cons.prems, of b] by blast
  obtain be2 c2 where s2: "append_all_try_aggressive E bufs (be1, c1) = Some (be2, c2)"
      "same_core c1 c2" "appendable E be2 c2"
      "conn_stream E c2 = conn_stream E c1 @ concat (map (bd_make_asio_const_buffer (e_driver E)) bufs)"
      "queue_cbs (c_write_queue c2) = queue_cbs (c_write_queue c1)"
      "be2 \<longrightarrow> be1 \<and> (bufs \<noteq> [] \<longrightarrow> \<not> c_is_write_operation_running c1)"
      "bufs \<noteq> [] \<and> \<not> be2 \<longrightarrow> ws_bufs (last (c_write_queue c2)) \<noteq> []" "bufs = [] \<longrightarrow> be2 = be1"
    using Cons.IH [OF s1(3)] by blast
  have last: "\<not> be2 \<longrightarrow> ws_bufs (last (c_write_queue c2)) \<noteq> []"
    using s1(7) s2 by (cases "bufs = []") auto
  show ?case
    using s1 s2 last same_core_trans [OF s1(2) s2(2)]
    by (intro exI [of _ be2] exI [of _ c2]) auto
qed

lemma run_callbacks_quiet:
  "run_send_completion_callbacks E res cbs c = Some (c\<lparr>c_out := c_out c @ map (\<lambda>cb. O_send_complete cb res) cbs\<rparr>)"
  by (induction cbs arbitrary: c) (simp_all add: run_send_completion_callback_def send_cb_quiet observe_def)

lemma succeeded_cbs_map [simp]:
  "succeeded_cbs (map (\<lambda>cb. O_send_complete cb res) cbs) = (if res = Send_success then cbs else [])"
  by (induction cbs) (cases res; simp)+

lemma accepted_map_complete [simp]:
  "accepted_cbs (map (\<lambda>cb. O_send_complete cb res) cbs) = []"
  "accepted_bytes (map (\<lambda>cb. O_send_complete cb res) cbs) = []"
  by (induction cbs) simp_all

text \<open>Shutdown leaves the data path alone and stops sending, unless it was called before.\<close>

lemma shutdown_cb_user: "e_shutdown_cb E h User_initiated c = Some c"
  using shutdown_cb_closes [of h User_initiated c] by simp

lemma shutdown_impl_cases:
  obtains "c_shutdown_was_called c" "shutdown_impl E reason c = Some c"
  | "\<not> c_shutdown_was_called c" "c_shutdown_handler c = None"
      "shutdown_impl E reason c = Some ((shutdown_begin E c)\<lparr>c_shutdown_was_called := True\<rparr>)"
  | h where "\<not> c_shutdown_was_called c" "c_shutdown_handler c = Some h"
      "shutdown_impl E reason c =
        Some ((observe (O_shutdown_handler reason) (shutdown_begin E c))\<lparr>c_shutdown_was_called := True\<rparr>)"
  | h where "\<not> c_shutdown_was_called c" "c_shutdown_handler c = Some h" "reason \<noteq> User_initiated"
      "\<exists>h r x. e_shutdown_cb E h r x \<noteq> Some x"
      "shutdown_impl E reason c = Some ((observe (O_shutdown_handler User_initiated)
        (shutdown_begin E (observe (O_shutdown_handler reason) (shutdown_begin E c))))\<lparr>c_shutdown_was_called := True\<rparr>)"
proof -
  define c1 where "c1 = observe (O_shutdown_handler reason) (shutdown_begin E c)"
  have kept: "c_shutdown_handler c1 = c_shutdown_handler c" "c_shutdown_was_called c1 = c_shutdown_was_called c"
    by (simp_all add: c1_def observe_def shutdown_begin_simps)
  consider "c_shutdown_was_called c" | "\<not> c_shutdown_was_called c" "c_shutdown_handler c = None"
    | h where "\<not> c_shutdown_was_called c" "c_shutdown_handler c = Some h" "e_shutdown_cb E h reason c1 = Some c1"
    | h where "\<not> c_shutdown_was_called c" "c_shutdown_handler c = Some h" "e_shutdown_cb E h reason c1 \<noteq> Some c1"
      "reason \<noteq> User_initiated" "e_shutdown_cb E h reason c1 = shutdown_impl E User_initiated c1"
    using shutdown_cb_closes [of _ reason c1] by (cases "c_shutdown_handler c") blast+
  then show thesis
  proof cases
    case (3 h)
    then show ?thesis using that(3) by (simp add: shutdown_impl_eq c1_def)
  next
    case (4 h)
    moreover have "shutdown_impl E User_initiated c1 =
        Some ((observe (O_shutdown_handler User_initiated) (shutdown_begin E c1))\<lparr>c_shutdown_was_called := True\<rparr>)"
      using 4 kept by (simp add: shutdown_impl_eq shutdown_cb_user)
    moreover have "\<exists>h r x. e_shutdown_cb E h r x \<noteq> Some x" using 4(3) by blast
    ultimately show ?thesis
      using that(4) [of h] 4 by (simp add: shutdown_impl_eq [of E reason] c1_def [symmetric])
  qed (use that(1,2) in \<open>simp_all add: shutdown_impl_eq\<close>)
qed

lemma shutdown_impl_quiet:
  "\<exists>c'. shutdown_impl E reason c = Some c' \<and> c_write_queue c' = c_write_queue c \<and> c_async c' = c_async c \<and>
     c_is_write_operation_running c' = c_is_write_operation_running c \<and> c_wire c' = c_wire c \<and>
     c_strand c' = c_strand c \<and> c_shutdown_was_called c' \<and>
     (c_schedule_for_write_is_enabled c' \<longrightarrow> c_schedule_for_write_is_enabled c \<and>
        (c_shutdown_was_called c \<or> \<not> c_socket_open c)) \<and>
     accepted_bytes (c_out c') = accepted_bytes (c_out c) \<and> accepted_cbs (c_out c') = accepted_cbs (c_out c) \<and>
     succeeded_cbs (c_out c') = succeeded_cbs (c_out c)"
  by (rule shutdown_impl_cases [of c reason]; auto simp: observe_def shutdown_begin_simps)

end

section \<open>The invariant\<close>

text \<open>
  \<open>conn_core\<close> holds always. A working connection is idle, or writes the front of its queue, and then
  everything accepted is on the wire, in the operation or in the queue, in this order, and the
  callbacks not yet run are exactly those in the queue. After a failed write the connection accepts
  nothing more, and a prefix of the accepted bytes and callbacks is done.
\<close>

definition conn_core :: "'b conn_env \<Rightarrow> 'b conn \<Rightarrow> bool" where
  "conn_core E c \<longleftrightarrow> queue_wf (e_max_seq_length E) (c_write_queue c) \<and>
     (c_shutdown_was_called c \<longrightarrow> \<not> c_schedule_for_write_is_enabled c) \<and>
     (\<not> c_socket_open c \<longrightarrow> c_shutdown_was_called c)"

definition conn_idle :: "'b conn \<Rightarrow> bool" where
  "conn_idle c \<longleftrightarrow> \<not> c_is_write_operation_running c \<and> c_async c = None \<and> c_write_queue c = [ws_empty]"

definition conn_writing :: "'b conn \<Rightarrow> bool" where
  "conn_writing c \<longleftrightarrow> c_is_write_operation_running c \<and> c_async c \<noteq> None \<and> 2 \<le> length (c_write_queue c)"

definition conn_failed :: "'b conn \<Rightarrow> bool" where
  "conn_failed c \<longleftrightarrow> c_async c = None \<and> \<not> c_schedule_for_write_is_enabled c \<and> 2 \<le> length (c_write_queue c)"

definition conn_ok :: "'b conn_env \<Rightarrow> byte list \<Rightarrow> cb_id list \<Rightarrow> 'b conn \<Rightarrow> bool" where
  "conn_ok E acc cbs c \<longleftrightarrow> conn_core E c \<and>
     ((conn_idle c \<or> conn_writing c) \<and> conn_stream E c = acc \<and>
        succeeded_cbs (c_out c) @ queue_cbs (c_write_queue c) = cbs
      \<or> conn_failed c \<and> prefix (c_wire c) acc \<and> prefix (succeeded_cbs (c_out c)) cbs)"

text \<open>Ready to start writing: what \<open>initiate_write_if_necessary\<close> is called on.\<close>

definition conn_ready :: "'b conn_env \<Rightarrow> byte list \<Rightarrow> cb_id list \<Rightarrow> 'b conn \<Rightarrow> bool" where
  "conn_ready E acc cbs c \<longleftrightarrow> conn_core E c \<and> \<not> c_is_write_operation_running c \<and> c_async c = None \<and>
     conn_stream E c = acc \<and> succeeded_cbs (c_out c) @ queue_cbs (c_write_queue c) = cbs"

definition quiet_rest :: "'b conn \<Rightarrow> 'b conn \<Rightarrow> bool" where
  "quiet_rest c c' \<longleftrightarrow> c_strand c' = c_strand c \<and> accepted_bytes (c_out c') = accepted_bytes (c_out c) \<and>
     accepted_cbs (c_out c') = accepted_cbs (c_out c)"

lemma quiet_rest_refl [simp]: "quiet_rest c c"
  by (simp add: quiet_rest_def)

lemma quiet_rest_trans: "quiet_rest a b \<Longrightarrow> quiet_rest b c \<Longrightarrow> quiet_rest a c"
  by (simp add: quiet_rest_def)

section \<open>Room for a callback\<close>

text \<open>
  The assertion of \<open>append_completion_cb\<close> in a send: the data went out at once, or the last sequence of the
  queue has fewer callbacks than the limit.
\<close>

definition callback_room :: "'b conn_env \<Rightarrow> cb_id option \<Rightarrow> 'b list \<Rightarrow> 'b conn \<Rightarrow> bool" where
  "callback_room E cb bufs c \<longleftrightarrow> cb = None \<or>
     (case append_all_try_aggressive E bufs
         (True, observe (O_send_accepted cb (concat (map (bd_make_asio_const_buffer (e_driver E)) bufs))) c) of
       None \<Rightarrow> False
     | Some (all_aggressive, c1) \<Rightarrow> all_aggressive \<or> length (ws_cbs (last (c_write_queue c1))) < e_max_seq_length E)"

lemma callback_room_None [simp]: "callback_room E None bufs c"
  by (simp add: callback_room_def)

section \<open>Write operations keep it\<close>

lemma freeze_frame:
  assumes "queue_wf mx (c_write_queue c)" "ws_bufs (hd (c_write_queue c)) \<noteq> []"
  defines "c' \<equiv> freeze_first_buf_sequence_in_queue c"
  shows "\<exists>q. c' = c\<lparr>c_write_queue := q\<rparr> \<and> queue_wf mx q \<and> 2 \<le> length q \<and>
      hd q = hd (c_write_queue c) \<and> queue_bytes d (tl q) = queue_bytes d (tl (c_write_queue c)) \<and>
      queue_cbs q = queue_cbs (c_write_queue c) \<and>
      filter (\<lambda>ws. ws_bufs ws \<noteq> []) q = filter (\<lambda>ws. ws_bufs ws \<noteq> []) (c_write_queue c)"
proof -
  obtain ws q where q: "c_write_queue c = ws # q"
    using assms(1) by (cases "c_write_queue c") (auto simp: queue_wf_def)
  show ?thesis
  proof (cases "q = []")
    case True
    then show ?thesis
      using assms by (intro exI [of _ "[ws, ws_empty]"])
        (auto simp: c'_def freeze_first_buf_sequence_in_queue_def push_seq_def q queue_wf_def)
  next
    case False
    then have "2 \<le> length (ws # q)" by (cases q) simp_all
    then show ?thesis
      using assms by (intro exI [of _ "ws # q"])
        (auto simp: c'_def freeze_first_buf_sequence_in_queue_def q)
  qed
qed

context quiet_env
begin

lemma start_async_write_ok:
  assumes "conn_core E c" "ws_bufs (hd (c_write_queue c)) \<noteq> []"
    and "c_wire c @ concat bufs @ queue_bytes (e_driver E) (tl (c_write_queue c)) = acc"
    and "succeeded_cbs (c_out c) @ queue_cbs (c_write_queue c) = cbs"
  shows "conn_ok E acc cbs (start_async_write bufs n c) \<and> quiet_rest c (start_async_write bufs n c)"
proof -
  define c1 where "c1 = c\<lparr>
      c_watchdog := wd_start_watch_operation (make_write_timeout_per_buffer (c_cfg c) (word_of_nat n)) (c_watchdog c),
      c_out := c_out c @ [O_watch_started (make_write_timeout_per_buffer (c_cfg c) (word_of_nat n)), O_async_write_started n],
      c_async := Some bufs, c_is_write_operation_running := True\<rparr>"
  have start: "start_async_write bufs n c = freeze_first_buf_sequence_in_queue c1"
    by (simp add: start_async_write_def observe_def c1_def Let_def)
  have "queue_wf (e_max_seq_length E) (c_write_queue c1)" "ws_bufs (hd (c_write_queue c1)) \<noteq> []"
    using assms by (simp_all add: conn_core_def c1_def)
  from freeze_frame [OF this, of "e_driver E"] obtain q where
    q: "freeze_first_buf_sequence_in_queue c1 = c1\<lparr>c_write_queue := q\<rparr>"
      "queue_wf (e_max_seq_length E) q" "2 \<le> length q"
      "queue_bytes (e_driver E) (tl q) = queue_bytes (e_driver E) (tl (c_write_queue c1))"
      "queue_cbs q = queue_cbs (c_write_queue c1)"
    by blast
  show ?thesis
    using assms q by (simp add: start conn_ok_def conn_core_def conn_writing_def conn_stream_def quiet_rest_def c1_def)
qed

lemma after_write_error:
  assumes "conn_core E c" "c_async c = None" "2 \<le> length (c_write_queue c)"
    and "prefix (c_wire c) acc" "prefix (succeeded_cbs (c_out c)) cbs"
    and "ec_failed ec" "ec = Ec_operation_aborted \<longrightarrow> \<not> c_schedule_for_write_is_enabled c"
  shows "\<exists>c'. after_write (Suc fuel) E ec n c = Some c' \<and> conn_ok E acc cbs c' \<and> quiet_rest c c'"
proof -
  define c1 where "c1 = c\<lparr>c_watchdog := wd_cancel_watch_operation (c_watchdog c)\<rparr>"
  have "\<exists>c2. handle_io_error E ec c1 = Some c2 \<and> conn_core E c2 \<and> conn_failed c2 \<and>
      c_wire c2 = c_wire c \<and> succeeded_cbs (c_out c2) = succeeded_cbs (c_out c) \<and> quiet_rest c c2"
  proof (cases "ec = Ec_operation_aborted")
    case True
    then show ?thesis
      using assms by (simp add: handle_io_error_def c1_def conn_core_def conn_failed_def quiet_rest_def)
  next
    case False
    define reason where "reason = (if ec = Ec_eof then Eof else Io_error)"
    have h: "handle_io_error E ec c1 = shutdown_impl E reason c1"
      using False by (simp add: handle_io_error_def reason_def)
    obtain c2 where c2: "shutdown_impl E reason c1 = Some c2" "c_write_queue c2 = c_write_queue c1"
        "c_async c2 = c_async c1" "c_wire c2 = c_wire c1" "c_strand c2 = c_strand c1" "c_shutdown_was_called c2"
        "c_schedule_for_write_is_enabled c2 \<longrightarrow> c_schedule_for_write_is_enabled c1 \<and>
           (c_shutdown_was_called c1 \<or> \<not> c_socket_open c1)"
        "accepted_bytes (c_out c2) = accepted_bytes (c_out c1)" "accepted_cbs (c_out c2) = accepted_cbs (c_out c1)"
        "succeeded_cbs (c_out c2) = succeeded_cbs (c_out c1)"
      using shutdown_impl_quiet [of reason c1] by blast
    have "\<not> c_schedule_for_write_is_enabled c2"
      using c2(7) assms(1) by (auto simp: c1_def conn_core_def)
    moreover have "c_write_queue c1 = c_write_queue c" "c_async c1 = c_async c" "c_wire c1 = c_wire c"
        "c_strand c1 = c_strand c" "c_out c1 = c_out c"
      by (simp_all add: c1_def)
    ultimately show ?thesis
      using c2 assms(1-3) by (intro exI [of _ c2]) (simp add: h conn_core_def conn_failed_def quiet_rest_def)
  qed
  then obtain c2 where c2: "handle_io_error E ec c1 = Some c2" "conn_core E c2" "conn_failed c2"
      "c_wire c2 = c_wire c" "succeeded_cbs (c_out c2) = succeeded_cbs (c_out c)" "quiet_rest c c2"
    by blast
  have "after_write (Suc fuel) E ec n c = Some (c2\<lparr>c_out := c_out c2 @
      map (\<lambda>cb. O_send_complete cb Send_io_error) (ws_cbs (hd (c_write_queue c)))\<rparr>)"
    using assms(6) c2(1)
    by (simp add: c1_def run_callbacks_quiet ws_send_complete_cb_list_def)
  then show ?thesis
    using c2 assms(4,5) by (auto simp: conn_ok_def conn_core_def conn_failed_def quiet_rest_def)
qed

lemma after_write_success:
  assumes "conn_core E c" "c_async c = None" "2 \<le> length (c_write_queue c)"
    and "c_wire c @ queue_bytes (e_driver E) (tl (c_write_queue c)) = acc"
    and "succeeded_cbs (c_out c) @ queue_cbs (c_write_queue c) = cbs"
  shows "\<exists>c1. after_write (Suc fuel) E Ec_success n c = initiate_write_if_necessary fuel E c1 \<and>
      conn_ready E acc cbs c1 \<and> quiet_rest c c1 \<and> c_write_queue c1 = tl (c_write_queue c)"
proof -
  obtain ws q where q: "c_write_queue c = ws # q" "q \<noteq> []"
    using assms(3) by (cases "c_write_queue c"; cases "tl (c_write_queue c)") auto
  define c1 where "c1 = c\<lparr>c_watchdog := wd_cancel_watch_operation (c_watchdog c),
      c_out := c_out c @ map (\<lambda>cb. O_send_complete cb Send_success) (ws_cbs ws),
      c_write_queue := q, c_is_write_operation_running := False\<rparr>"
  have "after_write (Suc fuel) E Ec_success n c = initiate_write_if_necessary fuel E c1"
    using q by (simp add: ec_failed_def run_callbacks_quiet ws_send_complete_cb_list_def c1_def)
  moreover have "queue_wf (e_max_seq_length E) q"
    using assms(1,3) queue_wf_tl [of _ "ws # q"] by (simp add: conn_core_def q)
  then have "conn_ready E acc cbs c1"
    using assms by (simp add: conn_ready_def conn_core_def conn_stream_def c1_def q)
  ultimately show ?thesis
    by (intro exI [of _ c1]) (simp add: quiet_rest_def c1_def q)
qed

lemma conn_ok_observe_tx:
  "conn_ok E acc cbs c \<Longrightarrow> conn_ok E acc cbs (observe (O_inc_bytes_tx_sync n) c)"
  "conn_ok E acc cbs c \<Longrightarrow> conn_ok E acc cbs (observe (O_inc_bytes_tx_async n) c)"
  "quiet_rest c c' \<Longrightarrow> quiet_rest c (observe (O_inc_bytes_tx_sync n) c')"
  "quiet_rest c c' \<Longrightarrow> quiet_rest c (observe (O_inc_bytes_tx_async n) c')"
  by (auto simp: conn_ok_def conn_core_def conn_idle_def conn_writing_def conn_failed_def conn_stream_def
      quiet_rest_def observe_def)

text \<open>Enough fuel: two calls for each sequence that has data, and one to find there is none.\<close>

lemma initiate_write_ok:
  assumes "conn_ready E acc cbs c"
    and "2 * length (filter (\<lambda>ws. ws_bufs ws \<noteq> []) (c_write_queue c)) + 1 \<le> fuel"
  shows "\<exists>c'. initiate_write_if_necessary fuel E c = Some c' \<and> conn_ok E acc cbs c' \<and> quiet_rest c c'"
  using assms
proof (induction "length (filter (\<lambda>ws. ws_bufs ws \<noteq> []) (c_write_queue c))" arbitrary: c fuel)
  case 0
  have wf: "queue_wf (e_max_seq_length E) (c_write_queue c)"
    using "0.prems"(1) by (simp add: conn_ready_def conn_core_def)
  then have "c_write_queue c \<noteq> []" by (simp add: queue_wf_def)
  then have "ws_bufs (hd (c_write_queue c)) = []"
    using "0.hyps" by (cases "c_write_queue c") (simp_all split: if_splits)
  with wf have q: "c_write_queue c = [ws_empty]" by (rule queue_wf_hd_empty)
  obtain f where "fuel = Suc f" using "0.prems"(2) by (cases fuel) simp_all
  then have "initiate_write_if_necessary fuel E c = Some c"
    using "0.prems"(1) by (simp add: q ws_asio_bufs_def conn_ready_def)
  moreover have "conn_ok E acc cbs c"
    using "0.prems"(1) by (simp add: conn_ready_def conn_ok_def conn_idle_def q)
  ultimately show ?case by simp
next
  case (Suc m)
  let ?v = "bd_make_asio_const_buffer (e_driver E)"
  have core: "conn_core E c" and stopped: "\<not> c_is_write_operation_running c" "c_async c = None"
    and acc: "c_wire c @ queue_bytes (e_driver E) (c_write_queue c) = acc"
    and cbs: "succeeded_cbs (c_out c) @ queue_cbs (c_write_queue c) = cbs"
    using Suc.prems(1) by (auto simp: conn_ready_def conn_stream_def)
  have wf: "queue_wf (e_max_seq_length E) (c_write_queue c)" using core by (simp add: conn_core_def)
  obtain ws q where q: "c_write_queue c = ws # q"
    using wf by (cases "c_write_queue c") (auto simp: queue_wf_def)
  have ne: "ws_bufs ws \<noteq> []"
    using Suc.hyps(2) queue_wf_hd_empty [OF wf] by (auto simp: q)
  have "2 * Suc m + 1 \<le> fuel" using Suc.prems(2) Suc.hyps(2) by simp
  then have "fuel = Suc (Suc (fuel - 2))" "2 * m + 1 \<le> fuel - 2" by simp_all
  then obtain f where f: "fuel = Suc (Suc f)" "2 * m + 1 \<le> f" by blast
  define bufs where "bufs = map ?v (ws_bufs ws)"
  define bytes where "bytes = concat bufs"
  have total: "ws_asio_bufs (e_driver E) ws = (bufs, length bytes)"
    by (simp add: ws_asio_bufs_def bufs_def bytes_def length_concat Let_def)
  have stream: "c_wire c @ bytes @ queue_bytes (e_driver E) q = acc"
    using acc by (simp add: q bytes_def bufs_def)
  obtain t ec where w: "e_write E (c_nwrites c) bytes = (t, ec)" by fastforce
  have "bufs \<noteq> []" using ne by (simp add: bufs_def)
  define c1 where "c1 = observe (O_sync_write_finished t)
      ((observe (O_sync_write_started (length bytes)) c)\<lparr>c_wire := c_wire c @ take t bytes, c_nwrites := c_nwrites c + 1\<rparr>)"
  define c2 where "c2 = observe (O_hit_would_block_event (length bytes)) c1"
  have step: "initiate_write_if_necessary fuel E c =
     (if length bytes \<le> quik_sync_write_heuristic_size then
        if ec \<noteq> Ec_would_block then
          map_option (observe (O_inc_bytes_tx_sync t)) (after_write (Suc f) E ec t (freeze_first_buf_sequence_in_queue c1))
        else if length bytes \<le> t then
          map_option (observe (O_inc_bytes_tx_sync t)) (after_write (Suc f) E
            (make_std_compaible_error Sync_write_unexpected_results) t (freeze_first_buf_sequence_in_queue c2))
        else map_option (\<lambda>bufs. start_async_write bufs (length bytes - t) c2) (skip_transferred_part bufs t)
      else Some (start_async_write bufs (length bytes) c))"
    using stopped \<open>bufs \<noteq> []\<close> w
    by (simp add: f(1) q total socket_write_def observe_def c1_def c2_def bytes_def [symmetric] Let_def
        error_is_would_block_def map_conv_bind_option comp_def del: after_write.simps)
  have c1: "conn_core E c1" "c_write_queue c1 = c_write_queue c" "c_async c1 = None"
      "c_wire c1 = c_wire c @ take t bytes" "succeeded_cbs (c_out c1) = succeeded_cbs (c_out c)" "quiet_rest c c1"
      "c_schedule_for_write_is_enabled c1 = c_schedule_for_write_is_enabled c"
    using core stopped by (simp_all add: c1_def observe_def conn_core_def quiet_rest_def)
  have c2: "conn_core E c2" "c_write_queue c2 = c_write_queue c" "c_async c2 = None"
      "c_wire c2 = c_wire c @ take t bytes" "succeeded_cbs (c_out c2) = succeeded_cbs (c_out c)" "quiet_rest c c2"
    using c1 by (simp_all add: c2_def observe_def conn_core_def quiet_rest_def)
  have bs: "bytes = concat (map ?v (ws_bufs ws))" by (simp add: bytes_def bufs_def)
  have "queue_wf (e_max_seq_length E) (c_write_queue c1)" "ws_bufs (hd (c_write_queue c1)) \<noteq> []"
    using wf ne by (simp_all add: c1(2) q)
  from freeze_frame [OF this, of "e_driver E"] obtain fq where
    fq: "freeze_first_buf_sequence_in_queue c1 = c1\<lparr>c_write_queue := fq\<rparr>"
      "queue_wf (e_max_seq_length E) fq" "2 \<le> length fq" "hd fq = ws"
      "queue_bytes (e_driver E) (tl fq) = queue_bytes (e_driver E) q" "queue_cbs fq = queue_cbs (c_write_queue c)"
      "filter (\<lambda>ws. ws_bufs ws \<noteq> []) fq = filter (\<lambda>ws. ws_bufs ws \<noteq> []) (c_write_queue c)"
    by (auto simp: c1(2) q)
  define c3 where "c3 = c1\<lparr>c_write_queue := fq\<rparr>"
  have c3: "conn_core E c3" "c_async c3 = None" "c_write_queue c3 = fq" "c_wire c3 = c_wire c @ take t bytes"
      "succeeded_cbs (c_out c3) = succeeded_cbs (c_out c)" "quiet_rest c c3"
    using c1 fq(2) by (simp_all add: c3_def conn_core_def quiet_rest_def)
  consider (big) "\<not> length bytes \<le> quik_sync_write_heuristic_size"
    | (sync) "length bytes \<le> quik_sync_write_heuristic_size" "ec \<noteq> Ec_would_block" "ec = Ec_success"
    | (error) "length bytes \<le> quik_sync_write_heuristic_size" "ec \<noteq> Ec_would_block" "ec \<noteq> Ec_success"
    | (block) "length bytes \<le> quik_sync_write_heuristic_size" "ec = Ec_would_block"
    by blast
  then show ?case
  proof cases
    case big
    then show ?thesis
      using start_async_write_ok [of c bufs acc cbs "length bytes"] core ne stream cbs
      by (simp add: step q bytes_def)
  next
    case sync
    then have "take t bytes = bytes" using write_all [OF w] by simp
    then obtain c4 where c4: "after_write (Suc f) E Ec_success t c3 = initiate_write_if_necessary f E c4"
        "conn_ready E acc cbs c4" "quiet_rest c3 c4" "c_write_queue c4 = tl fq"
      using after_write_success [of c3 acc cbs f t] c3 fq(3,5,6) stream cbs by auto
    have "m = length (filter (\<lambda>ws. ws_bufs ws \<noteq> []) (tl fq))"
    proof -
      have "fq = ws # tl fq" using fq(3,4) by (cases fq) simp_all
      then have "filter (\<lambda>ws. ws_bufs ws \<noteq> []) fq = ws # filter (\<lambda>ws. ws_bufs ws \<noteq> []) (tl fq)"
        using ne by (metis (mono_tags, lifting) filter.simps(2))
      then show ?thesis using Suc.hyps(2) fq(7) by simp
    qed
    then obtain c5 where c5: "initiate_write_if_necessary f E c4 = Some c5" "conn_ok E acc cbs c5" "quiet_rest c4 c5"
      using Suc.hyps(1) [of c4 f] c4 f(2) by auto
    have "quiet_rest c c5"
      using c3(6) c4(3) c5(3) by (blast intro: quiet_rest_trans)
    then show ?thesis
      using sync c4(1) c5(1,2) by (auto simp: step fq(1) c3_def [symmetric] intro!: conn_ok_observe_tx)
  next
    case error
    then have "ec_failed ec" "ec \<noteq> Ec_operation_aborted"
      using write_not_aborted [OF w] by (simp_all add: ec_failed_def)
    moreover have "prefix (c_wire c3) acc"
      using stream c3(4) by (metis append_take_drop_id append.assoc prefixI)
    moreover have "prefix (succeeded_cbs (c_out c3)) cbs"
      using cbs c3(5) by (metis prefixI)
    ultimately obtain c4 where "after_write (Suc f) E ec t c3 = Some c4" "conn_ok E acc cbs c4" "quiet_rest c3 c4"
      using after_write_error [of c3 acc cbs ec f t] c3 fq(3) by auto
    then show ?thesis
      using error c3(6) quiet_rest_trans by (auto simp: step fq(1) c3_def [symmetric] intro!: conn_ok_observe_tx)
  next
    case block
    then have "t < length bytes"
      using write_le [OF w] write_all [OF w] by (cases "t = length bytes") auto
    then obtain rest where rest: "skip_transferred_part bufs t = Some rest" "concat rest = drop t bytes"
      using skip_transferred_part_Some [of t bufs] by (auto simp: bytes_def)
    show ?thesis
      using start_async_write_ok [of c2 rest acc cbs "length bytes - t"] c2 ne stream cbs block \<open>t < length bytes\<close>
        rest quiet_rest_trans [OF c2(6)] by (auto simp: step q)
  qed
qed

end

section \<open>Every operation keeps it\<close>

definition conn_inv :: "'b conn_env \<Rightarrow> 'b conn \<Rightarrow> bool" where
  "conn_inv E c \<longleftrightarrow> conn_ok E (accepted_bytes (c_out c)) (accepted_cbs (c_out c)) c \<and>
     (\<forall>w\<in>set (c_strand c). work_ok w)"

lemma conn_invI:
  assumes "conn_ok E acc cbs c'" "quiet_rest c c'" "\<forall>w\<in>set (c_strand c). work_ok w"
    and "accepted_bytes (c_out c) = acc" "accepted_cbs (c_out c) = cbs"
  shows "conn_inv E c'"
  using assms by (simp add: conn_inv_def quiet_rest_def)

lemma queue_wf_set_cbs:
  fixes cb :: cb_id
  assumes "queue_wf mx (c_write_queue c)" "ws_bufs (last (c_write_queue c)) \<noteq> []"
  defines "c' \<equiv> set_back_seq c ((last (c_write_queue c))\<lparr>ws_cbs := ws_cbs (last (c_write_queue c)) @ [cb]\<rparr>)"
  shows "queue_wf mx (c_write_queue c')" "queue_bytes d (c_write_queue c') = queue_bytes d (c_write_queue c)"
    "queue_cbs (c_write_queue c') = queue_cbs (c_write_queue c) @ [cb]"
    "length (c_write_queue c') = length (c_write_queue c)"
    "2 \<le> length (c_write_queue c) \<Longrightarrow> queue_bytes d (tl (c_write_queue c')) = queue_bytes d (tl (c_write_queue c))"
proof -
  obtain q ws where q: "c_write_queue c = q @ [ws]" using assms(1) by (rule queue_wf_obtain)
  show "queue_wf mx (c_write_queue c')" using assms(1,2) by (auto simp: c'_def set_back_seq_def q queue_wf_snoc)
  show "queue_bytes d (c_write_queue c') = queue_bytes d (c_write_queue c)"
    "queue_cbs (c_write_queue c') = queue_cbs (c_write_queue c) @ [cb]"
    "length (c_write_queue c') = length (c_write_queue c)"
    by (simp_all add: c'_def set_back_seq_def q)
  show "queue_bytes d (tl (c_write_queue c')) = queue_bytes d (tl (c_write_queue c))" if "2 \<le> length (c_write_queue c)"
    using that by (cases q) (simp_all add: c'_def set_back_seq_def q)
qed

context quiet_env
begin

lemma initiate_when_running:
  "c_write_queue c \<noteq> [] \<Longrightarrow> c_is_write_operation_running c \<Longrightarrow>
   initiate_write_if_necessary (write_fuel c) E c = Some c"
  by (simp add: write_fuel_def numeral_3_eq_3)

lemma write_fuel_enough:
  "2 * length (filter P (c_write_queue c)) + 1 \<le> write_fuel c"
  using length_filter_le [of P "c_write_queue c"] unfolding write_fuel_def by linarith

lemma initiate_appended:
  assumes "appendable E False c" "conn_core E c" "conn_stream E c = acc"
    and "succeeded_cbs (c_out c) @ queue_cbs (c_write_queue c) = cbs"
  shows "\<exists>c'. initiate_write_if_necessary (write_fuel c) E c = Some c' \<and> conn_ok E acc cbs c' \<and> quiet_rest c c'"
proof (cases "c_is_write_operation_running c")
  case True
  have "c_write_queue c \<noteq> []" using assms(2) by (auto simp: conn_core_def queue_wf_def)
  then show ?thesis
    using True assms by (auto simp: initiate_when_running conn_ok_def conn_writing_def appendable_def)
next
  case False
  then show ?thesis
    using initiate_write_ok [of acc cbs c "write_fuel c"] write_fuel_enough assms
    by (auto simp: conn_ready_def appendable_def)
qed

text \<open>A send does not return when the assertion of \<open>append_completion_cb\<close> fails, and only then.\<close>

lemma send_bufs_ok:
  assumes inv: "conn_inv E c" and on: "c_schedule_for_write_is_enabled c" and ok: "work_ok (W_send cb bufs)"
  shows "case send_bufs E cb bufs c of None \<Rightarrow> \<not> callback_room E cb bufs c | Some c' \<Rightarrow> conn_inv E c'"
proof -
  let ?bytes = "concat (map (bd_make_asio_const_buffer (e_driver E)) bufs)"
  define acc where "acc = accepted_bytes (c_out c) @ ?bytes"
  define new where "new = (case cb of None \<Rightarrow> [] | Some cb \<Rightarrow> [cb])"
  define cbs where "cbs = accepted_cbs (c_out c) @ new"
  define c0 where "c0 = observe (O_send_accepted cb ?bytes) c"
  have works: "\<forall>w\<in>set (c_strand c). work_ok w" using inv by (simp add: conn_inv_def)
  have good: "conn_core E c" "conn_idle c \<or> conn_writing c" "conn_stream E c = accepted_bytes (c_out c)"
      "succeeded_cbs (c_out c) @ queue_cbs (c_write_queue c) = accepted_cbs (c_out c)"
    using inv on by (auto simp: conn_inv_def conn_ok_def conn_failed_def)
  have c0: "appendable E True c0" "conn_core E c0" "conn_stream E c0 = accepted_bytes (c_out c)"
      "succeeded_cbs (c_out c0) @ queue_cbs (c_write_queue c0) = accepted_cbs (c_out c)"
      "accepted_bytes (c_out c0) = acc" "accepted_cbs (c_out c0) = cbs" "c_strand c0 = c_strand c"
    using good by (auto simp: c0_def observe_def appendable_def conn_core_def conn_idle_def conn_writing_def
        conn_stream_def acc_def cbs_def new_def split: option.splits)
  obtain be c1 where c1: "append_all_try_aggressive E bufs (True, c0) = Some (be, c1)"
      "same_core c0 c1" "appendable E be c1" "conn_stream E c1 = acc"
      "queue_cbs (c_write_queue c1) = queue_cbs (c_write_queue c0)"
      "be \<Longrightarrow> bufs \<noteq> [] \<Longrightarrow> \<not> c_is_write_operation_running c0"
      "bufs \<noteq> [] \<Longrightarrow> \<not> be \<Longrightarrow> ws_bufs (last (c_write_queue c1)) \<noteq> []" "bufs = [] \<Longrightarrow> be"
    using append_all_stream [OF c0(1), of bufs] c0(3) by (auto simp: acc_def)
  have core1: "conn_core E c1"
    using c0(2) c1(2,3) by (simp add: conn_core_def same_core_def appendable_def)
  have rest1: "accepted_bytes (c_out c1) = acc" "accepted_cbs (c_out c1) = cbs" "\<forall>w\<in>set (c_strand c1). work_ok w"
      "succeeded_cbs (c_out c1) @ queue_cbs (c_write_queue c1) = accepted_cbs (c_out c)"
    using c0 c1(2,5) works by (simp_all add: same_core_def)
  show ?thesis
  proof (cases be)
    case True
    have "conn_idle c1 \<or> conn_writing c1"
      using c1(3) True by (auto simp: appendable_def conn_idle_def conn_writing_def)
    moreover have "queue_cbs (c_write_queue c1) = []" if "cb \<noteq> None"
      using that ok c1(2,3,6) True by (auto simp: same_core_def appendable_def)
    ultimately have "conn_inv E (c1\<lparr>c_out := c_out c1 @ map (\<lambda>cb. O_send_complete cb Send_success) new\<rparr>)"
      using c1(4) core1 rest1
      by (cases cb) (auto simp: conn_inv_def conn_ok_def conn_core_def conn_idle_def conn_writing_def
          conn_stream_def cbs_def new_def)
    moreover have "send_bufs E cb bufs c =
        Some (c1\<lparr>c_out := c_out c1 @ map (\<lambda>cb. O_send_complete cb Send_success) new\<rparr>)"
      unfolding send_bufs_def Let_def c0_def [symmetric] c1(1) using True
      by (cases cb) (simp_all add: run_send_completion_callback_def send_cb_quiet observe_def new_def)
    ultimately show ?thesis by simp
  next
    case False
    then have "bufs \<noteq> []" using c1(8) by auto
    then have ne: "ws_bufs (last (c_write_queue c1)) \<noteq> []" using c1(7) False by blast
    have app: "appendable E False c1" using c1(3) by (simp add: appendable_def)
    show ?thesis
    proof (cases cb)
      case None
      obtain c3 where c3: "initiate_write_if_necessary (write_fuel c1) E c1 = Some c3"
          "conn_ok E acc cbs c3" "quiet_rest c1 c3"
        using initiate_appended [OF app core1 c1(4), of cbs] rest1(4) None by (auto simp: cbs_def new_def)
      have "conn_inv E c3" by (rule conn_invI [OF c3(2,3) rest1(3,1,2)])
      then show ?thesis
        unfolding send_bufs_def Let_def c0_def [symmetric] c1(1) using c3(1) False None by simp
    next
      case (Some k)
      have room: "callback_room E cb bufs c \<longleftrightarrow> length (ws_cbs (last (c_write_queue c1))) < e_max_seq_length E"
        using c1(1) False Some by (simp add: callback_room_def c0_def)
      define c2 where "c2 = set_back_seq c1
          ((last (c_write_queue c1))\<lparr>ws_cbs := ws_cbs (last (c_write_queue c1)) @ [k]\<rparr>)"
      have wf1: "queue_wf (e_max_seq_length E) (c_write_queue c1)" using core1 by (simp add: conn_core_def)
      note q2 = queue_wf_set_cbs [OF wf1 ne, where cb = k, folded c2_def]
      have c2: "c_async c2 = c_async c1" "c_wire c2 = c_wire c1" "c_out c2 = c_out c1" "c_strand c2 = c_strand c1"
          "c_is_write_operation_running c2 = c_is_write_operation_running c1"
          "c_schedule_for_write_is_enabled c2 = c_schedule_for_write_is_enabled c1"
          "c_shutdown_was_called c2 = c_shutdown_was_called c1" "c_socket_open c2 = c_socket_open c1"
        by (simp_all add: c2_def set_back_seq_def)
      have "conn_core E c2" "appendable E False c2"
        using core1 app q2 c2 by (simp_all add: conn_core_def appendable_def)
      moreover have "conn_stream E c2 = acc"
        using c1(4) app c2 q2(2) q2(5) by (auto simp: conn_stream_def appendable_def split: option.splits)
      moreover have "succeeded_cbs (c_out c2) @ queue_cbs (c_write_queue c2) = cbs"
        using rest1(4) c2 q2(3) Some by (simp add: cbs_def new_def flip: append_assoc)
      ultimately obtain c3 where c3: "initiate_write_if_necessary (write_fuel c2) E c2 = Some c3"
          "conn_ok E acc cbs c3" "quiet_rest c2 c3"
        using initiate_appended by blast
      have "conn_inv E c3" using conn_invI [OF c3(2,3)] rest1 c2 by simp
      then show ?thesis
        unfolding send_bufs_def Let_def c0_def [symmetric] c1(1)
        using c3(1) False Some room by (simp add: ws_append_completion_cb_def c2_def [symmetric])
    qed
  qed
qed

lemma send_bufs_no_room: "\<not> callback_room E cb bufs c \<Longrightarrow> send_bufs E cb bufs c = None"
  by (auto simp: callback_room_def send_bufs_def ws_append_completion_cb_def Let_def split: option.splits if_splits)

lemma few_callbacks_room:
  assumes "conn_inv E c" "c_schedule_for_write_is_enabled c" "length (queue_cbs (c_write_queue c)) < e_max_seq_length E"
  shows "callback_room E cb bufs c"
proof -
  define c0 where "c0 = observe (O_send_accepted cb (concat (map (bd_make_asio_const_buffer (e_driver E)) bufs))) c"
  have "appendable E True c0"
    using assms(1,2) by (auto simp: c0_def observe_def appendable_def conn_inv_def conn_ok_def conn_core_def
        conn_idle_def conn_writing_def conn_failed_def)
  from append_all_stream [OF this, of bufs] obtain be c1 where
    c1: "append_all_try_aggressive E bufs (True, c0) = Some (be, c1)" "appendable E be c1"
      "queue_cbs (c_write_queue c1) = queue_cbs (c_write_queue c0)" by auto
  have "c_write_queue c1 \<noteq> []" using c1(2) by (auto simp: appendable_def queue_wf_def)
  then have "length (ws_cbs (last (c_write_queue c1))) \<le> length (queue_cbs (c_write_queue c1))"
    by (cases "c_write_queue c1" rule: rev_cases) simp_all
  then show ?thesis using assms(3) c1(1,3) by (simp add: callback_room_def c0_def observe_def)
qed

lemma shutdown_impl_inv:
  assumes "conn_inv E c"
  shows "\<exists>c'. shutdown_impl E reason c = Some c' \<and> conn_inv E c'"
proof -
  obtain c' where c': "shutdown_impl E reason c = Some c'" "c_write_queue c' = c_write_queue c"
      "c_async c' = c_async c" "c_is_write_operation_running c' = c_is_write_operation_running c"
      "c_wire c' = c_wire c" "c_strand c' = c_strand c" "c_shutdown_was_called c'"
      "c_schedule_for_write_is_enabled c' \<longrightarrow> c_schedule_for_write_is_enabled c \<and>
         (c_shutdown_was_called c \<or> \<not> c_socket_open c)"
      "accepted_bytes (c_out c') = accepted_bytes (c_out c)" "accepted_cbs (c_out c') = accepted_cbs (c_out c)"
      "succeeded_cbs (c_out c') = succeeded_cbs (c_out c)"
    using shutdown_impl_quiet [of reason c] by blast
  have "\<not> c_schedule_for_write_is_enabled c'"
    using c'(8) assms by (auto simp: conn_inv_def conn_ok_def conn_core_def)
  then have "conn_inv E c'"
    using c' assms
    by (auto simp: conn_inv_def conn_ok_def conn_core_def conn_idle_def conn_writing_def conn_failed_def conn_stream_def)
  with c'(1) show ?thesis by blast
qed

lemma handle_io_error_inv:
  "conn_inv E c \<Longrightarrow> \<exists>c'. handle_io_error E ec c = Some c' \<and> conn_inv E c'"
  using shutdown_impl_inv by (simp add: handle_io_error_def)

lemma async_write_completed_inv:
  assumes inv: "conn_inv E c" and bufs: "c_async c = Some bufs"
    and "n \<le> length (concat bufs)" "ec = Ec_success \<longleftrightarrow> n = length (concat bufs)"
    and "ec = Ec_operation_aborted \<longrightarrow> \<not> c_schedule_for_write_is_enabled c"
  shows "\<exists>c'. on_async_write_completed E ec n c = Some c' \<and> conn_inv E c'"
proof -
  define acc where "acc = accepted_bytes (c_out c)"
  define cbs where "cbs = accepted_cbs (c_out c)"
  define c1 where "c1 = observe (O_async_write_finished n)
      (c\<lparr>c_wire := c_wire c @ take n (concat bufs), c_async := None\<rparr>)"
  have writing: "conn_core E c" "2 \<le> length (c_write_queue c)"
      "c_wire c @ concat bufs @ queue_bytes (e_driver E) (tl (c_write_queue c)) = acc"
      "succeeded_cbs (c_out c) @ queue_cbs (c_write_queue c) = cbs"
    using inv bufs by (auto simp: conn_inv_def conn_ok_def conn_failed_def conn_idle_def conn_writing_def
        conn_stream_def acc_def cbs_def)
  have c1: "conn_core E c1" "c_async c1 = None" "c_write_queue c1 = c_write_queue c"
      "c_wire c1 = c_wire c @ take n (concat bufs)" "succeeded_cbs (c_out c1) = succeeded_cbs (c_out c)"
      "quiet_rest c c1" "c_schedule_for_write_is_enabled c1 = c_schedule_for_write_is_enabled c"
    using writing(1) by (simp_all add: c1_def observe_def conn_core_def quiet_rest_def)
  obtain f where f: "write_fuel c1 = Suc f" "2 * length (c_write_queue c) + 2 \<le> f"
    by (simp add: write_fuel_def c1 numeral_3_eq_3)
  have "\<exists>c2. after_write (write_fuel c1) E ec n c1 = Some c2 \<and> conn_ok E acc cbs c2 \<and> quiet_rest c1 c2"
  proof (cases "ec = Ec_success")
    case True
    then have "take n (concat bufs) = concat bufs" using assms(4) by simp
    then obtain c2 where c2: "after_write (Suc f) E Ec_success n c1 = initiate_write_if_necessary f E c2"
        "conn_ready E acc cbs c2" "quiet_rest c1 c2" "c_write_queue c2 = tl (c_write_queue c1)"
      using after_write_success [of c1 acc cbs f n] c1 writing by auto
    have "2 * length (filter (\<lambda>ws. ws_bufs ws \<noteq> []) (c_write_queue c2)) + 1 \<le> f"
      using length_filter_le [of "\<lambda>ws. ws_bufs ws \<noteq> []" "tl (c_write_queue c)"] f(2) c2(4) c1(3) by simp
    from initiate_write_ok [OF c2(2) this] c2 show ?thesis
      using True by (auto simp: f(1) simp del: after_write.simps intro: quiet_rest_trans)
  next
    case False
    have "prefix (c_wire c1) acc"
      using writing(3) c1(4) by (metis append_take_drop_id append.assoc prefixI)
    moreover have "prefix (succeeded_cbs (c_out c1)) cbs"
      using writing(4) c1(5) by (metis prefixI)
    ultimately show ?thesis
      unfolding f(1) using after_write_error [of c1 acc cbs ec f n] c1 writing(2) False assms(5)
      by (simp add: ec_failed_def del: after_write.simps)
  qed
  then obtain c2 where c2: "after_write (write_fuel c1) E ec n c1 = Some c2" "conn_ok E acc cbs c2" "quiet_rest c1 c2"
    by blast
  have "on_async_write_completed E ec n c = Some (observe (O_inc_bytes_tx_async n) c2)"
    unfolding on_async_write_completed_def bufs option.case Let_def c1_def [symmetric] c2(1) by simp
  moreover have "conn_inv E (observe (O_inc_bytes_tx_async n) c2)"
    using conn_invI [OF conn_ok_observe_tx(2) [OF c2(2)] conn_ok_observe_tx(4) [OF quiet_rest_trans [OF c1(6) c2(3)]]]
      inv by (simp add: acc_def cbs_def conn_inv_def)
  ultimately show ?thesis by blast
qed

end

section \<open>The state machine keeps it\<close>

text \<open>What does not touch the data path.\<close>

definition data_path :: "'b conn \<Rightarrow> _" where
  "data_path c = ((c_write_queue c, c_async c, c_is_write_operation_running c, c_wire c),
     (c_schedule_for_write_is_enabled c, c_shutdown_was_called c, c_socket_open c),
     (accepted_bytes (c_out c), accepted_cbs (c_out c), succeeded_cbs (c_out c)))"

lemma conn_inv_data_path:
  "data_path c' = data_path c \<Longrightarrow> \<forall>w\<in>set (c_strand c'). work_ok w \<Longrightarrow> conn_inv E c \<Longrightarrow> conn_inv E c'"
  by (auto simp: data_path_def conn_inv_def conn_ok_def conn_core_def conn_idle_def conn_writing_def
      conn_failed_def conn_stream_def)

lemma data_path_simps [simp]:
  "data_path (c\<lparr>c_read_buffer := b\<rparr>) = data_path c"
  "data_path (c\<lparr>c_pending_reads := n\<rparr>) = data_path c"
  "data_path (c\<lparr>c_read_is_enabled := e\<rparr>) = data_path c"
  "data_path (c\<lparr>c_input_handler := h\<rparr>) = data_path c"
  "data_path (c\<lparr>c_shutdown_handler := sh\<rparr>) = data_path c"
  "data_path (c\<lparr>c_watchdog := w\<rparr>) = data_path c"
  "data_path (c\<lparr>c_strand := s\<rparr>) = data_path c"
  by (simp_all add: data_path_def)

lemma data_path_observe [simp]:
  "data_path (observe (O_inc_bytes_rx_async n) c) = data_path c"
  "data_path (observe (O_input bs) c) = data_path c"
  "data_path (observe (O_read_started n) c) = data_path c"
  "data_path (observe (O_options_cb r) c) = data_path c"
  "data_path (observe (O_socket_options opts) c) = data_path c"
  "data_path (observe (O_send_complete cb Send_rejected_schedule_send) c) = data_path c"
  by (simp_all add: data_path_def observe_def)

lemma observe_strand [simp]: "c_strand (observe ob c) = c_strand c"
  by (simp add: observe_def)

lemma observe_simps [simp]:
  "c_read_buffer (observe ob c) = c_read_buffer c" "c_input_handler (observe ob c) = c_input_handler c"
  "c_pending_reads (observe ob c) = c_pending_reads c" "c_cfg (observe ob c) = c_cfg c"
  "c_read_is_enabled (observe ob c) = c_read_is_enabled c"
  "c_schedule_for_write_is_enabled (observe ob c) = c_schedule_for_write_is_enabled c"
  by (simp_all add: observe_def)

text \<open>A completed read, step by step.\<close>

definition next_buffer :: "'b conn_env \<Rightarrow> simple_buffer \<Rightarrow> simple_buffer option \<Rightarrow> 'b conn \<Rightarrow> simple_buffer" where
  "next_buffer E left nb c =
     (case nb of
        Some b \<Rightarrow> if sb_size b > 0 then b else bd_reallocate_input (e_driver E) left (m_input_buffer_size (c_cfg c))
      | None \<Rightarrow> bd_reallocate_input (e_driver E) left (m_input_buffer_size (c_cfg c)))"

lemma input_handled_eq:
  "input_handled E left nb c =
     (let c4 = c\<lparr>c_read_buffer := next_buffer E left nb c\<rparr> in if c_read_is_enabled c then initiate_read c4 else c4)"
  by (simp add: input_handled_def next_buffer_def Let_def split: option.split)

lemma input_arrives_eq:
  "input_arrives E len c = (if len \<le> sb_size (c_read_buffer c)
     then map_option (\<lambda>buffer. (buffer, observe (O_input (sb_view buffer))
         ((observe (O_inc_bytes_rx_async len) c)\<lparr>c_read_buffer := sb_default\<rparr>)))
       (bd_reduce_size_input (e_driver E) (c_read_buffer c) len)
     else None)"
  by (cases "bd_reduce_size_input (e_driver E) (c_read_buffer c) len")
    (simp_all add: input_arrives_def sb_move_construct_eq Let_def observe_def)

lemma after_read_cases:
  assumes "after_read E ec bytes c = Some c'" "\<not> ec_failed ec"
  obtains buffer b2 nb c2 c3 where
    "bd_reduce_size_input (e_driver E) (c_read_buffer c) (length bytes) = Some buffer"
    "length bytes \<le> sb_size (c_read_buffer c)"
    "c2 = observe (O_input (sb_view buffer)) ((observe (O_inc_bytes_rx_async (length bytes)) c)\<lparr>c_read_buffer := sb_default\<rparr>)"
    "e_input E (c_input_handler c) buffer c2 = Some (b2, nb, c3)"
    "c' = (let c4 = c3\<lparr>c_read_buffer := next_buffer E b2 nb c3\<rparr> in if c_read_is_enabled c3 then initiate_read c4 else c4)"
proof -
  obtain buffer c2 where "input_arrives E (length bytes) c = Some (buffer, c2)"
      "do { (b2, nb, c) \<leftarrow> e_input E (c_input_handler c2) buffer c2; Some (input_handled E b2 nb c) } = Some c'"
    using assms by (auto simp: after_read_def bind_eq_Some_conv)
  then show ?thesis
    using that by (auto simp: input_arrives_eq input_handled_eq observe_def bind_eq_Some_conv split: if_splits)
qed

text \<open>The bytes that arrived are the contents of the buffer the handler gets.\<close>

lemma input_arrives_bytes:
  assumes "buffer_driver_laws (e_driver E)" "sb_wf (c_read_buffer c)" "length bytes \<le> sb_size (c_read_buffer c)"
    and "0 < c_pending_reads c"
  obtains buffer where "sb_wf buffer" "sb_view buffer = bytes"
    "do { c \<leftarrow> read_completes bytes c; input_arrives E (length bytes) c } = Some (buffer,
       c\<lparr>c_pending_reads := c_pending_reads c - 1, c_read_buffer := sb_default,
         c_out := c_out c @ [O_inc_bytes_rx_async (length bytes), O_input bytes]\<rparr>)"
proof -
  define rb where "rb = sb_write (c_read_buffer c) 0 bytes"
  have rb: "sb_wf rb" "length bytes \<le> sb_size rb" "take (length bytes) (sb_view rb) = bytes"
    using assms(2,3) by (simp_all add: rb_def sb_write_def sb_wf_def sb_view_def min_absorb1 take_blit_before)
  obtain buffer where buffer: "bd_reduce_size_input (e_driver E) rb (length bytes) = Some buffer"
      "sb_wf buffer" "sb_view buffer = bytes"
    using buffer_driver_laws.reduce_size_input [OF assms(1) rb(1,2)] rb(3) by auto
  show ?thesis
    by (rule that [OF buffer(2,3)])
      (use assms(4) buffer rb(2) in \<open>simp add: input_arrives_eq rb_def [symmetric] observe_def Let_def\<close>)
qed

lemma read_completed_eq:
  assumes "buffer_driver_laws (e_driver E)" "sb_wf (c_read_buffer c)" "length bytes \<le> sb_size (c_read_buffer c)"
    and "0 < c_pending_reads c"
  obtains buffer where "sb_wf buffer" "sb_view buffer = bytes"
    "on_async_read_completed E Ec_success bytes c = do {
       (left, nb, c3) \<leftarrow> e_input E (c_input_handler c) buffer
         (c\<lparr>c_pending_reads := c_pending_reads c - 1, c_read_buffer := sb_default,
            c_out := c_out c @ [O_inc_bytes_rx_async (length bytes), O_input bytes]\<rparr>);
       Some (let c4 = c3\<lparr>c_read_buffer := next_buffer E left nb c3\<rparr> in if c_read_is_enabled c3 then initiate_read c4 else c4) }"
proof -
  obtain buffer where buffer: "sb_wf buffer" "sb_view buffer = bytes"
    "do { c \<leftarrow> read_completes bytes c; input_arrives E (length bytes) c } = Some (buffer,
       c\<lparr>c_pending_reads := c_pending_reads c - 1, c_read_buffer := sb_default,
         c_out := c_out c @ [O_inc_bytes_rx_async (length bytes), O_input bytes]\<rparr>)"
    by (rule input_arrives_bytes [OF assms])
  have "on_async_read_completed E Ec_success bytes c = do {
      (buffer, c) \<leftarrow> (do { c \<leftarrow> read_completes bytes c; input_arrives E (length bytes) c });
      (b2, nb, c) \<leftarrow> e_input E (c_input_handler c) buffer c;
      Some (input_handled E b2 nb c) }"
    using assms(4) by (simp add: on_async_read_completed_def after_read_def ec_failed_def)
  then show ?thesis
    unfolding buffer(3) by (intro that [OF buffer(1,2)]) (simp add: input_handled_eq)
qed

lemma initiate_read_data_path [simp]: "data_path (initiate_read c) = data_path c" "c_strand (initiate_read c) = c_strand c"
  by (simp_all add: initiate_read_def Let_def)

lemma conn_stream_prefix: "prefix (c_wire c) (conn_stream E c)"
  by (simp add: conn_stream_def)

lemma conn_inv_prefix: "conn_inv E c \<Longrightarrow> prefix (c_wire c) (accepted_bytes (c_out c))"
  using conn_stream_prefix [of c E] by (auto simp: conn_inv_def conn_ok_def)

lemma conn_inv_works: "conn_inv E c \<Longrightarrow> \<forall>w\<in>set (c_strand c). work_ok w"
  by (simp add: conn_inv_def)

context quiet_env
begin

lemma send_work_inv:
  assumes "conn_inv E c" "work_ok (W_send cb bufs)" "send_work E cb bufs c = Some c'"
  shows "conn_inv E c'"
proof (cases "c_schedule_for_write_is_enabled c")
  case True
  then show ?thesis
    using send_bufs_ok [OF assms(1) True assms(2)] assms(3) by (simp add: send_work_def)
next
  case False
  then have "c' = c \<or> (\<exists>k. c' = observe (O_send_complete k Send_rejected_schedule_send) c)"
    using assms(3) by (auto simp: send_work_def run_send_completion_callback_def send_cb_quiet split: option.splits)
  then show ?thesis
    using conn_inv_data_path [OF _ _ assms(1)] conn_inv_works [OF assms(1)] assms(1) by auto
qed

lemma strand_work_inv:
  assumes "conn_inv E c" "work_ok w" "run_strand_work E w c = Some c'"
  shows "conn_inv E c'"
proof (cases w)
  case W_shutdown
  then show ?thesis using shutdown_impl_inv [OF assms(1), of User_initiated] assms(3) by auto
next
  case (W_send cb bufs)
  then show ?thesis using send_work_inv [OF assms(1)] assms by simp
next
  case (W_write_timeout key)
  then show ?thesis
    using shutdown_impl_inv [OF assms(1), of Write_timeout] assms
    by (auto simp: handle_write_operation_timeout_impl_def split: if_splits)
next
  case (W_update_socket_options cfg cb)
  have "data_path (update_socket_options_impl E cfg cb c) = data_path c"
    "c_strand (update_socket_options_impl E cfg cb c) = c_strand c"
    by (auto simp: update_socket_options_impl_def Let_def case_prod_beta)
  then show ?thesis
    using W_update_socket_options conn_inv_data_path [OF _ _ assms(1), of c'] conn_inv_works [OF assms(1)] assms(3) by auto
qed (use assms conn_inv_data_path [OF _ _ assms(1), of c'] conn_inv_works [OF assms(1)] in
    \<open>auto simp: start_reading_work_def stop_reading_work_def reset_input_handler_impl_def
      reset_shutdown_handler_impl_def split: if_splits\<close>)

lemma run_works_inv:
  "conn_inv E c \<Longrightarrow> \<forall>w\<in>set ws. work_ok w \<Longrightarrow> run_works E ws c = Some c' \<Longrightarrow> conn_inv E c'"
proof (induction ws arbitrary: c)
  case (Cons w ws)
  then obtain c1 where "run_strand_work E w c = Some c1" "run_works E ws c1 = Some c'"
    by (auto split: bind_splits)
  then show ?case using Cons strand_work_inv by auto
qed simp

lemma after_read_inv:
  assumes "conn_inv E c" "after_read E ec bytes c = Some c'"
  shows "conn_inv E c'"
proof (cases "ec_failed ec")
  case True
  then show ?thesis using handle_io_error_inv [OF assms(1), of ec] assms(2) by (auto simp: after_read_def)
next
  case False
  obtain buffer b2 nb c2 c3 where
    "bd_reduce_size_input (e_driver E) (c_read_buffer c) (length bytes) = Some buffer"
    "length bytes \<le> sb_size (c_read_buffer c)" and
    c2: "c2 = observe (O_input (sb_view buffer)) ((observe (O_inc_bytes_rx_async (length bytes)) c)\<lparr>c_read_buffer := sb_default\<rparr>)" and
    inp: "e_input E (c_input_handler c) buffer c2 = Some (b2, nb, c3)" and
    c': "c' = (let c4 = c3\<lparr>c_read_buffer := next_buffer E b2 nb c3\<rparr> in if c_read_is_enabled c3 then initiate_read c4 else c4)"
    by (rule after_read_cases [OF assms(2) False])
  have "data_path c2 = data_path c" "c_strand c2 = c_strand c" by (simp_all add: c2)
  then have "conn_inv E c2" using conn_inv_data_path [OF _ _ assms(1)] conn_inv_works [OF assms(1)] by simp
  with input_works [OF inp] have c3: "conn_inv E c3" using run_works_inv by blast
  have "data_path c' = data_path c3" "c_strand c' = c_strand c3" by (simp_all add: c' Let_def)
  then show ?thesis using conn_inv_data_path [OF _ _ c3, of c'] conn_inv_works [OF c3] by simp
qed

end

text \<open>
  What asio promises about the completions it delivers: an \<open>async_write\<close> succeeds exactly when it has
  transferred everything, and it is aborted only after the connection shut the socket down.
\<close>

fun ev_ok :: "'b conn_event \<Rightarrow> 'b conn \<Rightarrow> bool" where
  "ev_ok (Ev_call w) c = work_ok w"
| "ev_ok (Ev_aggressive_send cb bufs) c = work_ok (W_send cb bufs)"
| "ev_ok (Ev_write_completed ec n) c =
     (case c_async c of
        None \<Rightarrow> False
      | Some bufs \<Rightarrow> n \<le> length (concat bufs) \<and> (ec = Ec_success \<longleftrightarrow> n = length (concat bufs)) \<and>
          (ec = Ec_operation_aborted \<longrightarrow> \<not> c_schedule_for_write_is_enabled c))"
| "ev_ok (Ev_read_completed ec bytes) c = (length bytes \<le> sb_size (c_read_buffer c))"
| "ev_ok _ c = True"

inductive conn_reachable :: "'b conn_env \<Rightarrow> 'b conn \<Rightarrow> 'b conn \<Rightarrow> bool" for E c0 where
  reach_start: "conn_reachable E c0 c0"
| reach_step: "conn_reachable E c0 c \<Longrightarrow> ev_ok ev c \<Longrightarrow> conn_step E ev c = Some c' \<Longrightarrow> conn_reachable E c0 c'"

inductive_cases conn_reachableE: "conn_reachable E c0 c"

lemma conn_reachable_trans: "conn_reachable E b c \<Longrightarrow> conn_reachable E a b \<Longrightarrow> conn_reachable E a c"
  by (induction rule: conn_reachable.induct) (auto intro: conn_reachable.intros)

fun run_ok :: "'b conn_env \<Rightarrow> 'b conn_event list \<Rightarrow> 'b conn \<Rightarrow> bool" where
  "run_ok E [] c = True"
| "run_ok E (ev # evs) c = (ev_ok ev c \<and> (case conn_step E ev c of None \<Rightarrow> False | Some c' \<Rightarrow> run_ok E evs c'))"

lemma run_reachable:
  "run_ok E evs c \<Longrightarrow> \<exists>c'. conn_run E evs c = Some c' \<and> conn_reachable E c c'"
proof (induction evs arbitrary: c)
  case Nil
  then show ?case by (simp add: reach_start)
next
  case (Cons ev evs)
  then obtain c1 where c1: "ev_ok ev c" "conn_step E ev c = Some c1" "run_ok E evs c1"
    by (auto split: option.splits)
  with Cons.IH obtain c' where "conn_run E evs c1 = Some c'" "conn_reachable E c1 c'" by blast
  then show ?case
    using c1 conn_reachable_trans reach_step [OF reach_start] by fastforce
qed

context quiet_env
begin

lemma conn_step_inv:
  assumes inv: "conn_inv E c" and ok: "ev_ok ev c" and step: "conn_step E ev c = Some c'"
  shows "conn_inv E c'"
proof (cases ev)
  case (Ev_call w)
  then show ?thesis
    using ok step conn_inv_data_path [OF _ _ inv, of c'] conn_inv_works [OF inv]
    by (auto simp: asio_dispatch_def asio_post_def)
next
  case (Ev_aggressive_send cb bufs)
  then have "c' = c \<or> c_schedule_for_write_is_enabled c \<and> send_work E cb bufs c = Some c'"
    using step by (auto simp: schedule_send_impl_with_cb_def send_work_def split: if_splits)
  then show ?thesis using send_work_inv [OF inv] ok inv Ev_aggressive_send by auto
next
  case Ev_strand
  then obtain w ws where w: "c_strand c = w # ws" "run_strand_work E w (c\<lparr>c_strand := ws\<rparr>) = Some c'"
    using step by (auto split: list.splits)
  have "conn_inv E (c\<lparr>c_strand := ws\<rparr>)"
    using conn_inv_data_path [OF _ _ inv] conn_inv_works [OF inv] w(1) by simp
  then show ?thesis using strand_work_inv w conn_inv_works [OF inv] by auto
next
  case (Ev_write_completed ec n)
  then obtain bufs where bufs: "c_async c = Some bufs" using ok by (cases "c_async c") simp_all
  have "\<exists>c'. on_async_write_completed E ec n c = Some c' \<and> conn_inv E c'"
    by (rule async_write_completed_inv [OF inv bufs]) (use ok bufs Ev_write_completed in simp_all)
  then show ?thesis using step Ev_write_completed by auto
next
  case (Ev_read_completed ec bytes)
  define c1 where "c1 = c\<lparr>c_pending_reads := c_pending_reads c - 1, c_read_buffer := sb_write (c_read_buffer c) 0 bytes\<rparr>"
  have "after_read E ec bytes c1 = Some c'"
    using step Ev_read_completed by (auto simp: on_async_read_completed_def c1_def Let_def split: if_splits)
  moreover have "conn_inv E c1"
    using conn_inv_data_path [OF _ _ inv, of c1] conn_inv_works [OF inv] by (simp add: c1_def)
  ultimately show ?thesis using after_read_inv by blast
next
  case Ev_timer_expires
  then show ?thesis
    using step conn_inv_data_path [OF _ _ inv, of c'] conn_inv_works [OF inv] by auto
next
  case Ev_timer_handler
  then show ?thesis
    using step conn_inv_data_path [OF _ _ inv, of c'] conn_inv_works [OF inv]
    by (auto simp: hadle_write_operation_timeout_def asio_dispatch_def asio_post_def Let_def
        split: prod.splits option.splits)
qed

lemma ctor_inv: "conn_inv E (connection_ctor E cfg inp shut)"
  by (simp add: connection_ctor_def conn_inv_def conn_ok_def conn_core_def conn_idle_def conn_stream_def)

lemma later_inv: "conn_reachable E a b \<Longrightarrow> conn_inv E a \<Longrightarrow> conn_inv E b"
  by (induction rule: conn_reachable.induct) (auto intro: conn_step_inv)

lemma reachable_inv:
  "conn_reachable E (connection_ctor E cfg inp shut) c \<Longrightarrow> conn_inv E c"
  using later_inv ctor_inv by blast

end

section \<open>An environment\<close>

text \<open>
  A non-blocking socket with room for \<open>room k\<close> bytes at the \<open>k\<close>-th write, callbacks that do nothing
  and an input handler that keeps the buffer.
\<close>

definition plain_env :: "nat \<Rightarrow> (nat \<Rightarrow> nat) \<Rightarrow> 'b buffer_driver \<Rightarrow> 'b conn_env" where
  "plain_env asio_max_iov_len room d =
     \<lparr>e_max_seq_length = reasonable_max_iov_len asio_max_iov_len, e_windows = False, e_driver = d,
      e_write = (\<lambda>k bs. let t = min (room k) (length bs)
                        in (t, if t = length bs then Ec_success else Ec_would_block)),
      e_accepts_option = (\<lambda>_. True), e_send_cb = (\<lambda>cb res c. Some c),
      e_shutdown_cb = (\<lambda>h reason c. Some c), e_input = (\<lambda>h b c. Some (b, None, c))\<rparr>"

text \<open>
  Other handlers for the same connection: an input handler that does work of the connection's own, and a
  shutdown handler that may shut it down.
\<close>

lemma quiet_env_handlers:
  assumes quiet: "quiet_env E"
    and input: "\<And>h b c b' nb c'. f h b c = Some (b', nb, c') \<Longrightarrow>
      \<exists>ws. run_works (E\<lparr>e_input := f, e_shutdown_cb := g\<rparr>) ws c = Some c' \<and> (\<forall>w\<in>set ws. work_ok w)"
    and shut: "\<And>h reason c. g h reason c = Some c \<or>
      reason \<noteq> User_initiated \<and> g h reason c = shutdown_impl E User_initiated c"
  shows "quiet_env (E\<lparr>e_input := f, e_shutdown_cb := g\<rparr>)"
proof (rule quiet_env.intro)
  show "buffer_driver_laws (e_driver (E\<lparr>e_input := f, e_shutdown_cb := g\<rparr>))"
    using quiet by (simp add: quiet_env_def)
  have "g h User_initiated c = Some c" for h c using shut [of h User_initiated c] by simp
  then have same: "shutdown_impl (E\<lparr>e_input := f, e_shutdown_cb := g\<rparr>) User_initiated c = shutdown_impl E User_initiated c"
    for c
    by (simp add: shutdown_impl_eq shutdown_begin_def quiet_env.shutdown_cb_user [OF quiet] cong: option.case_cong)
  from quiet have "quiet_env_axioms E" by (simp add: quiet_env_def)
  then show "quiet_env_axioms (E\<lparr>e_input := f, e_shutdown_cb := g\<rparr>)"
    using input shut unfolding quiet_env_axioms_def same by simp
qed

lemma plain_env_quiet:
  assumes "buffer_driver_laws d" "0 < n"
  shows "quiet_env (plain_env n room d)"
proof (rule quiet_env.intro)
  show "buffer_driver_laws (e_driver (plain_env n room d))"
    using assms(1) by (simp add: plain_env_def)
  show "quiet_env_axioms (plain_env n room d)"
    by unfold_locales
      (use assms(2) in \<open>auto simp: plain_env_def reasonable_max_iov_len_def Let_def intro!: exI [of _ "[]"]
        split: if_splits\<close>)
qed

interpretation simple_net: quiet_env "plain_env (Suc n) room simple_buffer_driver"
  by (rule plain_env_quiet) (simp_all add: simple_drv.buffer_driver_laws_axioms)

interpretation hetero_net: quiet_env "plain_env (Suc n) room heterogeneous_buffer_driver"
  by (rule plain_env_quiet) (simp_all add: hetero_drv.buffer_driver_laws_axioms)

text \<open>Simplification over these runs a concrete connection; the fuel stays in successor form.\<close>

lemma write_fuel_Suc:
  "write_fuel c = Suc (Suc (Suc (length (c_write_queue c) + length (c_write_queue c))))"
  by (simp add: write_fuel_def)

lemmas conn_eval = plain_env_def connection_ctor_def asio_dispatch_def asio_post_def send_work_def send_bufs_def
  observe_def append_outgoing_buffer_try_aggressive_write_def append_outgoing_buffer_def socket_write_def
  set_back_seq_def push_seq_def ws_append_buffer_def ws_append_completion_cb_def ws_can_append_buffer_def
  ws_asio_bufs_def ws_empty_def ws_send_complete_cb_list_def reasonable_max_iov_len_def
  concatenated_buffer_max_size_def quik_sync_write_heuristic_size_def write_fuel_Suc
  run_send_completion_callback_def freeze_first_buf_sequence_in_queue_def start_async_write_def
  on_async_write_completed_def handle_io_error_def shutdown_impl_def error_is_would_block_def ec_failed_def
  make_std_compaible_error_def make_write_timeout_per_buffer_def default_connection_cfg_def seconds_def
  wd_start_watch_operation_def wd_cancel_watch_operation_def wd_timer_cancel_def wd_init_def
  simple_buffer_driver_def simple_make_asio_const_buffer_def simple_allocate_input_def Let_def

section \<open>Shutdown happens once\<close>

text \<open>The reasons the shutdown handler was called with, in order.\<close>

fun shutdown_reasons :: "observation list \<Rightarrow> connection_shutdown_reason list" where
  "shutdown_reasons [] = []"
| "shutdown_reasons (ob # obs) = (case ob of O_shutdown_handler r \<Rightarrow> [r] | _ \<Rightarrow> []) @ shutdown_reasons obs"

lemma shutdown_reasons_append [simp]: "shutdown_reasons (xs @ ys) = shutdown_reasons xs @ shutdown_reasons ys"
  by (induction xs) simp_all

lemma shutdown_reasons_complete [simp]: "shutdown_reasons (map (\<lambda>cb. O_send_complete cb res) cbs) = []"
  by (induction cbs) simp_all

definition shutdown_state :: "'b conn \<Rightarrow> connection_shutdown_reason list \<times> bool" where
  "shutdown_state c = (shutdown_reasons (c_out c), c_shutdown_was_called c)"

text \<open>
  The calls of one shutdown: none without a handler, one, or a second one that a handler causes when it
  shuts the connection down itself.
\<close>

definition handler_calls :: "'b conn_env \<Rightarrow> connection_shutdown_reason list \<Rightarrow> bool" where
  "handler_calls E rs \<longleftrightarrow> rs = [] \<or> (\<exists>r. rs = [r]) \<or>
     (\<exists>r. rs = [r, User_initiated] \<and> r \<noteq> User_initiated) \<and> (\<exists>h r c. e_shutdown_cb E h r c \<noteq> Some c)"

text \<open>Between two states there was no shutdown, or one and it had these calls.\<close>

definition settles :: "'b conn_env \<Rightarrow> 'b conn \<Rightarrow> 'b conn \<Rightarrow> bool" where
  "settles E a b \<longleftrightarrow> shutdown_state b = shutdown_state a \<or>
     \<not> snd (shutdown_state a) \<and> snd (shutdown_state b) \<and>
       (\<exists>rs. handler_calls E rs \<and> fst (shutdown_state b) = fst (shutdown_state a) @ rs)"

lemma settles_same: "shutdown_state b = shutdown_state a \<Longrightarrow> settles E a b"
  by (simp add: settles_def)

lemma settles_trans: "settles E a b \<Longrightarrow> settles E b c \<Longrightarrow> settles E a c"
  by (auto simp: settles_def)

text \<open>
  What was accepted, what waits on the strand, and whether sending is allowed; and the reading side, which
  the write path leaves alone.
\<close>

definition intake :: "'b conn \<Rightarrow> _" where
  "intake c = ((accepted_bytes (c_out c), c_strand c, c_schedule_for_write_is_enabled c),
     (c_read_buffer c, c_read_is_enabled c, c_pending_reads c))"

named_theorems shutdown_state_simps

lemma shutdown_state_updates [shutdown_state_simps]:
  "shutdown_state (c\<lparr>c_write_queue := q\<rparr>) = shutdown_state c"
  "shutdown_state (c\<lparr>c_read_buffer := b\<rparr>) = shutdown_state c"
  "shutdown_state (c\<lparr>c_pending_reads := n\<rparr>) = shutdown_state c"
  "shutdown_state (c\<lparr>c_read_is_enabled := e\<rparr>) = shutdown_state c"
  "shutdown_state (c\<lparr>c_input_handler := h\<rparr>) = shutdown_state c"
  "shutdown_state (c\<lparr>c_shutdown_handler := sh\<rparr>) = shutdown_state c"
  "shutdown_state (c\<lparr>c_watchdog := w\<rparr>) = shutdown_state c"
  "shutdown_state (c\<lparr>c_strand := s\<rparr>) = shutdown_state c"
  "shutdown_state (c\<lparr>c_async := a\<rparr>) = shutdown_state c"
  "shutdown_state (c\<lparr>c_is_write_operation_running := r\<rparr>) = shutdown_state c"
  "shutdown_state (c\<lparr>c_wire := wr\<rparr>) = shutdown_state c"
  "shutdown_state (c\<lparr>c_nwrites := nw\<rparr>) = shutdown_state c"
  by (simp_all add: shutdown_state_def)

lemma shutdown_state_observe [shutdown_state_simps]:
  "(\<forall>r. ob \<noteq> O_shutdown_handler r) \<Longrightarrow> shutdown_state (observe ob c) = shutdown_state c"
  by (cases ob) (simp_all add: shutdown_state_def observe_def)

lemma shutdown_state_write [shutdown_state_simps]:
  "shutdown_state (freeze_first_buf_sequence_in_queue c) = shutdown_state c"
  "shutdown_state (push_seq c ws) = shutdown_state c" "shutdown_state (set_back_seq c ws) = shutdown_state c"
  "shutdown_state (start_async_write bufs n c) = shutdown_state c"
  "socket_write E bytes c = (t, ec, c') \<Longrightarrow> shutdown_state c' = shutdown_state c"
  by (auto simp: freeze_first_buf_sequence_in_queue_def push_seq_def set_back_seq_def start_async_write_def
      socket_write_def shutdown_state_updates shutdown_state_observe Let_def split: prod.splits)

lemma append_outgoing_buffer_shutdown_state [shutdown_state_simps]:
  "append_outgoing_buffer E buf c = Some c' \<Longrightarrow> shutdown_state c' = shutdown_state c"
  by (auto simp: append_outgoing_buffer_def shutdown_state_simps Let_def split: bind_splits if_splits)

lemma append_all_shutdown_state:
  "append_all_try_aggressive E bufs (be, c) = Some (be', c') \<Longrightarrow> shutdown_state c' = shutdown_state c"
proof (induction bufs arbitrary: be c)
  case (Cons b bufs)
  then obtain be1 c1 where c1: "append_outgoing_buffer_try_aggressive_write E b (be, c) = Some (be1, c1)"
      "append_all_try_aggressive E bufs (be1, c1) = Some (be', c')"
    by (auto split: bind_splits)
  have "shutdown_state c1 = shutdown_state c"
    using c1(1) by (auto simp: append_outgoing_buffer_try_aggressive_write_def shutdown_state_simps Let_def
        split: bind_splits if_splits prod.splits)
  with Cons.IH [OF c1(2)] show ?case by simp
qed simp

context quiet_env
begin

lemma run_callbacks_shutdown_state [shutdown_state_simps]:
  "run_send_completion_callbacks E res cbs c = Some c' \<Longrightarrow> shutdown_state c' = shutdown_state c"
  by (auto simp: run_callbacks_quiet shutdown_state_def)

lemma shutdown_impl_settles: "shutdown_impl E reason c = Some c' \<Longrightarrow> settles E c c'"
  by (rule shutdown_impl_cases [of c reason])
    (auto simp: settles_def handler_calls_def shutdown_state_def shutdown_begin_def observe_def Let_def)

lemma handle_io_error_settles: "handle_io_error E ec c = Some c' \<Longrightarrow> settles E c c'"
  using shutdown_impl_settles by (auto simp: handle_io_error_def settles_same split: if_splits)

text \<open>What one call of \<open>initiate_write_if_necessary\<close> comes to, away from the data.\<close>

definition tried :: "'b conn \<Rightarrow> 'b conn \<Rightarrow> bool" where
  "tried c x \<longleftrightarrow> shutdown_state x = shutdown_state c \<and> intake x = intake c \<and> c_watchdog x = c_watchdog c"

lemma initiate_cases:
  assumes "initiate_write_if_necessary (Suc f) E c = Some c'"
  obtains "c' = c"
  | x bufs n where "c' = start_async_write bufs n x" "tried c x"
  | x ec n c2 where "after_write f E ec n (freeze_first_buf_sequence_in_queue x) = Some c2"
      "c' = observe (O_inc_bytes_tx_sync n) c2" "tried c x"
proof -
  obtain bufs total where b: "ws_asio_bufs (e_driver E) (hd (c_write_queue c)) = (bufs, total)" by fastforce
  define c0 where "c0 = observe (O_sync_write_started total) c"
  obtain t ec c1 where w: "socket_write E (concat bufs) c0 = (t, ec, c1)" by (metis prod_cases3)
  define x where "x = observe (O_sync_write_finished t) c1"
  define y where "y = observe (O_hit_would_block_event total) x"
  have tried: "tried c x" "tried c y" "tried c c"
    using w by (auto simp: tried_def x_def y_def c0_def shutdown_state_simps socket_write_def observe_def
        shutdown_state_def intake_def split: prod.splits)
  show ?thesis
    using assms that tried
    by (auto simp: b w c0_def [symmetric] x_def [symmetric] y_def [symmetric] Let_def simp del: after_write.simps
        split: if_splits bind_splits)
qed

lemma after_write_cases:
  assumes "after_write (Suc f) E ec n c = Some c'"
  defines "x \<equiv> c\<lparr>c_watchdog := wd_cancel_watch_operation (c_watchdog c)\<rparr>"
  obtains y where "handle_io_error E ec x = Some y" "shutdown_state c' = shutdown_state y" "intake c' = intake y"
      "c_watchdog c' = c_watchdog y" "ec_failed ec"
  | y where "initiate_write_if_necessary f E y = Some c'" "tried x y" "\<not> ec_failed ec"
proof (cases "ec_failed ec")
  case True
  then obtain y where "handle_io_error E ec x = Some y"
      "run_send_completion_callbacks E Send_io_error (ws_send_complete_cb_list (hd (c_write_queue c))) y = Some c'"
    using assms by (auto simp: x_def Let_def split: bind_splits)
  then show ?thesis
    using that(1) True
    by (auto simp: run_callbacks_quiet shutdown_state_def intake_def)
next
  case False
  then show ?thesis
    using assms that(2)
    by (auto simp: x_def Let_def run_callbacks_quiet tried_def shutdown_state_def intake_def split: if_splits)
qed

text \<open>
  A preorder that sees no more of a connection than \<open>shutdown_state\<close> and \<open>intake\<close> and holds over an
  error holds over everything the write path does.
\<close>

lemma write_mono:
  assumes trans: "\<And>a b c. R a b \<Longrightarrow> R b c \<Longrightarrow> R a c"
    and same: "\<And>a b. shutdown_state b = shutdown_state a \<Longrightarrow> intake b = intake a \<Longrightarrow> R a b"
    and io: "\<And>ec a b. handle_io_error E ec a = Some b \<Longrightarrow> R a b"
  shows "(initiate_write_if_necessary fuel E c = Some c' \<longrightarrow> R c c') \<and> (after_write fuel E ec n c = Some c' \<longrightarrow> R c c')"
proof (induction fuel arbitrary: c c' ec n)
  case (Suc fuel)
  have frame: "R x (freeze_first_buf_sequence_in_queue x)" "R x (start_async_write bufs k x)"
      "R x (observe (O_inc_bytes_tx_sync k) x)" "R x (x\<lparr>c_watchdog := w\<rparr>)" for x bufs k w
    by (auto intro!: same simp: shutdown_state_simps intake_def freeze_first_buf_sequence_in_queue_def
        start_async_write_def push_seq_def observe_def Let_def shutdown_state_def)
  have tried: "R x y" if "tried x y" for x y using that same by (simp add: tried_def)
  have "R c c'" if "initiate_write_if_necessary (Suc fuel) E c = Some c'"
    using that
  proof (cases rule: initiate_cases)
    case 1
    then show ?thesis using same by simp
  next
    case (2 x bufs k)
    then show ?thesis using trans [OF tried [OF 2(2)] frame(2)] by simp
  next
    case (3 x ec' k c2)
    then show ?thesis using trans [OF trans [OF tried [OF 3(3)] frame(1)] trans [OF _ frame(3)]] Suc by blast
  qed
  moreover have "R c c'" if "after_write (Suc fuel) E ec n c = Some c'"
    using that
  proof (cases rule: after_write_cases)
    case (1 y)
    then show ?thesis using trans [OF frame(4) trans [OF io [OF 1(1)] same]] by simp
  next
    case (2 y)
    then show ?thesis using trans [OF frame(4) trans [OF tried [OF 2(2)]]] Suc by blast
  qed
  ultimately show ?case by blast
qed simp

text \<open>The same for a send, from the moment it is accepted.\<close>

lemma append_all_intake: "append_all_try_aggressive E bufs (be, c) = Some (be', c') \<Longrightarrow> intake c' = intake c"
proof (induction bufs arbitrary: be c)
  case (Cons b bufs)
  then obtain be1 c1 where c1: "append_outgoing_buffer_try_aggressive_write E b (be, c) = Some (be1, c1)"
      "append_all_try_aggressive E bufs (be1, c1) = Some (be', c')"
    by (auto split: bind_splits)
  have "append_outgoing_buffer E buf x = Some y \<Longrightarrow> intake y = intake x" for buf x y
    by (auto simp: append_outgoing_buffer_def push_seq_def set_back_seq_def intake_def Let_def
        split: bind_splits if_splits)
  then have "intake c1 = intake c"
    using c1(1) by (auto simp: append_outgoing_buffer_try_aggressive_write_def socket_write_def observe_def
        intake_def Let_def split: bind_splits if_splits prod.splits)
  with Cons.IH [OF c1(2)] show ?case by simp
qed simp

lemma send_work_mono:
  assumes trans: "\<And>a b c. R a b \<Longrightarrow> R b c \<Longrightarrow> R a c"
    and same: "\<And>a b. shutdown_state b = shutdown_state a \<Longrightarrow> intake b = intake a \<Longrightarrow> R a b"
    and io: "\<And>ec a b. handle_io_error E ec a = Some b \<Longrightarrow> R a b"
    and send: "send_work E cb bufs c = Some c'"
  shows "R (if c_schedule_for_write_is_enabled c
      then observe (O_send_accepted cb (concat (map (bd_make_asio_const_buffer (e_driver E)) bufs))) c else c) c'"
proof -
  have callback: "R x y" if "run_send_completion_callback E res cb x = Some y" for res x y
    by (rule same) (use that in \<open>auto simp: run_send_completion_callback_def send_cb_quiet shutdown_state_def
        intake_def observe_def split: option.splits\<close>)
  show ?thesis
  proof (cases "c_schedule_for_write_is_enabled c")
    case False
    then show ?thesis using send callback by (simp add: send_work_def)
  next
    case True
    define c0 where "c0 = observe (O_send_accepted cb (concat (map (bd_make_asio_const_buffer (e_driver E)) bufs))) c"
    have s: "send_bufs E cb bufs c = Some c'" using send True by (simp add: send_work_def)
    then obtain be c1 where c1: "append_all_try_aggressive E bufs (True, c0) = Some (be, c1)"
      by (auto simp: send_bufs_def c0_def [symmetric] Let_def split: bind_splits)
    have c01: "R c0 c1"
      using append_all_shutdown_state [OF c1] append_all_intake [OF c1] by (rule same)
    have "R c1 c'"
    proof (cases be)
      case True
      then show ?thesis using s callback unfolding send_bufs_def Let_def c0_def [symmetric] c1 by simp
    next
      case False
      then obtain c2 where c2: "(case cb of None \<Rightarrow> Some c1 | Some cb \<Rightarrow> do {
            seq \<leftarrow> ws_append_completion_cb (e_max_seq_length E) (last (c_write_queue c1)) cb;
            Some (set_back_seq c1 seq) }) = Some c2"
          "initiate_write_if_necessary (write_fuel c2) E c2 = Some c'"
        using s unfolding send_bufs_def Let_def c0_def [symmetric] c1 by (auto split: bind_splits)
      then have "R c1 c2"
        by (intro same) (auto simp: shutdown_state_simps intake_def set_back_seq_def split: option.splits bind_splits)
      moreover have "R c2 c'"
        by (rule write_mono [where R = R, THEN conjunct1, rule_format, OF _ _ _ c2(2)]) (fact trans same io)+
      ultimately show ?thesis by (rule trans)
    qed
    with c01 have "R c0 c'" by (rule trans)
    then show ?thesis using True by (simp add: c0_def)
  qed
qed

end

section \<open>Preorders over a run\<close>

text \<open>
  A preorder on connections that sees the calls of the shutdown handler, the accepted bytes and whether
  sending is allowed. If it holds over a shutdown and over the acceptance of a send it holds over a run.
\<close>

definition gate :: "'b conn \<Rightarrow> byte list \<times> bool" where
  "gate c = (accepted_bytes (c_out c), c_schedule_for_write_is_enabled c)"

definition visible :: "'b conn \<Rightarrow> _" where
  "visible c = (shutdown_state c, gate c)"

lemma visible_intake: "shutdown_state b = shutdown_state a \<Longrightarrow> intake b = intake a \<Longrightarrow> visible b = visible a"
  by (simp add: visible_def gate_def intake_def)

lemma visible_simps:
  "visible (c\<lparr>c_write_queue := q\<rparr>) = visible c" "visible (c\<lparr>c_read_buffer := b\<rparr>) = visible c"
  "visible (c\<lparr>c_pending_reads := n\<rparr>) = visible c" "visible (c\<lparr>c_read_is_enabled := e\<rparr>) = visible c"
  "visible (c\<lparr>c_input_handler := h\<rparr>) = visible c" "visible (c\<lparr>c_shutdown_handler := sh\<rparr>) = visible c"
  "visible (c\<lparr>c_watchdog := w\<rparr>) = visible c" "visible (c\<lparr>c_strand := ws\<rparr>) = visible c"
  "visible (c\<lparr>c_async := a\<rparr>) = visible c" "visible (c\<lparr>c_wire := wr\<rparr>) = visible c"
  "(\<forall>r. ob \<noteq> O_shutdown_handler r) \<Longrightarrow> (\<forall>cb bs. ob \<noteq> O_send_accepted cb bs) \<Longrightarrow> visible (observe ob c) = visible c"
  by (simp_all add: visible_def gate_def shutdown_state_simps) (cases ob; simp add: observe_def)

locale conn_preorder = quiet_env E for E :: "'b conn_env" +
  fixes R :: "'b conn \<Rightarrow> 'b conn \<Rightarrow> bool"
  assumes R_trans: "R a b \<Longrightarrow> R b c \<Longrightarrow> R a c"
    and R_same: "visible b = visible a \<Longrightarrow> R a b"
    and R_shutdown: "shutdown_impl E reason a = Some b \<Longrightarrow> R a b"
    and R_accept: "c_schedule_for_write_is_enabled a \<Longrightarrow> R a (observe (O_send_accepted cb bs) a)"
begin

lemma R_io_error: "handle_io_error E ec a = Some b \<Longrightarrow> R a b"
  by (auto simp: handle_io_error_def R_same dest: R_shutdown split: if_splits)

lemma R_write:
  "(initiate_write_if_necessary fuel E c = Some c' \<longrightarrow> R c c') \<and> (after_write fuel E ec n c = Some c' \<longrightarrow> R c c')"
  by (rule write_mono) (auto intro: R_trans R_same visible_intake R_io_error)

lemma R_send_work:
  assumes "send_work E cb bufs c = Some c'"
  shows "R c c'"
proof -
  have "R (if c_schedule_for_write_is_enabled c
      then observe (O_send_accepted cb (concat (map (bd_make_asio_const_buffer (e_driver E)) bufs))) c else c) c'"
    by (rule send_work_mono [OF _ _ _ assms]) (auto intro: R_trans R_same visible_intake R_io_error)
  then show ?thesis using R_trans [OF R_accept] by (cases "c_schedule_for_write_is_enabled c") auto
qed

lemma R_strand_work:
  assumes "run_strand_work E w c = Some c'"
  shows "R c c'"
proof (cases w)
  case (W_send cb bufs)
  then show ?thesis using assms R_send_work by simp
next
  case W_shutdown
  then show ?thesis using assms R_shutdown by simp
next
  case (W_write_timeout key)
  then show ?thesis
    using assms R_shutdown by (auto simp: handle_write_operation_timeout_impl_def R_same split: if_splits)
qed (use assms in \<open>auto simp: start_reading_work_def stop_reading_work_def reset_input_handler_impl_def
    reset_shutdown_handler_impl_def initiate_read_def update_socket_options_impl_def case_prod_beta Let_def
    visible_simps intro!: R_same split: if_splits\<close>)

lemma R_run_works: "run_works E ws c = Some c' \<Longrightarrow> R c c'"
  by (induction ws arbitrary: c) (auto split: bind_splits intro: R_same R_trans dest: R_strand_work)

lemma R_after_read:
  assumes "after_read E ec bytes c = Some c'"
  shows "R c c'"
proof (cases "ec_failed ec")
  case True
  then show ?thesis using assms R_io_error by (simp add: after_read_def)
next
  case False
  obtain buffer b2 nb c2 c3 where
    "bd_reduce_size_input (e_driver E) (c_read_buffer c) (length bytes) = Some buffer"
    "length bytes \<le> sb_size (c_read_buffer c)" and
    c2: "c2 = observe (O_input (sb_view buffer)) ((observe (O_inc_bytes_rx_async (length bytes)) c)\<lparr>c_read_buffer := sb_default\<rparr>)" and
    inp: "e_input E (c_input_handler c) buffer c2 = Some (b2, nb, c3)" and
    c': "c' = (let c4 = c3\<lparr>c_read_buffer := next_buffer E b2 nb c3\<rparr> in if c_read_is_enabled c3 then initiate_read c4 else c4)"
    by (rule after_read_cases [OF assms(1) False])
  have "R c c2" by (rule R_same) (simp add: c2 visible_simps)
  moreover have "R c2 c3" using input_works [OF inp] R_run_works by blast
  moreover have "R c3 c'" by (rule R_same) (simp add: c' initiate_read_def visible_simps Let_def)
  ultimately show ?thesis using R_trans by blast
qed

lemma R_conn_step:
  assumes "conn_step E ev c = Some c'"
  shows "R c c'"
proof (cases ev)
  case (Ev_aggressive_send cb bufs)
  then have "c' = c \<or> send_work E cb bufs c = Some c'"
    using assms by (auto simp: schedule_send_impl_with_cb_def send_work_def split: if_splits)
  then show ?thesis using R_send_work R_same by blast
next
  case Ev_strand
  then obtain w ws where w: "run_strand_work E w (c\<lparr>c_strand := ws\<rparr>) = Some c'"
    using assms by (auto split: list.splits)
  have "R c (c\<lparr>c_strand := ws\<rparr>)" by (rule R_same) (simp add: visible_simps)
  from R_trans [OF this R_strand_work [OF w]] show ?thesis .
next
  case (Ev_write_completed ec n)
  then obtain bufs c2 where c2:
    "after_write (write_fuel (observe (O_async_write_finished n) (c\<lparr>c_wire := c_wire c @ take n (concat bufs), c_async := None\<rparr>)))
       E ec n (observe (O_async_write_finished n) (c\<lparr>c_wire := c_wire c @ take n (concat bufs), c_async := None\<rparr>)) = Some c2"
    "c' = observe (O_inc_bytes_tx_async n) c2"
    using assms by (auto simp: on_async_write_completed_def Let_def split: option.splits bind_splits)
  have "R c (observe (O_async_write_finished n) (c\<lparr>c_wire := c_wire c @ take n (concat bufs), c_async := None\<rparr>))"
    by (rule R_same) (simp add: visible_simps)
  moreover have "R c2 c'" by (rule R_same) (simp add: c2(2) visible_simps)
  ultimately show ?thesis using R_trans R_write [THEN conjunct2, rule_format, OF c2(1)] by blast
next
  case (Ev_read_completed ec bytes)
  then have read: "after_read E ec bytes (c\<lparr>c_pending_reads := c_pending_reads c - 1, c_read_buffer := sb_write (c_read_buffer c) 0 bytes\<rparr>) = Some c'"
    using assms by (auto simp: on_async_read_completed_def Let_def split: if_splits)
  have "R c (c\<lparr>c_pending_reads := c_pending_reads c - 1, c_read_buffer := sb_write (c_read_buffer c) 0 bytes\<rparr>)"
    by (rule R_same) (simp add: visible_simps)
  from R_trans [OF this R_after_read [OF read]] show ?thesis .
qed (use assms in \<open>auto simp: asio_dispatch_def asio_post_def hadle_write_operation_timeout_def Let_def
    visible_simps intro!: R_same split: prod.splits option.splits\<close>)

lemma R_reachable: "conn_reachable E c0 c \<Longrightarrow> R c0 c"
  by (induction rule: conn_reachable.induct) (auto intro: R_same R_trans R_conn_step)

end

text \<open>What was accepted before sending stopped stays, and it stops for good.\<close>

definition closing :: "'b conn \<Rightarrow> 'b conn \<Rightarrow> bool" where
  "closing a b \<longleftrightarrow> (snd (gate b) \<longrightarrow> snd (gate a)) \<and> (\<not> snd (gate a) \<longrightarrow> gate b = gate a)"

sublocale quiet_env \<subseteq> shut: conn_preorder E "settles E"
  by unfold_locales
    (auto intro: settles_trans shutdown_impl_settles simp: visible_def settles_same shutdown_state_simps)

sublocale quiet_env \<subseteq> stop: conn_preorder E closing
proof unfold_locales
  show "closing a b" if "shutdown_impl E reason a = Some b" for a b reason
    using that shutdown_impl_quiet [of reason a] by (auto simp: closing_def gate_def)
  show "closing a c" if "closing a b" "closing b c" for a b c
    using that unfolding closing_def by metis
qed (simp_all add: closing_def visible_def gate_def)

context quiet_env
begin

lemma strand_work_settles: "run_strand_work E w c = Some c' \<Longrightarrow> settles E c c'"
  by (rule shut.R_strand_work)

lemma conn_step_settles: "conn_step E ev c = Some c' \<Longrightarrow> settles E c c'"
  by (rule shut.R_conn_step)

lemma reachable_settles: "conn_reachable E c0 c \<Longrightarrow> settles E c0 c"
  by (rule shut.R_reachable)

lemma reachable_closing: "conn_reachable E c0 c \<Longrightarrow> closing c0 c"
  by (rule stop.R_reachable)

end

section \<open>Timeout keys\<close>

text \<open>How far a write operation moves the key of the watchdog.\<close>

context quiet_env
begin

lemma start_async_write_key:
  "wd_timeout_key (c_watchdog (start_async_write bufs n c)) = wd_timeout_key (c_watchdog c) + 1"
  by (simp add: start_async_write_def observe_def freeze_first_buf_sequence_in_queue_def push_seq_def
      wd_start_simps Let_def)

lemma handle_io_error_key:
  "handle_io_error E ec c = Some c' \<Longrightarrow>
   \<exists>j\<le>2. wd_timeout_key (c_watchdog c') = wd_timeout_key (c_watchdog c) + of_nat j"
  by (rule shutdown_impl_cases [of c "if ec = Ec_eof then Eof else Io_error"])
    (auto simp: handle_io_error_def shutdown_begin_def observe_def wd_cancel_simps Let_def
      intro: exI [of _ 0] exI [of _ 1] exI [of _ 2] split: if_splits)

lemma write_key:
  "(initiate_write_if_necessary fuel E c = Some c' \<longrightarrow>
     (\<exists>j\<le>3 * fuel. wd_timeout_key (c_watchdog c') = wd_timeout_key (c_watchdog c) + of_nat j)) \<and>
   (after_write fuel E ec n c = Some c' \<longrightarrow>
     (\<exists>j\<le>3 * fuel. 0 < j \<and> wd_timeout_key (c_watchdog c') = wd_timeout_key (c_watchdog c) + of_nat j))"
proof (induction fuel arbitrary: c c' ec n)
  case (Suc fuel)
  have "\<exists>j\<le>3 * Suc fuel. wd_timeout_key (c_watchdog c') = wd_timeout_key (c_watchdog c) + of_nat j"
    if "initiate_write_if_necessary (Suc fuel) E c = Some c'"
    using that
  proof (cases rule: initiate_cases)
    case 1
    then show ?thesis by (intro exI [of _ 0]) simp
  next
    case (2 x bufs n)
    then show ?thesis by (intro exI [of _ 1]) (simp add: tried_def start_async_write_key)
  next
    case (3 x ec n c2)
    have "c_watchdog (freeze_first_buf_sequence_in_queue x) = c_watchdog c"
      using 3 by (simp add: freeze_first_buf_sequence_in_queue_def push_seq_def tried_def)
    moreover obtain j where "j \<le> 3 * fuel"
        "wd_timeout_key (c_watchdog c2) = wd_timeout_key (c_watchdog (freeze_first_buf_sequence_in_queue x)) + of_nat j"
      using Suc 3(1) by blast
    ultimately show ?thesis
      using 3(2) by (intro exI [of _ j]) (simp add: observe_def)
  qed
  moreover have "\<exists>j\<le>3 * Suc fuel. 0 < j \<and> wd_timeout_key (c_watchdog c') = wd_timeout_key (c_watchdog c) + of_nat j"
    if "after_write (Suc fuel) E ec n c = Some c'"
    using that
  proof (cases rule: after_write_cases)
    case (1 y)
    then obtain j where "j \<le> 2" "wd_timeout_key (c_watchdog y) = wd_timeout_key (c_watchdog c) + 1 + of_nat j"
      using handle_io_error_key [OF 1(1)] by (auto simp: wd_cancel_simps)
    then show ?thesis using 1 by (intro exI [of _ "Suc j"]) simp
  next
    case (2 y)
    then obtain j where "j \<le> 3 * fuel" "wd_timeout_key (c_watchdog c') = wd_timeout_key (c_watchdog c) + 1 + of_nat j"
      using Suc [of y c'] by (auto simp: tried_def wd_cancel_simps)
    then show ?thesis by (intro exI [of _ "Suc j"]) simp
  qed
  ultimately show ?case by blast
qed simp

end

end
