(* ===== verification/ConnectionProps.thy ===== *)
theory ConnectionProps
  imports ConnectionFacts
begin

text \<open>
  The properties of a connection, from the invariant of \<open>ConnectionFacts\<close>, with their witnesses on
  the default buffer driver and a socket that takes three bytes of the first write and nothing of
  the second.
\<close>

section \<open>A concrete connection\<close>

definition demo_room :: "nat \<Rightarrow> nat" where
  "demo_room k = (if k = 0 then 3 else if k = 1 then 0 else 100)"

definition demo_env :: "simple_buffer conn_env" where
  "demo_env = plain_env 64 demo_room simple_buffer_driver"

definition demo_conn :: "simple_buffer conn" where
  "demo_conn = connection_ctor demo_env (default_connection_cfg\<lparr>m_input_buffer_size := 4\<rparr>) 0 (Some 7)"

definition demo_events :: "simple_buffer conn_event list" where
  "demo_events =
     [Ev_call (W_send (Some 1) [sb_of_bytes [1, 2, 3, 4, 5]]), Ev_strand,
      Ev_call (W_send (Some 2) [sb_of_bytes [6, 7, 8]]), Ev_strand,
      Ev_write_completed Ec_success 2]"

lemma demo_env_quiet: "quiet_env demo_env"
  unfolding demo_env_def by (rule plain_env_quiet) (simp_all add: simple_drv.buffer_driver_laws_axioms)

lemmas demo_eval = demo_env_def demo_conn_def demo_events_def demo_room_def conn_eval

lemma demo_run_ok: "run_ok demo_env demo_events demo_conn"
  by (simp add: demo_eval)

text \<open>The connection after the five events: everything is sent and both callbacks ran.\<close>

definition demo_end :: "simple_buffer conn" where
  "demo_end = the (conn_run demo_env demo_events demo_conn)"

lemma demo_end_simps:
  "c_wire demo_end = [1, 2, 3, 4, 5, 6, 7, 8]" "c_async demo_end = None"
  "c_schedule_for_write_is_enabled demo_end"
  "accepted_bytes (c_out demo_end) = [1, 2, 3, 4, 5, 6, 7, 8]"
  "succeeded_cbs (c_out demo_end) = [1, 2]" "accepted_cbs (c_out demo_end) = [1, 2]"
  by (simp_all add: demo_end_def demo_eval)

lemma demo_end_reachable:
  "conn_reachable demo_env (connection_ctor demo_env (default_connection_cfg\<lparr>m_input_buffer_size := 4\<rparr>) 0 (Some 7)) demo_end"
  using run_reachable [OF demo_run_ok] by (auto simp: demo_conn_def demo_end_def)

text \<open>The same connection while the asynchronous write is running and the second send is queued.\<close>

definition demo_mid :: "simple_buffer conn" where
  "demo_mid = the (conn_run demo_env (take 4 demo_events) demo_conn)"

lemma demo_mid_ok: "run_ok demo_env (take 4 demo_events) demo_conn"
  by (simp add: demo_eval)

lemma demo_mid_simps:
  "c_wire demo_mid = [1, 2, 3]" "c_async demo_mid = Some [[4, 5]]"
  "c_is_write_operation_running demo_mid" "c_schedule_for_write_is_enabled demo_mid"
  "length (c_write_queue demo_mid) = 2" "wd_timeout_key (c_watchdog demo_mid) = 1"
  "queue_cbs (c_write_queue demo_mid) = [1, 2]" "\<not> c_shutdown_was_called demo_mid"
  "ws_cbs (hd (c_write_queue demo_mid)) = [1]" "queue_cbs (tl (c_write_queue demo_mid)) = [2]"
  "succeeded_cbs (c_out demo_mid) = []" "c_socket_open demo_mid" "c_shutdown_handler demo_mid = Some 7"
  by (simp_all add: demo_mid_def demo_eval)

lemma demo_mid_reachable:
  "conn_reachable demo_env (connection_ctor demo_env (default_connection_cfg\<lparr>m_input_buffer_size := 4\<rparr>) 0 (Some 7)) demo_mid"
  using run_reachable [OF demo_mid_ok] by (auto simp: demo_conn_def demo_mid_def)

section \<open>The byte stream and the callbacks\<close>

text \<open>
  C3. What the operating system has taken from a connection is at every moment a prefix of the bytes
  of the accepted sends, in the order they were accepted: nothing is lost, duplicated or reordered,
  whatever the sizes of the buffers, the compactions of the queue and the mixture of aggressive,
  synchronous and asynchronous writes.
\<close>

theorem stream_prefix:
  assumes "quiet_env E" "conn_reachable E (connection_ctor E cfg inp shut) c"
  shows "prefix (c_wire c) (accepted_bytes (c_out c))"
  using quiet_env.reachable_inv [OF assms] by (rule conn_inv_prefix)

theorem stream_prefix_witness:
  "prefix (c_wire demo_mid) (accepted_bytes (c_out demo_mid))"
  by (rule stream_prefix [OF demo_env_quiet demo_mid_reachable])

text \<open>
  C4. Nothing gets stuck: whenever no asynchronous write is in progress and the connection still
  accepts sends, every accepted byte has been handed to the operating system, every completion
  callback has been called with success, in order, and the queue is the single empty sequence.
\<close>

theorem idle_means_delivered:
  assumes "quiet_env E" "conn_reachable E (connection_ctor E cfg inp shut) c"
    and "c_async c = None" "c_schedule_for_write_is_enabled c"
  shows "c_wire c = accepted_bytes (c_out c) \<and> succeeded_cbs (c_out c) = accepted_cbs (c_out c) \<and>
    c_write_queue c = [ws_empty] \<and> \<not> c_is_write_operation_running c"
  using quiet_env.reachable_inv [OF assms(1,2)] assms(3,4)
  by (auto simp: conn_inv_def conn_ok_def conn_failed_def conn_idle_def conn_writing_def conn_stream_def)

theorem idle_means_delivered_witness:
  "c_wire demo_end = accepted_bytes (c_out demo_end) \<and> succeeded_cbs (c_out demo_end) = accepted_cbs (c_out demo_end) \<and>
   c_write_queue demo_end = [ws_empty] \<and> \<not> c_is_write_operation_running demo_end"
  by (rule idle_means_delivered [OF demo_env_quiet demo_end_reachable]) (simp_all add: demo_end_simps)





text \<open>
  C9. The shape of the write queue: it is never empty, only its last sequence may be without
  buffers, no sequence exceeds the limit of the gathering write, and while an asynchronous write is
  in progress the sequence being written is not the one that receives new buffers.
\<close>

theorem write_queue_shape:
  assumes "quiet_env E" "conn_reachable E (connection_ctor E cfg inp shut) c"
  shows "queue_wf (e_max_seq_length E) (c_write_queue c) \<and>
    (c_async c \<noteq> None \<longrightarrow> c_is_write_operation_running c \<and> 2 \<le> length (c_write_queue c)) \<and>
    (c_shutdown_was_called c \<longrightarrow> \<not> c_schedule_for_write_is_enabled c)"
  using quiet_env.reachable_inv [OF assms]
  by (auto simp: conn_inv_def conn_ok_def conn_core_def conn_failed_def conn_idle_def conn_writing_def)

theorem write_queue_shape_witness:
  "queue_wf (e_max_seq_length demo_env) (c_write_queue demo_mid) \<and> 2 \<le> length (c_write_queue demo_mid)"
  using write_queue_shape [OF demo_env_quiet demo_mid_reachable] by (simp add: demo_mid_simps)

section \<open>Shutdown, timeouts, destruction\<close>







text \<open>
  C14. A timeout that was on its way when its write completed does no harm: after the completion
  handler the key of the finished operation is not the watchdog's key any more, so the late timeout
  changes nothing, even when the next write is already running.
\<close>

theorem stale_timeout_ignored:
  assumes "quiet_env E" "on_async_write_completed E ec n c = Some c'"
    and "length (c_write_queue c) < 2 ^ 60"
  shows "handle_write_operation_timeout_impl E (wd_timeout_key (c_watchdog c)) c' = Some c'"
proof -
  obtain bufs where bufs: "c_async c = Some bufs"
    using assms(2) by (auto simp: on_async_write_completed_def split: option.splits)
  define c1 where "c1 = observe (O_async_write_finished n) (c\<lparr>c_wire := c_wire c @ take n (concat bufs), c_async := None\<rparr>)"
  obtain c2 where c2: "after_write (write_fuel c1) E ec n c1 = Some c2" "c' = observe (O_inc_bytes_tx_async n) c2"
    using assms(2) bufs by (auto simp: on_async_write_completed_def c1_def Let_def split: bind_splits)
  obtain j where j: "j \<le> 3 * write_fuel c1" "0 < j"
      "wd_timeout_key (c_watchdog c2) = wd_timeout_key (c_watchdog c1) + of_nat j"
    using quiet_env.write_key [OF assms(1)] c2(1) by blast
  have "j < 2 ^ 64" using j(1) assms(3) by (simp add: write_fuel_def c1_def observe_def)
  then have "(of_nat j :: u64) \<noteq> 0" using j(2) by (auto simp: word_of_nat_eq_0_iff dest: nat_dvd_not_less)
  then have "wd_timeout_key (c_watchdog c') \<noteq> wd_timeout_key (c_watchdog c)"
    using j(3) c2(2) by (simp add: c1_def observe_def)
  then show ?thesis by (simp add: handle_write_operation_timeout_impl_def)
qed

theorem stale_timeout_ignored_witness:
  "\<exists>c'. on_async_write_completed demo_env Ec_success 2 demo_mid = Some c' \<and>
        handle_write_operation_timeout_impl demo_env 1 c' = Some c'"
proof -
  obtain c' where "on_async_write_completed demo_env Ec_success 2 demo_mid = Some c'"
    by (fastforce simp: demo_mid_def demo_eval)
  then show ?thesis
    using stale_timeout_ignored [OF demo_env_quiet, of Ec_success 2 demo_mid c'] by (simp add: demo_mid_simps)
qed

text \<open>
  A timeout of the write in progress shuts the connection down: no more reads, no more sends, the
  socket is shut down, the handler is told \<open>write_timeout\<close>, and a second timeout with the same key
  does nothing.
\<close>

lemma timeout_shuts_down:
  assumes "quiet_env E" "c_is_write_operation_running c" "key = wd_timeout_key (c_watchdog c)"
    and "\<not> c_shutdown_was_called c" "c_socket_open c" "c_shutdown_handler c = Some h"
  shows "\<exists>c'. handle_write_operation_timeout_impl E key c = Some c' \<and>
    \<not> c_read_is_enabled c' \<and> \<not> c_schedule_for_write_is_enabled c' \<and> c_shutdown_was_called c' \<and>
    prefix (c_out c @ [O_socket_shutdown, O_shutdown_handler Write_timeout]) (c_out c') \<and>
    handle_write_operation_timeout_impl E key c' = Some c'"
  using assms(2-)
  by (rule_tac quiet_env.shutdown_impl_cases [OF assms(1), of c Write_timeout])
    (auto simp: handle_write_operation_timeout_impl_def shutdown_impl_eq shutdown_begin_def observe_def Let_def)

lemma timeout_shuts_down_witness:
  "\<exists>c'. handle_write_operation_timeout_impl demo_env 1 demo_mid = Some c' \<and> c_shutdown_was_called c'"
  using timeout_shuts_down [OF demo_env_quiet, of demo_mid 1 7] by (auto simp: demo_mid_simps)



text \<open>
  C16. The destructor leaves no callback behind: every callback in the queue is called, in order, with
  \<open>io_error\<close> for the sequence being written and \<open>didnt_send\<close> for the others.
\<close>

lemma didnt_send_all_quiet:
  assumes "quiet_env E"
  shows "\<exists>c'. didnt_send_all E q c = Some c' \<and>
    c_out c' = c_out c @ map (\<lambda>cb. O_send_complete cb Send_didnt_send) (queue_cbs q)"
proof (induction q arbitrary: c)
  case (Cons ws q)
  show ?case
    using Cons [of "c\<lparr>c_out := c_out c @ map (\<lambda>cb. O_send_complete cb Send_didnt_send) (ws_cbs ws), c_write_queue := q\<rparr>"]
    by (auto simp: quiet_env.run_callbacks_quiet [OF assms] ws_send_complete_cb_list_def)
qed simp

theorem destructor_answers_all:
  assumes "quiet_env E" "conn_reachable E (connection_ctor E cfg inp shut) c"
  shows "\<exists>c'. handle_remainig_write_queue E c = Some c' \<and>
    c_out c' = c_out c @
      (if c_is_write_operation_running c then
         map (\<lambda>cb. O_send_complete cb Send_io_error) (ws_cbs (hd (c_write_queue c))) @
         map (\<lambda>cb. O_send_complete cb Send_didnt_send) (queue_cbs (tl (c_write_queue c)))
       else map (\<lambda>cb. O_send_complete cb Send_didnt_send) (queue_cbs (c_write_queue c)))"
proof -
  note inv = quiet_env.reachable_inv [OF assms]
  obtain ws q where q: "c_write_queue c = ws # q"
    using inv by (cases "c_write_queue c") (auto simp: conn_inv_def conn_ok_def conn_core_def queue_wf_def)
  have shape: "c_write_queue c = [ws_empty] \<and> \<not> c_is_write_operation_running c \<or> 2 \<le> length (c_write_queue c)"
    using inv by (auto simp: conn_inv_def conn_ok_def conn_idle_def conn_writing_def conn_failed_def)
  then show ?thesis
  proof
    assume "c_write_queue c = [ws_empty] \<and> \<not> c_is_write_operation_running c"
    then show ?thesis by (simp add: handle_remainig_write_queue_def ws_asio_bufs_def)
  next
    assume "2 \<le> length (c_write_queue c)"
    then have len: "Suc 0 < length (c_write_queue c)" by simp
    obtain c1 where "didnt_send_all E q (c\<lparr>c_out := c_out c @ map (\<lambda>cb. O_send_complete cb Send_io_error) (ws_cbs ws),
          c_write_queue := q\<rparr>) = Some c1"
        "c_out c1 = c_out c @ map (\<lambda>cb. O_send_complete cb Send_io_error) (ws_cbs ws) @
          map (\<lambda>cb. O_send_complete cb Send_didnt_send) (queue_cbs q)"
      using didnt_send_all_quiet [OF assms(1), of q "c\<lparr>c_out := c_out c @ map (\<lambda>cb. O_send_complete cb Send_io_error) (ws_cbs ws),
          c_write_queue := q\<rparr>"] by auto
    then show ?thesis
      using len didnt_send_all_quiet [OF assms(1), of "c_write_queue c" c]
      by (cases "c_is_write_operation_running c")
        (auto simp: handle_remainig_write_queue_def q quiet_env.run_callbacks_quiet [OF assms(1)]
          ws_send_complete_cb_list_def)
  qed
qed

theorem destructor_answers_all_witness:
  "\<exists>c'. handle_remainig_write_queue demo_env demo_mid = Some c' \<and>
     c_out c' = c_out demo_mid @ [O_send_complete 1 Send_io_error, O_send_complete 2 Send_didnt_send]"
  using destructor_answers_all [OF demo_env_quiet demo_mid_reachable] by (simp add: demo_mid_simps)

section \<open>Reading\<close>

text \<open>
  C17. A completed read hands the input handler exactly the bytes that arrived; whatever the handler
  does with the buffer and whether or not it supplies the next one, the connection has a buffer of
  positive size for the next read, and the next read is started exactly when reading is enabled.
\<close>

theorem read_delivers_bytes:
  assumes "quiet_env E" "sb_wf (c_read_buffer c)" "length bytes \<le> sb_size (c_read_buffer c)"
    and "0 < c_pending_reads c"
    and "\<And>buffer c2. sb_view buffer = bytes \<Longrightarrow> c_out c2 = c_out c @ [O_inc_bytes_rx_async (length bytes), O_input bytes] \<Longrightarrow>
      e_input E (c_input_handler c) buffer c2 = Some (left buffer, nb, c2)"
    and "\<And>buffer. sb_wf buffer \<Longrightarrow> sb_wf (left buffer)" "0 < m_input_buffer_size (c_cfg c)"
  shows "\<exists>c'. on_async_read_completed E Ec_success bytes c = Some c' \<and> 0 < sb_size (c_read_buffer c') \<and>
    c_out c' = c_out c @ [O_inc_bytes_rx_async (length bytes), O_input bytes] @
      (if c_read_is_enabled c then [O_read_started (sb_size (c_read_buffer c'))] else []) \<and>
    c_pending_reads c' = c_pending_reads c - 1 + (if c_read_is_enabled c then 1 else 0)"
proof -
  have drv: "buffer_driver_laws (e_driver E)" using assms(1) by (simp add: quiet_env_def)
  obtain buffer where buffer: "sb_wf buffer" "sb_view buffer = bytes"
      "on_async_read_completed E Ec_success bytes c = do {
         (left, nb, c3) \<leftarrow> e_input E (c_input_handler c) buffer
           (c\<lparr>c_pending_reads := c_pending_reads c - 1, c_read_buffer := sb_default,
              c_out := c_out c @ [O_inc_bytes_rx_async (length bytes), O_input bytes]\<rparr>);
         Some (let c4 = c3\<lparr>c_read_buffer := next_buffer E left nb c3\<rparr> in if c_read_is_enabled c3 then initiate_read c4 else c4) }"
    by (rule read_completed_eq [OF drv assms(2,3,4)])
  define c2 where "c2 = c\<lparr>c_pending_reads := c_pending_reads c - 1, c_read_buffer := sb_default,
      c_out := c_out c @ [O_inc_bytes_rx_async (length bytes), O_input bytes]\<rparr>"
  have inp: "e_input E (c_input_handler c) buffer c2 = Some (left buffer, nb, c2)"
    using assms(5) buffer(2) by (simp add: c2_def)
  have next_pos: "0 < sb_size (next_buffer E (left buffer) nb c2)"
    using buffer_driver_laws.reallocate_input [OF drv assms(6) [OF buffer(1)], of "m_input_buffer_size (c_cfg c)"] assms(7)
    by (auto simp: next_buffer_def c2_def split: option.splits)
  have "on_async_read_completed E Ec_success bytes c =
      (let c4 = c2\<lparr>c_read_buffer := next_buffer E (left buffer) nb c2\<rparr>
       in if c_read_is_enabled c then Some (initiate_read c4) else Some c4)"
    unfolding buffer(3) c2_def [symmetric] inp by (simp add: Let_def c2_def)
  then show ?thesis
    using next_pos by (auto simp: Let_def initiate_read_def observe_def c2_def)
qed

definition demo_reading :: "simple_buffer conn" where
  "demo_reading = the (conn_run demo_env [Ev_call W_start_reading, Ev_strand] demo_conn)"

lemma demo_reading_simps:
  "c_read_buffer demo_reading = sb_new 4" "c_pending_reads demo_reading = 1" "c_read_is_enabled demo_reading"
  "c_input_handler demo_reading = 0" "m_input_buffer_size (c_cfg demo_reading) = 4"
  by (simp_all add: demo_reading_def demo_eval start_reading_work_def initiate_read_def)

theorem read_delivers_bytes_witness:
  "\<exists>c'. on_async_read_completed demo_env Ec_success [1, 2, 3] demo_reading = Some c' \<and>
     0 < sb_size (c_read_buffer c') \<and> c_pending_reads c' = 1"
  using read_delivers_bytes [OF demo_env_quiet, of demo_reading "[1, 2, 3]" "\<lambda>b. b" None]
  by (auto simp: demo_reading_simps demo_env_def plain_env_def)

end
