(* ===== verification/ConnectionLimits.thy ===== *)
theory ConnectionLimits
  imports ConnectionProps
begin

text \<open>
  Where the guarantees of a connection end: concrete runs, evaluated by the simplifier, of the code as
  it is written. They show a callback called twice, bytes the statistics miss, two reads on one
  buffer, an assertion a stream of small sends reaches, and what happens when a callback sends or a
  shutdown handler shuts down.
\<close>

section \<open>A callback is called twice\<close>

text \<open>
  \<open>after_write\<close> runs the callbacks of a failed write but leaves the sequence in the queue, and the
  destructor runs them again.
\<close>

definition failing_events :: "simple_buffer conn_event list" where
  "failing_events =
     [Ev_call (W_send (Some 1) [sb_of_bytes [1, 2, 3, 4, 5]]), Ev_strand, Ev_write_completed (Ec_system 104) 0]"

text \<open>
  After a failed asynchronous write and the destruction of the connection the completion callback
  has been called twice.
\<close>

lemma failed_write_calls_back_twice:
  "run_ok demo_env failing_events demo_conn \<and>
   (\<exists>c c'. conn_run demo_env failing_events demo_conn = Some c \<and> handle_remainig_write_queue demo_env c = Some c' \<and>
     length (filter (\<lambda>ob. ob = O_send_complete 1 Send_io_error) (c_out c')) = 2)"
  by (simp add: failing_events_def demo_eval handle_remainig_write_queue_def)

section \<open>Bytes the statistics miss\<close>

text \<open>
  The bytes of a synchronous write that would block are not reported with \<open>inc_bytes_tx_sync\<close>; only an
  aggressive write reports a partial transfer.
\<close>

fun counted_tx :: "observation list \<Rightarrow> nat" where
  "counted_tx [] = 0"
| "counted_tx (O_inc_bytes_tx_sync n # obs) = n + counted_tx obs"
| "counted_tx (O_inc_bytes_tx_async n # obs) = n + counted_tx obs"
| "counted_tx (_ # obs) = counted_tx obs"

definition partial_room :: "nat \<Rightarrow> nat" where
  "partial_room k = (if k = 0 then 0 else 2)"

definition partial_env :: "simple_buffer conn_env" where
  "partial_env = plain_env 64 partial_room simple_buffer_driver"

definition partial_events :: "simple_buffer conn_event list" where
  "partial_events =
     [Ev_call (W_send None [sb_of_bytes [1, 2, 3, 4, 5]]), Ev_strand, Ev_write_completed Ec_success 3]"

text \<open>
  A run in which the operating system has taken five bytes and the statistics have counted three.
\<close>

lemma stats_miss_partial_sync_write:
  "run_ok partial_env partial_events demo_conn \<and>
   (\<exists>c. conn_run partial_env partial_events demo_conn = Some c \<and> length (c_wire c) = 5 \<and> counted_tx (c_out c) = 3)"
  by (simp add: partial_events_def partial_env_def partial_room_def demo_eval)

section \<open>Two reads on one buffer\<close>

text \<open>
  Stopping and starting again while a read is in progress starts a second read on the same
  buffer: the flag says whether the loop should go on, not whether a read is in progress.
\<close>

lemma restart_reading_doubles_read:
  "\<exists>c. conn_run demo_env [Ev_call W_start_reading, Ev_strand, Ev_call W_stop_reading, Ev_strand,
      Ev_call W_start_reading, Ev_strand] demo_conn = Some c \<and> c_pending_reads c = 2"
  by (simp add: demo_eval start_reading_work_def stop_reading_work_def initiate_read_def)

section \<open>Many small sends with callbacks\<close>

text \<open>
  Compaction makes room for buffers but not for callbacks. With room for two of each, the fourth send
  with a callback trips the assertion of \<open>append_completion_cb\<close> while a write is running.
\<close>

definition small_env :: "simple_buffer conn_env" where
  "small_env = plain_env 2 (\<lambda>_. 0) simple_buffer_driver"

definition small_events :: "simple_buffer conn_event list" where
  "small_events =
     [Ev_call (W_send (Some 1) [sb_of_bytes [1]]), Ev_strand,
      Ev_call (W_send (Some 2) [sb_of_bytes [2]]), Ev_strand,
      Ev_call (W_send (Some 3) [sb_of_bytes [3]]), Ev_strand,
      Ev_call (W_send (Some 4) [sb_of_bytes [4]])]"

text \<open>
  The fourth send is enabled and its assertion fails: the step has no result.
\<close>

lemma callbacks_overflow:
  "run_ok small_env small_events demo_conn \<and>
   (\<exists>c. conn_run small_env small_events demo_conn = Some c \<and> ev_ok Ev_strand c \<and> conn_step small_env Ev_strand c = None)"
  by (simp add: small_events_def small_env_def demo_eval ws_concat_small_buffers_def
      concat_loop.simps concat_find_last.simps sb_write_def simple_allocate_output_def)

section \<open>Handlers that call back\<close>

text \<open>A completion callback that sends one byte, on the connection's own strand.\<close>

definition reentrant_env :: "simple_buffer conn_env" where
  "reentrant_env = (let E = plain_env 64 (\<lambda>k. if k = 0 then 3 else if k = 2 then 0 else 100) simple_buffer_driver
     in E\<lparr>e_send_cb := (\<lambda>cb res c. if cb = 1 then send_work E None [sb_of_bytes [9]] c else Some c)\<rparr>)"

text \<open>
  The connection at the moment the callback runs: three bytes went out with the aggressive write, two
  with the synchronous one, and the sequence of the latter is still the front of the queue.
\<close>

definition at_callback :: "simple_buffer conn" where
  "at_callback = demo_conn\<lparr>c_wire := [1, 2, 3, 4, 5], c_nwrites := 2,
     c_write_queue := [\<lparr>ws_bufs = [sb_of_bytes [4, 5]], ws_cbs = [1]\<rparr>, ws_empty]\<rparr>"

text \<open>
  The callback of a synchronous write runs before its sequence is popped and while the running
  flag is off. A send in it writes the finished sequence a second time, and the assertion after the
  pop of the outer call fails, where the same send without the callback's send succeeds.
\<close>

lemma sending_in_callback_duplicates:
  "(\<exists>c. e_send_cb reentrant_env 1 Send_success at_callback = Some c \<and> c_wire c = [1, 2, 3, 4, 5, 4, 5, 9]) \<and>
   send_work reentrant_env (Some 1) [sb_of_bytes [1, 2, 3, 4, 5]] demo_conn = None \<and>
   (\<exists>c. send_work (reentrant_env\<lparr>e_send_cb := \<lambda>cb res c. Some c\<rparr>) (Some 1) [sb_of_bytes [1, 2, 3, 4, 5]] demo_conn = Some c \<and>
      c_wire c = [1, 2, 3, 4, 5])"
  by (simp add: reentrant_env_def at_callback_def demo_eval)

definition shutdown_twice_env :: "simple_buffer conn_env" where
  "shutdown_twice_env = demo_env\<lparr>e_shutdown_cb := (\<lambda>h reason c. shutdown_impl demo_env User_initiated c)\<rparr>"

text \<open>
  The flag that makes shutdown happen once is set after the handler ran: a handler that shuts the
  connection down is called again.
\<close>

lemma shutdown_in_handler_repeats:
  "\<exists>c. shutdown_impl shutdown_twice_env Io_error demo_conn = Some c \<and>
     c_out c = [O_socket_shutdown, O_shutdown_handler Io_error, O_socket_shutdown, O_shutdown_handler User_initiated]"
  by (simp add: shutdown_twice_env_def demo_eval)

end
