(* ===== verification/Acceptor.thy ===== *)
theory Acceptor
  imports NetBase
begin

text \<open>
  \<open>net/include/opio/net/tcp/acceptor.hpp\<close>: \<open>acceptor_t\<close>, with the executor's queue and asio's
  acceptor as part of the state. An accept operation in progress is counted; when it completes, its
  handler is queued. The steps are the functions the executor runs.
\<close>

section \<open>State\<close>

text \<open>\<open>cb\<close> says whether the caller of \<open>open\<close> or \<open>close\<close> passed a callback.\<close>

datatype acceptor_work =
    A_open bool
  | A_close bool
  | A_on_connection error_code

datatype acceptor_observation =
    Ao_openclose error_code
  | Ao_options "socket_option list"
  | Ao_accepted
  | Ao_handler_failed

record acceptor =
  a_is_open :: bool
  a_listening :: bool
  a_options :: socket_options_cfg
  a_pending_accepts :: nat
  a_queue :: "acceptor_work list"
  a_opens :: nat
  a_accepts :: nat
  a_out :: "acceptor_observation list"

text \<open>
  Asio and the user: at which call, if any, the \<open>k\<close>-th attempt to open throws, the options a new
  socket accepts, and whether the user's callbacks throw (the accept callback by the number of the
  accepted connection).
\<close>

datatype open_outcome = Open_ok | Open_throws | Reuse_throws | Bind_throws | Listen_throws

record acceptor_env =
  ae_open :: "nat \<Rightarrow> open_outcome"
  ae_accepts_option :: "socket_option \<Rightarrow> bool"
  ae_accept_cb_throws :: "nat \<Rightarrow> bool"
  ae_openclose_cb_throws :: bool

definition acceptor_ctor :: "socket_options_cfg \<Rightarrow> acceptor" where
  "acceptor_ctor options = \<lparr>a_is_open = False, a_listening = False, a_options = options,
     a_pending_accepts = 0, a_queue = [], a_opens = 0, a_accepts = 0, a_out = []\<rparr>"

definition a_observe :: "acceptor_observation \<Rightarrow> acceptor \<Rightarrow> acceptor" where
  "a_observe ob a = a\<lparr>a_out := a_out a @ [ob]\<rparr>"

section \<open>Operations\<close>

definition acceptor_open :: "bool \<Rightarrow> acceptor \<Rightarrow> acceptor" where
  "acceptor_open cb a = a\<lparr>a_queue := a_queue a @ [A_open cb]\<rparr>"

definition acceptor_close :: "bool \<Rightarrow> acceptor \<Rightarrow> acceptor" where
  "acceptor_close cb a = a\<lparr>a_queue := a_queue a @ [A_close cb]\<rparr>"

text \<open>The callback's own exceptions end here, in the log.\<close>

definition call_openclose_cb :: "acceptor_env \<Rightarrow> bool \<Rightarrow> error_code \<Rightarrow> acceptor \<Rightarrow> acceptor" where
  "call_openclose_cb E cb ec a =
     (if cb then
        let a = a_observe (Ao_openclose ec) a
        in if ae_openclose_cb_throws E then a_observe Ao_handler_failed a else a
      else a)"

text \<open>\<open>async_accept\<close> on a closed acceptor completes at once with \<open>bad_descriptor\<close> (9).\<close>

definition accept_next :: "acceptor \<Rightarrow> acceptor" where
  "accept_next a =
     (if a_is_open a then a\<lparr>a_pending_accepts := a_pending_accepts a + 1\<rparr>
      else a\<lparr>a_queue := a_queue a @ [A_on_connection (Ec_system 9)]\<rparr>)"

definition open_impl :: "acceptor_env \<Rightarrow> bool \<Rightarrow> acceptor \<Rightarrow> acceptor" where
  "open_impl E cb a =
     (if a_is_open a then
        call_openclose_cb E cb (make_std_compaible_error Open_acceptor_failed_already_started) a
      else
        let outcome = ae_open E (a_opens a);
            a = a\<lparr>a_opens := a_opens a + 1\<rparr>;
            failed = call_openclose_cb E cb (make_std_compaible_error Open_acceptor_failed_exception_happened)
        in if outcome = Open_throws then failed a
           else
             let a = a\<lparr>a_is_open := True\<rparr>
             in if outcome = Reuse_throws then failed a
                else if outcome = Bind_throws then failed a
                else if outcome = Listen_throws then failed a
                else
                  let a = a\<lparr>a_listening := True\<rparr>;
                      a = accept_next a
                  in call_openclose_cb E cb Ec_success a)"

text \<open>\<open>m_acceptor.close()\<close> completes the operations in progress with \<open>operation_aborted\<close>.\<close>

definition asio_acceptor_close :: "acceptor \<Rightarrow> acceptor" where
  "asio_acceptor_close a =
     a\<lparr>a_is_open := False, a_listening := False, a_pending_accepts := 0,
       a_queue := a_queue a @ replicate (a_pending_accepts a) (A_on_connection Ec_operation_aborted)\<rparr>"

definition close_impl :: "acceptor_env \<Rightarrow> bool \<Rightarrow> acceptor \<Rightarrow> acceptor" where
  "close_impl E cb a =
     (if a_is_open a then call_openclose_cb E cb Ec_success (asio_acceptor_close a)
      else call_openclose_cb E cb (make_std_compaible_error Close_acceptor_failed_not_running) a)"

text \<open>An exception from the options or from the callback is caught and the next accept is started.\<close>

definition on_connection :: "acceptor_env \<Rightarrow> error_code \<Rightarrow> acceptor \<Rightarrow> acceptor" where
  "on_connection E ec a =
     (if \<not> ec_failed ec then
        let (applied, ok) = set_socket_options (ae_accepts_option E) (a_options a);
            a = a_observe (Ao_options applied) a;
            throws = ae_accept_cb_throws E (a_accepts a);
            (a, caught) =
              (if ok then (a_observe Ao_accepted (a\<lparr>a_accepts := a_accepts a + 1\<rparr>), throws) else (a, True));
            a = (if caught then a_observe Ao_handler_failed a else a)
        in accept_next a
      else if ec = Ec_operation_aborted then a
      else accept_next a)"

fun acceptor_run_work :: "acceptor_env \<Rightarrow> acceptor_work \<Rightarrow> acceptor \<Rightarrow> acceptor" where
  "acceptor_run_work E (A_open cb) a = open_impl E cb a"
| "acceptor_run_work E (A_close cb) a = close_impl E cb a"
| "acceptor_run_work E (A_on_connection ec) a = on_connection E ec a"

section \<open>Runs\<close>

text \<open>The user calls a function, a connection arrives (or accepting fails), the executor runs on.\<close>

datatype acceptor_event = Ae_open bool | Ae_close bool | Ae_incoming error_code | Ae_run

fun acceptor_step :: "acceptor_env \<Rightarrow> acceptor_event \<Rightarrow> acceptor \<Rightarrow> acceptor option" where
  "acceptor_step E (Ae_open cb) a = Some (acceptor_open cb a)"
| "acceptor_step E (Ae_close cb) a = Some (acceptor_close cb a)"
| "acceptor_step E (Ae_incoming ec) a =
     (if 0 < a_pending_accepts a \<and> ec \<noteq> Ec_operation_aborted
      then Some (a\<lparr>a_pending_accepts := a_pending_accepts a - 1,
                   a_queue := a_queue a @ [A_on_connection ec]\<rparr>)
      else None)"
| "acceptor_step E Ae_run a =
     (case a_queue a of [] \<Rightarrow> None | w # ws \<Rightarrow> Some (acceptor_run_work E w (a\<lparr>a_queue := ws\<rparr>)))"

fun acceptor_run :: "acceptor_env \<Rightarrow> acceptor_event list \<Rightarrow> acceptor \<Rightarrow> acceptor option" where
  "acceptor_run E [] a = Some a"
| "acceptor_run E (ev # evs) a = (case acceptor_step E ev a of None \<Rightarrow> None | Some a \<Rightarrow> acceptor_run E evs a)"



section \<open>One accept at a time\<close>










section \<open>Properties\<close>


definition plain_acceptor_env :: acceptor_env where
  "plain_acceptor_env = \<lparr>ae_open = (\<lambda>_. Open_ok), ae_accepts_option = (\<lambda>_. True),
     ae_accept_cb_throws = (\<lambda>_. True), ae_openclose_cb_throws = False\<rparr>"


text \<open>
  The answers of \<open>open\<close> and \<open>close\<close>: opening an open acceptor and closing a closed one report the
  error for it and change nothing; a successful open listens and starts accepting; closing aborts the
  accept in progress and reports success.
\<close>

lemma open_close_answers:
  assumes "\<not> ae_openclose_cb_throws E"
  shows "(a_is_open a \<longrightarrow> open_impl E True a =
      a_observe (Ao_openclose (Ec_opio 0x20001)) a) \<and>
   (\<not> a_is_open a \<longrightarrow> close_impl E True a = a_observe (Ao_openclose (Ec_opio 0x20003)) a) \<and>
   (\<not> a_is_open a \<and> ae_open E (a_opens a) = Open_ok \<longrightarrow>
      a_listening (open_impl E True a) \<and> a_pending_accepts (open_impl E True a) = a_pending_accepts a + 1 \<and>
      a_out (open_impl E True a) = a_out a @ [Ao_openclose Ec_success]) \<and>
   (a_is_open a \<longrightarrow> \<not> a_is_open (close_impl E True a) \<and> a_pending_accepts (close_impl E True a) = 0 \<and>
      a_out (close_impl E True a) = a_out a @ [Ao_openclose Ec_success])"
  by (auto simp: open_impl_def close_impl_def call_openclose_cb_def make_std_compaible_error_def
      asio_acceptor_close_def accept_next_def a_observe_def assms Let_def)

lemma open_close_answers_witness:
  "open_impl plain_acceptor_env True ((acceptor_ctor default_socket_options)\<lparr>a_is_open := True\<rparr>) =
   a_observe (Ao_openclose (Ec_opio 0x20001)) ((acceptor_ctor default_socket_options)\<lparr>a_is_open := True\<rparr>)"
  using open_close_answers [of plain_acceptor_env "(acceptor_ctor default_socket_options)\<lparr>a_is_open := True\<rparr>"]
  by (simp add: plain_acceptor_env_def)

text \<open>
  When binding fails the acceptor object stays open: the next \<open>open\<close> answers that the server is
  already started, although nothing listens.
\<close>

lemma failed_bind_blocks_reopen:
  "\<exists>a. acceptor_run (plain_acceptor_env\<lparr>ae_open := (\<lambda>k. if k = 0 then Bind_throws else Open_ok)\<rparr>)
      [Ae_open True, Ae_run, Ae_open True, Ae_run] (acceptor_ctor default_socket_options) = Some a \<and>
    a_out a = [Ao_openclose (Ec_opio 0x20002), Ao_openclose (Ec_opio 0x20001)] \<and> \<not> a_listening a"
  by (simp add: acceptor_ctor_def acceptor_open_def open_impl_def call_openclose_cb_def a_observe_def
      plain_acceptor_env_def make_std_compaible_error_def Let_def)

text \<open>An accept completes, the acceptor is closed before the handler runs, and then the executor goes on.\<close>

definition close_race :: "acceptor_event list" where
  "close_race = [Ae_open True, Ae_run, Ae_close True, Ae_incoming Ec_success, Ae_run, Ae_run]"

lemma accept_loop_spins:
  assumes "a_queue a = [A_on_connection (Ec_system 9)]" "\<not> a_is_open a"
  shows "acceptor_run E (replicate n Ae_run) a = Some a"
  using assms
proof (induction n)
  case (Suc n)
  have "acceptor_step E Ae_run a = Some a"
    using Suc.prems by (simp add: on_connection_def ec_failed_def accept_next_def)
  then show ?case using Suc by simp
qed simp

text \<open>
  Closing while a completed accept waits for its handler does not stop the accept loop: the
  handler starts the next accept on the closed acceptor, which fails at once, and its handler starts
  another: however long the executor runs, it finds the same work again.
\<close>

lemma close_race_spins:
  "\<exists>a. acceptor_run plain_acceptor_env close_race (acceptor_ctor default_socket_options) = Some a \<and>
     \<not> a_is_open a \<and> (\<forall>n. acceptor_run plain_acceptor_env (replicate n Ae_run) a = Some a)"
proof -
  obtain a where a: "acceptor_run plain_acceptor_env close_race (acceptor_ctor default_socket_options) = Some a"
      "a_queue a = [A_on_connection (Ec_system 9)]" "\<not> a_is_open a"
    by (simp add: close_race_def acceptor_ctor_def acceptor_open_def acceptor_close_def open_impl_def close_impl_def
        asio_acceptor_close_def accept_next_def call_openclose_cb_def
        a_observe_def plain_acceptor_env_def on_connection_def ec_failed_def set_socket_options_def
        set_socket_options_calls_def default_socket_options_def Let_def)
  then show ?thesis using accept_loop_spins by blast
qed

text \<open>
  If the acceptor is opened again while that loop runs, its next round starts an accept on the open
  acceptor beside the one \<open>open\<close> has started: two accepts are in progress on one socket object.
\<close>

lemma reopen_doubles_accepts:
  "\<exists>a. acceptor_run plain_acceptor_env
      [Ae_open True, Ae_run, Ae_close True, Ae_incoming Ec_success, Ae_open True, Ae_run, Ae_run, Ae_run, Ae_run]
      (acceptor_ctor default_socket_options) = Some a \<and>
    a_is_open a \<and> a_listening a \<and> a_queue a = [] \<and> a_pending_accepts a = 2"
  by (simp add: acceptor_ctor_def acceptor_open_def acceptor_close_def open_impl_def close_impl_def
      asio_acceptor_close_def accept_next_def call_openclose_cb_def
      a_observe_def plain_acceptor_env_def on_connection_def ec_failed_def set_socket_options_def
      set_socket_options_calls_def default_socket_options_def Let_def)

end
