(* ===== verification/Connector.thy ===== *)
theory Connector
  imports NetBase
begin

text \<open>
  \<open>net/include/opio/net/tcp/connector.hpp\<close>: \<open>connector_t\<close> and the \<open>async_connect\<close> functions. A
  connector resolves, connects and reports once; the phases are the handlers it waits for, and
  \<open>Cn_escaped\<close> is an exception that leaves a handler into the executor.
\<close>

section \<open>State\<close>

datatype connector_phase = Cn_new | Cn_resolving | Cn_connecting | Cn_done | Cn_escaped

datatype connector_observation =
    Co_async_resolve tcp_protocol string string
  | Co_socket_open
  | Co_options "socket_option list"
  | Co_async_connect nat
  | Co_on_connection error_code
  | Co_callback_failed

record connector =
  cn_query :: "tcp_protocol \<times> string \<times> string"
  cn_options :: socket_options_cfg
  cn_phase :: connector_phase
  cn_out :: "connector_observation list"

text \<open>
  Endpoints are numbers. The environment says whether \<open>m_socket.open\<close> throws, which options are
  accepted and whether the user's callback throws.
\<close>

record connector_env =
  cne_open_throws :: bool
  cne_accepts_option :: "socket_option \<Rightarrow> bool"
  cne_cb_throws :: bool

definition connector_ctor :: "tcp_protocol \<times> string \<times> string \<Rightarrow> socket_options_cfg \<Rightarrow> connector" where
  "connector_ctor query options = \<lparr>cn_query = query, cn_options = options, cn_phase = Cn_new, cn_out = []\<rparr>"

definition cn_observe :: "connector_observation \<Rightarrow> connector \<Rightarrow> connector" where
  "cn_observe ob c = c\<lparr>cn_out := cn_out c @ [ob]\<rparr>"

section \<open>Handlers\<close>

definition connector_connect :: "connector \<Rightarrow> connector" where
  "connector_connect c =
     (let (protocol, host, service) = cn_query c
      in cn_observe (Co_async_resolve protocol host service) (c\<lparr>cn_phase := Cn_resolving\<rparr>))"

text \<open>
  A successful resolve has at least one result. Opening the socket and setting the options are not
  guarded, nor is the callback for a failed resolve.
\<close>

definition handle_resolve :: "connector_env \<Rightarrow> error_code \<Rightarrow> nat list \<Rightarrow> connector \<Rightarrow> connector option" where
  "handle_resolve E ec results c =
     (if \<not> ec_failed ec then
        (case results of
           [] \<Rightarrow> None
         | ep # _ \<Rightarrow> Some (
             if cne_open_throws E then c\<lparr>cn_phase := Cn_escaped\<rparr>
             else
               let c = cn_observe Co_socket_open c;
                   (applied, ok) = set_socket_options (cne_accepts_option E) (cn_options c);
                   c = cn_observe (Co_options applied) c
               in if \<not> ok then c\<lparr>cn_phase := Cn_escaped\<rparr>
                  else cn_observe (Co_async_connect ep) (c\<lparr>cn_phase := Cn_connecting\<rparr>)))
      else
        let c = cn_observe (Co_on_connection ec) c
        in Some (if cne_cb_throws E then c\<lparr>cn_phase := Cn_escaped\<rparr> else c\<lparr>cn_phase := Cn_done\<rparr>))"

definition handle_connect :: "connector_env \<Rightarrow> error_code \<Rightarrow> connector \<Rightarrow> connector" where
  "handle_connect E ec c =
     (let c = cn_observe (Co_on_connection ec) c;
          c = (if cne_cb_throws E then cn_observe Co_callback_failed c else c)
      in c\<lparr>cn_phase := Cn_done\<rparr>)"

text \<open>\<open>async_connect\<close>: an empty callback is an exception; the other overloads fill in the arguments.\<close>

definition async_connect ::
  "bool \<Rightarrow> tcp_protocol \<times> string \<times> string \<Rightarrow> socket_options_cfg \<Rightarrow> string + connector" where
  "async_connect has_cb query options =
     (if \<not> has_cb then Inl ''invalid on-connection callback''
      else Inr (connector_connect (connector_ctor query options)))"

definition async_connect_default_options :: "bool \<Rightarrow> tcp_protocol \<times> string \<times> string \<Rightarrow> string + connector" where
  "async_connect_default_options has_cb query = async_connect has_cb query default_socket_options"

definition async_connect_host_port ::
  "bool \<Rightarrow> string \<Rightarrow> u16 \<Rightarrow> socket_options_cfg \<Rightarrow> string + connector" where
  "async_connect_host_port has_cb host port options =
     async_connect has_cb (TcpV4, host, fmt_nat (unat port)) options"

definition async_connect_host_port_default_options :: "bool \<Rightarrow> string \<Rightarrow> u16 \<Rightarrow> string + connector" where
  "async_connect_host_port_default_options has_cb host port =
     async_connect_host_port has_cb host port default_socket_options"

section \<open>Runs\<close>

text \<open>What asio delivers: the result of resolving, then the result of connecting.\<close>

inductive connector_step :: "connector_env \<Rightarrow> connector \<Rightarrow> connector \<Rightarrow> bool" for E where
  cn_resolved: "cn_phase c = Cn_resolving \<Longrightarrow> handle_resolve E ec results c = Some c' \<Longrightarrow> connector_step E c c'"
| cn_connected: "cn_phase c = Cn_connecting \<Longrightarrow> c' = handle_connect E ec c \<Longrightarrow> connector_step E c c'"

inductive_cases connector_stepE: "connector_step E c c'"

definition connector_callbacks :: "connector \<Rightarrow> nat" where
  "connector_callbacks c = length (filter (\<lambda>ob. \<exists>ec. ob = Co_on_connection ec) (cn_out c))"

definition connector_inv :: "connector_env \<Rightarrow> connector \<Rightarrow> bool" where
  "connector_inv E c \<longleftrightarrow> connector_callbacks c \<le> 1 \<and>
     (cn_phase c \<in> {Cn_resolving, Cn_connecting} \<longrightarrow> connector_callbacks c = 0) \<and>
     (cn_phase c = Cn_done \<longrightarrow> connector_callbacks c = 1) \<and>
     (cn_phase c = Cn_escaped \<longrightarrow> cne_open_throws E \<or> cne_cb_throws E \<or>
        \<not> snd (set_socket_options (cne_accepts_option E) (cn_options c))) \<and>
     cn_phase c \<noteq> Cn_new"

lemma connector_connect_inv: "connector_inv E (connector_connect (connector_ctor query options))"
  by (simp add: connector_inv_def connector_connect_def connector_ctor_def connector_callbacks_def cn_observe_def
      case_prod_beta)

lemma connector_step_inv: "connector_step E c c' \<Longrightarrow> connector_inv E c \<Longrightarrow> connector_inv E c'"
  by (elim connector_stepE)
    (auto simp: connector_inv_def connector_callbacks_def handle_resolve_def handle_connect_def cn_observe_def
      Let_def case_prod_beta split: if_splits list.splits)

lemma connector_steps_inv:
  "(connector_step E)\<^sup>*\<^sup>* c c' \<Longrightarrow> connector_inv E c \<Longrightarrow> connector_inv E c'"
  by (induction rule: rtranclp_induct) (auto intro: connector_step_inv)

lemma connector_options_kept: "(connector_step E)\<^sup>*\<^sup>* c c' \<Longrightarrow> cn_options c' = cn_options c"
proof (induction rule: rtranclp_induct)
  case (step y z)
  have "cn_options z = cn_options y"
    using step(2) by (elim connector_stepE)
      (auto simp: handle_resolve_def handle_connect_def cn_observe_def Let_def case_prod_beta split: if_splits list.splits)
  then show ?case using step(3) by simp
qed simp

section \<open>Properties\<close>

text \<open>
  C38. A connector reports at most once, and exactly once when it is done: with the socket connected,
  with the error of the connect, or with the error of the resolve. It fails to report only when an
  exception leaves its handler, from opening the socket, from a refused option or from the callback.
\<close>

theorem connector_reports_once:
  assumes "async_connect True query options = Inr c0" "(connector_step E)\<^sup>*\<^sup>* c0 c"
  shows "connector_callbacks c \<le> 1 \<and> (cn_phase c = Cn_done \<longrightarrow> connector_callbacks c = 1) \<and>
    (cn_phase c = Cn_escaped \<longrightarrow>
       cne_open_throws E \<or> cne_cb_throws E \<or> \<not> snd (set_socket_options (cne_accepts_option E) options))"
proof -
  have c0: "c0 = connector_connect (connector_ctor query options)"
    using assms(1) by (simp add: async_connect_def)
  have "cn_options c = options"
    using connector_options_kept [OF assms(2)]
    by (simp add: c0 connector_connect_def connector_ctor_def cn_observe_def case_prod_beta)
  then show ?thesis
    using connector_steps_inv [OF assms(2)] connector_connect_inv [of E query options]
    by (simp add: c0 connector_inv_def)
qed

definition plain_connector_env :: connector_env where
  "plain_connector_env = \<lparr>cne_open_throws = False, cne_accepts_option = (\<lambda>_. True), cne_cb_throws = False\<rparr>"

theorem connector_reports_once_witness:
  "\<exists>c0 c1. async_connect True (TcpV4, ''localhost'', ''80'') default_socket_options = Inr c0 \<and>
     handle_resolve plain_connector_env Ec_success [5] c0 = Some c1 \<and>
     connector_callbacks (handle_connect plain_connector_env Ec_success c1) = 1"
proof -
  obtain c0 c1 where c: "async_connect True (TcpV4, ''localhost'', ''80'') default_socket_options = Inr c0"
      "cn_phase c0 = Cn_resolving"
      "handle_resolve plain_connector_env Ec_success [5] c0 = Some c1" "cn_phase c1 = Cn_connecting"
    by (simp add: async_connect_def connector_connect_def connector_ctor_def handle_resolve_def cn_observe_def
        ec_failed_def plain_connector_env_def set_socket_options_def set_socket_options_calls_def
        default_socket_options_def)
  have "(connector_step plain_connector_env)\<^sup>*\<^sup>* c0 (handle_connect plain_connector_env Ec_success c1)"
    using cn_resolved [OF c(2,3)] cn_connected [OF c(4) refl] by (meson converse_rtranclp_into_rtranclp rtranclp.rtrancl_refl)
  from connector_reports_once [OF c(1) this] c show ?thesis by (auto simp: handle_connect_def Let_def)
qed

text \<open>
  When the socket refuses a configured option the exception leaves the handler and the user's
  callback is never called.
\<close>

lemma refused_option_never_reported:
  "\<exists>c. handle_resolve (plain_connector_env\<lparr>cne_accepts_option := (\<lambda>_. False)\<rparr>) Ec_success [5]
      (connector_connect (connector_ctor (TcpV4, ''localhost'', ''80'') (default_socket_options\<lparr>no_delay := Some True\<rparr>))) = Some c \<and>
    cn_phase c = Cn_escaped \<and> connector_callbacks c = 0"
  by (simp add: connector_connect_def connector_ctor_def handle_resolve_def cn_observe_def connector_callbacks_def
      ec_failed_def plain_connector_env_def set_socket_options_def set_socket_options_calls_def
      default_socket_options_def)

end
