(* ===== verification/Udp.thy ===== *)
theory Udp
  imports NetBase
begin

text \<open>
  \<open>net/include/opio/net/udp/udp_message_receiver.hpp\<close>: \<open>udp_message_receiver_t\<close>, with the io context
  and the receive operations as part of the state; \<open>asio_thread_t\<close> of \<open>asio_thread.hpp\<close>; and the
  address look-ups \<open>network_iface_to_addr\<close> and \<open>try_make_addr\<close>.
\<close>

section \<open>The receiver\<close>

text \<open>
  The work on the io context: the functions the receiver posts, and the handler of a receive operation
  with what the operating system had for it. \<open>u_pending\<close> counts the receive operations in progress on
  the one message buffer.
\<close>

datatype udp_work =
    U_async_receive
  | U_cancel
  | U_received error_code "byte list"

record udp_receiver =
  u_receiving :: bool
  u_pending :: nat
  u_queue :: "udp_work list"
  u_messages :: "byte list list"

definition udp_ctor :: udp_receiver where
  "udp_ctor = \<lparr>u_receiving = False, u_pending = 0, u_queue = [], u_messages = []\<rparr>"

text \<open>
  The constructor's steps up to the first that fails; joining the group reports its error only after the
  receive buffer was set.
\<close>

datatype udp_setup_step = Udp_open | Udp_reuse_address | Udp_bind_device | Udp_bind | Udp_join_group
  | Udp_non_blocking | Udp_receive_buffer_size

fun udp_setup_run :: "(udp_setup_step \<Rightarrow> bool) \<Rightarrow> udp_setup_step list \<Rightarrow> udp_setup_step list \<times> bool" where
  "udp_setup_run fails [] = ([], True)"
| "udp_setup_run fails (s # ss) =
     (if fails s then ([s], False) else let (done, ok) = udp_setup_run fails ss in (s # done, ok))"

definition udp_setup :: "(udp_setup_step \<Rightarrow> bool) \<Rightarrow> string \<Rightarrow> bool \<Rightarrow> udp_setup_step list \<times> bool" where
  "udp_setup fails device_iface join_failed =
     (let (done, ok) = udp_setup_run fails
            ([Udp_open, Udp_reuse_address] @ (if device_iface \<noteq> [] then [Udp_bind_device] else []) @
             [Udp_bind, Udp_join_group, Udp_non_blocking, Udp_receive_buffer_size])
      in (done, ok \<and> \<not> join_failed))"

definition start_listening :: "udp_receiver \<Rightarrow> udp_receiver" where
  "start_listening u =
     (if \<not> u_receiving u then (u\<lparr>u_queue := u_queue u @ [U_async_receive]\<rparr>)\<lparr>u_receiving := True\<rparr>
      else u)"

definition stop_listening :: "udp_receiver \<Rightarrow> udp_receiver" where
  "stop_listening u =
     (if u_receiving u then
        let u = u\<lparr>u_receiving := False\<rparr> in u\<lparr>u_queue := u_queue u @ [U_cancel]\<rparr>
      else u)"

definition udp_async_receive :: "udp_receiver \<Rightarrow> udp_receiver" where
  "udp_async_receive u = u\<lparr>u_pending := u_pending u + 1\<rparr>"

text \<open>
  \<open>handle_received\<close>: the first result is that of the asynchronous operation, the others are the results
  of \<open>receive_from\<close> on the non-blocking socket, which would block when there are no more. A handler
  that throws aborts the process (\<open>None\<close>).
\<close>

fun handle_received ::
  "(byte list \<Rightarrow> bool) \<Rightarrow> error_code \<Rightarrow> byte list \<Rightarrow> (error_code \<times> byte list) list \<Rightarrow> udp_receiver \<Rightarrow> udp_receiver option" where
  "handle_received handler_ok ec bytes results u =
     (if \<not> ec_failed ec then
        if handler_ok bytes then
          let u = u\<lparr>u_messages := u_messages u @ [bytes]\<rparr>
          in (case results of
                [] \<Rightarrow> Some (udp_async_receive u)
              | (ec, bytes) # results \<Rightarrow>
                  if error_is_would_block ec then Some (udp_async_receive u)
                  else handle_received handler_ok ec bytes results u)
        else None
      else if error_is_operation_aborted ec then Some u
      else Some (udp_async_receive u))"

text \<open>The io context runs its next function; \<open>results\<close> is what the socket has by then.\<close>

definition udp_run :: "(byte list \<Rightarrow> bool) \<Rightarrow> (error_code \<times> byte list) list \<Rightarrow> udp_receiver \<Rightarrow> udp_receiver option" where
  "udp_run handler_ok results u =
     (case u_queue u of
        [] \<Rightarrow> None
      | w # ws \<Rightarrow>
          let u = u\<lparr>u_queue := ws\<rparr>
          in (case w of
                U_async_receive \<Rightarrow> Some (udp_async_receive u)
              | U_cancel \<Rightarrow> Some (u\<lparr>u_pending := 0,
                  u_queue := u_queue u @ replicate (u_pending u) (U_received Ec_operation_aborted [])\<rparr>)
              | U_received ec bytes \<Rightarrow> handle_received handler_ok ec bytes results u))"

text \<open>A datagram arrives for a receive operation in progress.\<close>

definition udp_arrives :: "error_code \<Rightarrow> byte list \<Rightarrow> udp_receiver \<Rightarrow> udp_receiver option" where
  "udp_arrives ec bytes u =
     (if 0 < u_pending u
      then Some (u\<lparr>u_pending := u_pending u - 1, u_queue := u_queue u @ [U_received ec bytes]\<rparr>)
      else None)"

text \<open>
  C39. A completed receive drains the socket: every datagram available up to the point where the socket
  would block reaches the handler once, in order, and then exactly one receive operation is started.
\<close>

theorem handle_received_drains:
  assumes "\<And>bs. handler_ok bs"
  shows "handle_received handler_ok Ec_success bytes (map (Pair Ec_success) ds @ (Ec_would_block, []) # rest) u =
    Some (u\<lparr>u_messages := u_messages u @ bytes # ds, u_pending := u_pending u + 1\<rparr>)"
proof (induction ds arbitrary: bytes u)
  case Nil
  then show ?case
    using assms by (simp add: ec_failed_def error_is_would_block_def udp_async_receive_def)
next
  case (Cons m ds)
  have "handle_received handler_ok Ec_success bytes (map (Pair Ec_success) (m # ds) @ (Ec_would_block, []) # rest) u =
      handle_received handler_ok Ec_success m (map (Pair Ec_success) ds @ (Ec_would_block, []) # rest)
        (u\<lparr>u_messages := u_messages u @ [bytes]\<rparr>)"
    by (subst handle_received.simps) (use assms in \<open>simp add: ec_failed_def error_is_would_block_def del: handle_received.simps\<close>)
  then show ?case using Cons.IH [of m "u\<lparr>u_messages := u_messages u @ [bytes]\<rparr>"]
    by (simp del: handle_received.simps)
qed

theorem handle_received_drains_witness:
  "handle_received (\<lambda>_. True) Ec_success [1] [(Ec_success, [2]), (Ec_would_block, [])] udp_ctor =
   Some (udp_ctor\<lparr>u_messages := [[1], [2]], u_pending := 1\<rparr>)"
  using handle_received_drains [of "\<lambda>_. True" "[1]" "[[2]]" "[]" udp_ctor]
  by (simp add: udp_ctor_def del: handle_received.simps)

text \<open>
  \<open>stop_listening\<close> is lost when a receive completes after the call and before its cancel runs: the
  cancel finds nothing to abort, and the handler does not look at the flag and starts the next receive;
  starting again then puts two receive operations on the one message buffer.
\<close>

lemma stop_listening_lost:
  "\<exists>u1 u2 u3 u4 u5.
     udp_run (\<lambda>_. True) [] (start_listening udp_ctor) = Some u1 \<and>
     udp_arrives Ec_success [7] (stop_listening u1) = Some u2 \<and>
     udp_run (\<lambda>_. True) [] u2 = Some u3 \<and>
     udp_run (\<lambda>_. True) [] u3 = Some u4 \<and> \<not> u_receiving u4 \<and> u_queue u4 = [] \<and> u_pending u4 = 1 \<and>
     udp_run (\<lambda>_. True) [] (start_listening u4) = Some u5 \<and> u_pending u5 = 2"
  by (simp add: start_listening_def stop_listening_def udp_run_def udp_arrives_def udp_ctor_def ec_failed_def
      udp_async_receive_def Let_def)

section \<open>The io thread\<close>

text \<open>
  \<open>asio_thread_t\<close>: whether there is a thread object, whether the thread's function has finished, the
  stop flag of the io context and the errors logged for calls out of order. \<open>at_work\<close> is whether the
  main loop ran until it was stopped.
\<close>

record asio_thread =
  at_thread :: bool
  at_finished :: bool
  at_stopped :: bool
  at_busy_wait :: bool
  at_loops :: nat
  at_errors :: nat

definition asio_thread_ctor :: "bool \<Rightarrow> asio_thread" where
  "asio_thread_ctor busy_wait =
     \<lparr>at_thread = False, at_finished = False, at_stopped = False, at_busy_wait = busy_wait, at_loops = 0, at_errors = 0\<rparr>"

definition asio_thread_start :: "asio_thread \<Rightarrow> asio_thread" where
  "asio_thread_start t =
     (if \<not> at_thread t then t\<lparr>at_thread := True, at_finished := False\<rparr>
      else t\<lparr>at_errors := at_errors t + 1\<rparr>)"

definition asio_thread_stop :: "asio_thread \<Rightarrow> asio_thread" where
  "asio_thread_stop t =
     (if at_thread t then t\<lparr>at_stopped := True\<rparr> else t\<lparr>at_errors := at_errors t + 1\<rparr>)"

text \<open>
  The function of the thread, from the moment the context is stopped: either loop ends, the context is
  restarted and run once more for at most ten seconds. That run ends because there is no work or no
  time left; without work the context counts as stopped again.
\<close>

definition asio_thread_body :: "bool \<Rightarrow> asio_thread \<Rightarrow> asio_thread option" where
  "asio_thread_body out_of_work t =
     (if at_thread t \<and> \<not> at_finished t \<and> at_stopped t
      then Some (t\<lparr>at_stopped := out_of_work, at_finished := True, at_loops := at_loops t + 1\<rparr>)
      else None)"

definition asio_thread_join :: "asio_thread \<Rightarrow> asio_thread option" where
  "asio_thread_join t =
     (if at_thread t then (if at_finished t then Some (t\<lparr>at_thread := False\<rparr>) else None) else Some t)"

definition asio_thread_dtor :: "asio_thread \<Rightarrow> asio_thread" where
  "asio_thread_dtor t = (if at_thread t then t\<lparr>at_stopped := True\<rparr> else t)"

section \<open>Addresses\<close>

text \<open>
  \<open>getifaddrs\<close> and \<open>make_address\<close> are the system's. An interface is its name, whether it has an
  address and whether that is an IPv4 one, and the address in network order.
\<close>

record iface =
  ifa_name :: string
  ifa_has_addr :: bool
  ifa_is_inet :: bool
  ifa_addr :: u32

text \<open>On a little-endian host \<open>ntohl\<close> reverses the bytes.\<close>

definition ntohl :: "u32 \<Rightarrow> u32" where
  "ntohl w = word_of_nat (le_value (rev (le_bytes 4 (unat w))))"

fun find_iface :: "string \<Rightarrow> iface list \<Rightarrow> u32 option" where
  "find_iface iface_name [] = None"
| "find_iface iface_name (i # is) =
     (if ifa_has_addr i \<and> ifa_is_inet i \<and> ifa_name i = iface_name then Some (ntohl (ifa_addr i))
      else find_iface iface_name is)"

definition network_iface_to_addr :: "iface list option \<Rightarrow> (u32 \<Rightarrow> 'addr) \<Rightarrow> string \<Rightarrow> string + 'addr" where
  "network_iface_to_addr getifaddrs address_v4 iface_name =
     (case getifaddrs of
        None \<Rightarrow> Inl ''getifaddrs() failed''
      | Some ifaces \<Rightarrow>
          (case find_iface iface_name ifaces of
             Some a \<Rightarrow> Inr (address_v4 a)
           | None \<Rightarrow> Inl (''cannot find iface match for '' @ [CHR 0x27] @ iface_name @ [CHR 0x27])))"

definition try_make_addr ::
  "(string \<Rightarrow> 'addr option) \<Rightarrow> iface list option \<Rightarrow> (u32 \<Rightarrow> 'addr) \<Rightarrow> string \<Rightarrow> (string + 'addr) option" where
  "try_make_addr make_address getifaddrs address_v4 s =
     (if s = ''localhost'' then map_option Inr (make_address ''127.0.0.1'')
      else if s = ''ip6-localhost'' then map_option Inr (make_address ''::1'')
      else case make_address s of
             Some a \<Rightarrow> Some (Inr a)
           | None \<Rightarrow> Some (network_iface_to_addr getifaddrs address_v4 s))"

end
