(* ===== verification/Package.thy ===== *)
theory Package
  imports HeterogeneousBuffer
begin

text \<open>
  The wire format: \<open>pkg_header_t\<close> of \<open>proto_entry/include/opio/proto_entry/pkg_header.hpp\<close> with its
  image in memory, and the functions of \<open>utils.hpp\<close> that build the image of a package. What protobuf
  does with a message is a pair of arguments: \<open>ByteSizeLong\<close> and the bytes it serializes to.
\<close>

section \<open>The header\<close>

definition pkg_content_message :: u8 where "pkg_content_message = 0"
definition pkg_content_heartbeat_request :: u8 where "pkg_content_heartbeat_request = 1"
definition pkg_content_heartbeat_reply :: u8 where "pkg_content_heartbeat_reply = 2"

record pkg_header =
  ph_pkg_content_type :: u8
  ph_header_size_dwords :: u8
  ph_content_specific_value :: u16
  ph_content_size :: u32
  ph_attached_binary_size :: u32

definition pkg_header_image_size_dwords :: u8 where
  "pkg_header_image_size_dwords = 12 div 4"

definition sizeof_pkg_header :: nat where
  "sizeof_pkg_header = 12"

definition advertized_header_size :: "pkg_header \<Rightarrow> nat" where
  "advertized_header_size h = unat (ph_header_size_dwords h) * 4"

definition pkg_header_make :: "u8 \<Rightarrow> u16 \<Rightarrow> u32 \<Rightarrow> u32 \<Rightarrow> pkg_header" where
  "pkg_header_make pkg_content_type content_specific_value content_size attached_binary_size =
     \<lparr>ph_pkg_content_type = pkg_content_type, ph_header_size_dwords = pkg_header_image_size_dwords,
      ph_content_specific_value = content_specific_value, ph_content_size = content_size,
      ph_attached_binary_size = attached_binary_size\<rparr>"

text \<open>The object as \<open>memcpy\<close> sees it on a little-endian host: the members in order, without padding.\<close>

definition pkg_header_bytes :: "pkg_header \<Rightarrow> byte list" where
  "pkg_header_bytes h =
     ph_pkg_content_type h # ph_header_size_dwords h #
     le_bytes 2 (unat (ph_content_specific_value h)) @ le_bytes 4 (unat (ph_content_size h)) @
     le_bytes 4 (unat (ph_attached_binary_size h))"

definition pkg_header_of_bytes :: "byte list \<Rightarrow> pkg_header" where
  "pkg_header_of_bytes bs =
     \<lparr>ph_pkg_content_type = bs ! 0, ph_header_size_dwords = bs ! 1,
      ph_content_specific_value = word_of_nat (le_value (take 2 (drop 2 bs))),
      ph_content_size = word_of_nat (le_value (take 4 (drop 4 bs))),
      ph_attached_binary_size = word_of_nat (le_value (take 4 (drop 8 bs)))\<rparr>"

lemma pkg_header_make_simps [simp]:
  "ph_pkg_content_type (pkg_header_make t v n k) = t" "ph_content_specific_value (pkg_header_make t v n k) = v"
  "ph_content_size (pkg_header_make t v n k) = n" "ph_attached_binary_size (pkg_header_make t v n k) = k"
  "advertized_header_size (pkg_header_make t v n k) = 12"
  by (simp_all add: pkg_header_make_def advertized_header_size_def pkg_header_image_size_dwords_def)

lemma pkg_content_distinct [simp]:
  "pkg_content_heartbeat_request \<noteq> pkg_content_message" "pkg_content_heartbeat_reply \<noteq> pkg_content_message"
  "pkg_content_heartbeat_reply \<noteq> pkg_content_heartbeat_request"
  "pkg_content_message \<noteq> pkg_content_heartbeat_request" "pkg_content_message \<noteq> pkg_content_heartbeat_reply"
  "pkg_content_heartbeat_request \<noteq> pkg_content_heartbeat_reply"
  by (simp_all add: pkg_content_message_def pkg_content_heartbeat_request_def pkg_content_heartbeat_reply_def)

lemma length_pkg_header_bytes [simp]: "length (pkg_header_bytes h) = sizeof_pkg_header"
  by (simp add: pkg_header_bytes_def sizeof_pkg_header_def)

lemma take_le_bytes_append [simp]: "take n (le_bytes n v @ rest) = le_bytes n v"
  by simp

lemma unat_less_u16: "unat (w :: u16) < 65536"
proof -
  have "unat w < 2 ^ LENGTH(16)" by (rule unsigned_less)
  then show ?thesis by simp
qed

lemma unat_less_u32: "unat (w :: u32) < 4294967296"
proof -
  have "unat w < 2 ^ LENGTH(32)" by (rule unsigned_less)
  then show ?thesis by simp
qed

lemma le_value_u16: "le_value (le_bytes 2 (unat (w :: u16))) = unat w"
  using unat_less_u16 [of w] by (simp add: le_value_le_bytes)

lemma le_value_u32: "le_value (le_bytes 4 (unat (w :: u32))) = unat w"
  using unat_less_u32 [of w] by (simp add: le_value_le_bytes)

lemma pkg_header_of_bytes_image [simp]:
  "pkg_header_of_bytes (pkg_header_bytes h @ rest) = h"
proof -
  have d2: "drop 2 (pkg_header_bytes h @ rest) =
      le_bytes 2 (unat (ph_content_specific_value h)) @ le_bytes 4 (unat (ph_content_size h)) @
      le_bytes 4 (unat (ph_attached_binary_size h)) @ rest"
    by (simp add: pkg_header_bytes_def numeral_2_eq_2 del: append_take_drop_id)
  have d4: "drop 4 (pkg_header_bytes h @ rest) = drop 2 (drop 2 (pkg_header_bytes h @ rest))"
    and d8: "drop 8 (pkg_header_bytes h @ rest) = drop 4 (drop 2 (drop 2 (pkg_header_bytes h @ rest)))"
    by (simp_all only: drop_drop) simp_all
  have t2: "take 2 (drop 2 (pkg_header_bytes h @ rest)) = le_bytes 2 (unat (ph_content_specific_value h))"
    unfolding d2 by simp
  have t4: "take 4 (drop 4 (pkg_header_bytes h @ rest)) = le_bytes 4 (unat (ph_content_size h))"
    unfolding d4 d2 by simp
  have t8: "take 4 (drop 8 (pkg_header_bytes h @ rest)) = le_bytes 4 (unat (ph_attached_binary_size h))"
    unfolding d8 d2 by simp
  show ?thesis
    unfolding pkg_header_of_bytes_def t2 t4 t8 le_value_u16 le_value_u32
    by (cases h) (simp add: pkg_header_bytes_def)
qed

lemma pkg_header_of_bytes_plain [simp]: "pkg_header_of_bytes (pkg_header_bytes h) = h"
  using pkg_header_of_bytes_image [of h "[]"] by simp





section \<open>Package images\<close>

text \<open>
  A message type as protobuf sees it. \<open>SerializeToArray\<close> fails when the array is too small.
\<close>

record 'm message_api =
  byte_size_long :: "'m \<Rightarrow> nat"
  serialize :: "'m \<Rightarrow> byte list"

definition message_ok :: "'m message_api \<Rightarrow> 'm \<Rightarrow> bool" where
  "message_ok api msg \<longleftrightarrow> length (serialize api msg) = byte_size_long api msg"

definition serialize_to_array :: "'m message_api \<Rightarrow> 'm \<Rightarrow> nat \<Rightarrow> byte list option" where
  "serialize_to_array api msg n = (if byte_size_long api msg \<le> n then Some (serialize api msg) else None)"

definition make_package_image ::
  "'m message_api \<Rightarrow> 'b buffer_driver \<Rightarrow> u16 \<Rightarrow> 'm \<Rightarrow> u32 \<Rightarrow> simple_buffer option" where
  "make_package_image api d message_type_id msg attached_binary_size = do {
     let header = pkg_header_make pkg_content_message message_type_id
                    (word_of_nat (byte_size_long api msg)) attached_binary_size;
     let buf = bd_allocate_output d (sizeof_pkg_header + unat (ph_content_size header));
     let buf = sb_write buf 0 (pkg_header_bytes header);
     bytes \<leftarrow> serialize_to_array api msg (unat (ph_content_size header));
     Some (sb_write buf sizeof_pkg_header bytes) }"

definition make_separate_package_image ::
  "'m message_api \<Rightarrow> 'b buffer_driver \<Rightarrow> u16 \<Rightarrow> 'm \<Rightarrow> u32 \<Rightarrow> nat \<Rightarrow> (simple_buffer \<times> simple_buffer) option" where
  "make_separate_package_image api d message_type_id msg attached_binary_size additional_space_for_header_buf = do {
     check (additional_space_for_header_buf mod 4 = 0);
     let header = pkg_header_make pkg_content_message message_type_id
                    (word_of_nat (byte_size_long api msg)) attached_binary_size;
     let header = header\<lparr>ph_header_size_dwords :=
                    ph_header_size_dwords header + word_of_nat (additional_space_for_header_buf div 4)\<rparr>;
     let header_buf = bd_allocate_output d (sizeof_pkg_header + additional_space_for_header_buf);
     let header_buf = sb_write header_buf 0 (pkg_header_bytes header);
     let msg_buf = bd_allocate_input d (unat (ph_content_size header));
     bytes \<leftarrow> serialize_to_array api msg (unat (ph_content_size header));
     Some (header_buf, sb_write msg_buf 0 bytes) }"

definition make_package_image_default :: "'m message_api \<Rightarrow> u16 \<Rightarrow> 'm \<Rightarrow> simple_buffer option" where
  "make_package_image_default api message_type_id msg =
     make_package_image api simple_buffer_driver message_type_id msg 0"

text \<open>\<open>multi_send_image\<close>: the image for every client, shared where the client takes shared buffers.\<close>

definition multi_send_image :: "bool \<Rightarrow> 'c list \<Rightarrow> simple_buffer \<Rightarrow> ('c \<times> hbuf) list" where
  "multi_send_image supports_shared_buffer clients buf =
     (if supports_shared_buffer then map (\<lambda>c. (c, SharedSimple buf (length clients))) clients
      else map (\<lambda>c. (c, DatasizeableSimple (sb_make_copy buf))) clients)"

context buffer_driver_laws
begin

lemma make_package_image_eq:
  assumes "message_ok api msg" "byte_size_long api msg < 2 ^ 32"
  shows "\<exists>buf. make_package_image api d type_id msg att = Some buf \<and> sb_wf buf \<and>
    sb_view buf = pkg_header_bytes (pkg_header_make pkg_content_message type_id
      (word_of_nat (byte_size_long api msg)) att) @ serialize api msg"
proof -
  define header where "header = pkg_header_make pkg_content_message type_id (word_of_nat (byte_size_long api msg)) att"
  define n where "n = byte_size_long api msg"
  have size: "unat (ph_content_size header) = n"
    using assms(2) by (simp add: header_def pkg_header_make_def n_def unat_of_nat)
  define b where "b = bd_allocate_output d (sizeof_pkg_header + n)"
  have b: "sb_wf b" "sb_size b = sizeof_pkg_header + n"
    using allocate_output [of "sizeof_pkg_header + n"] by (auto simp: b_def)
  have len: "length (serialize api msg) = n" using assms(1) by (simp add: message_ok_def n_def)
  have room: "sizeof_pkg_header + n \<le> length (sb_data b)" using b by (simp add: sb_wf_def)
  define r where "r = sb_write (sb_write b 0 (pkg_header_bytes header)) sizeof_pkg_header (serialize api msg)"
  have "r = sb_write b 0 (pkg_header_bytes header @ serialize api msg)"
    using blit_blit [of 0 "pkg_header_bytes header" "serialize api msg" "sb_data b"] room len
    by (simp add: r_def sb_write_def)
  moreover have "sb_wf (sb_write b 0 (pkg_header_bytes header @ serialize api msg))"
    using b room len by (simp add: sb_write_def sb_wf_def)
  moreover have "sb_view (sb_write b 0 (pkg_header_bytes header @ serialize api msg)) =
      pkg_header_bytes header @ serialize api msg"
    using b room len by (simp add: sb_write_def sb_view_def)
  moreover have "make_package_image api d type_id msg att = Some r"
    using size
    by (simp add: make_package_image_def Let_def header_def [symmetric] b_def r_def
        serialize_to_array_def n_def)
  ultimately show ?thesis by (simp add: header_def)
qed

end

end
