(* ===== verification/PkgInput.thy ===== *)
theory PkgInput
  imports Package
begin

text \<open>
  The input of an entry: \<open>pkg_input_t\<close> of \<open>proto_entry/include/opio/proto_entry/pkg_input.hpp\<close>, a ring
  of buffers that is a zero-copy stream for protobuf and a queue of bytes for the entry. The bytes it
  stands for are \<open>pi_unread\<close>; each operation is shown to act on them as on a plain list of bytes, so
  where one buffer ends and the next begins is of no consequence. \<open>None\<close> is a failed assertion, a
  subtraction below zero or a recursion that does not return.
\<close>

section \<open>State and operations\<close>

record pkg_input =
  pi_total_size :: nat
  pi_buffers_count :: nat
  pi_first_buffer_pos :: nat
  pi_first_buffer_offset :: nat
  pi_bufs :: "simple_buffer list"
  pi_first_buffer_served :: bool
  pi_byte_size_counter :: u64

text \<open>\<open>Buffer_Queue_Capacity\<close> is the length of \<open>m_bufs\<close>; its default is 8.\<close>

abbreviation pi_capacity :: "pkg_input \<Rightarrow> nat" where
  "pi_capacity p \<equiv> length (pi_bufs p)"

definition pkg_input_new :: "nat \<Rightarrow> pkg_input" where
  "pkg_input_new buffer_queue_capacity =
     \<lparr>pi_total_size = 0, pi_buffers_count = 0, pi_first_buffer_pos = 0, pi_first_buffer_offset = 0,
      pi_bufs = replicate buffer_queue_capacity sb_default, pi_first_buffer_served = False,
      pi_byte_size_counter = 0\<rparr>"

definition sub_size :: "nat \<Rightarrow> nat \<Rightarrow> nat option" where
  "sub_size a b = (if b \<le> a then Some (a - b) else None)"

definition remained_in_the_first_buffer :: "pkg_input \<Rightarrow> nat option" where
  "remained_in_the_first_buffer p =
     sub_size (sb_size (pi_bufs p ! pi_first_buffer_pos p)) (pi_first_buffer_offset p)"

definition pop_buffer :: "pkg_input \<Rightarrow> pkg_input option" where
  "pop_buffer p = do {
     check (pi_buffers_count p > 0);
     Some (p\<lparr>pi_buffers_count := pi_buffers_count p - 1,
             pi_first_buffer_pos := (pi_first_buffer_pos p + 1) mod pi_capacity p,
             pi_first_buffer_offset := 0\<rparr>) }"

definition reset_first_buffer_served :: "pkg_input \<Rightarrow> pkg_input option" where
  "reset_first_buffer_served p =
     (if pi_first_buffer_served p then do {
        remained \<leftarrow> remained_in_the_first_buffer p;
        total \<leftarrow> sub_size (pi_total_size p) remained;
        p \<leftarrow> pop_buffer (p\<lparr>pi_total_size := total\<rparr>);
        Some (p\<lparr>pi_first_buffer_served := False\<rparr>) }
      else Some p)"

definition next_pos :: "pkg_input \<Rightarrow> nat \<Rightarrow> nat" where
  "next_pos p pos = (pos + 1) mod pi_capacity p"

partial_function (option) copy_n_bytes_to :: "pkg_input \<Rightarrow> nat \<Rightarrow> nat \<Rightarrow> nat \<Rightarrow> byte list option" where
  "copy_n_bytes_to p n buf_pos buf_offset = do {
     check (pi_total_size p \<ge> n);
     remained_in_this_buffer \<leftarrow> sub_size (sb_size (pi_bufs p ! buf_pos)) buf_offset;
     if n < remained_in_this_buffer
     then Some (take n (sb_offset_data (pi_bufs p ! buf_pos) buf_offset))
     else do {
       rest \<leftarrow> copy_n_bytes_to p (n - remained_in_this_buffer) (next_pos p buf_pos) 0;
       Some (take remained_in_this_buffer (sb_offset_data (pi_bufs p ! buf_pos) buf_offset) @ rest) } }"

function skip_bytes :: "pkg_input \<Rightarrow> nat \<Rightarrow> pkg_input option" where
  "skip_bytes p n = do {
     check (\<not> pi_first_buffer_served p);
     check (pi_total_size p \<ge> n);
     if n = 0 then Some p
     else do {
       bytes_in_the_first_buffer \<leftarrow> remained_in_the_first_buffer p;
       if n < bytes_in_the_first_buffer
       then Some (p\<lparr>pi_first_buffer_offset := pi_first_buffer_offset p + n, pi_total_size := pi_total_size p - n\<rparr>)
       else (case pop_buffer p of
               None \<Rightarrow> None
             | Some q \<Rightarrow> do {
                 total \<leftarrow> sub_size (pi_total_size q) bytes_in_the_first_buffer;
                 skip_bytes (q\<lparr>pi_total_size := total\<rparr>) (n - bytes_in_the_first_buffer) }) } }"
  by pat_completeness auto
termination
  by (relation "measure (\<lambda>(p, n). pi_buffers_count p)") (auto simp: pop_buffer_def split: if_splits)

declare skip_bytes.simps [simp del]

text \<open>\<open>Next()\<close> hands out a pointer, that is the bytes from it on, and a size, an \<open>int\<close>.\<close>

definition pi_Next :: "pkg_input \<Rightarrow> ((byte list \<times> int) option \<times> pkg_input) option" where
  "pi_Next p = do {
     p \<leftarrow> reset_first_buffer_served p;
     if pi_total_size p = 0 then Some (None, p)
     else do {
       remained \<leftarrow> remained_in_the_first_buffer p;
       let n = sint (word_of_nat remained :: u32);
       Some (Some (sb_offset_data (pi_bufs p ! pi_first_buffer_pos p) (pi_first_buffer_offset p), n),
             p\<lparr>pi_byte_size_counter := pi_byte_size_counter p + word_of_int n,
               pi_first_buffer_served := True\<rparr>) } }"

definition pi_BackUp :: "pkg_input \<Rightarrow> nat \<Rightarrow> pkg_input option" where
  "pi_BackUp p count = do {
     check (pi_first_buffer_served p);
     let p = p\<lparr>pi_first_buffer_served := False\<rparr>;
     remained \<leftarrow> remained_in_the_first_buffer p;
     consumed_size \<leftarrow> sub_size remained count;
     total \<leftarrow> sub_size (pi_total_size p) consumed_size;
     let p = p\<lparr>pi_total_size := total, pi_byte_size_counter := pi_byte_size_counter p - word_of_nat count\<rparr>;
     if 0 < count
     then Some (p\<lparr>pi_first_buffer_offset := pi_first_buffer_offset p + consumed_size\<rparr>)
     else pop_buffer p }"

definition pi_Skip :: "pkg_input \<Rightarrow> int \<Rightarrow> (bool \<times> pkg_input) option" where
  "pi_Skip p count = do {
     p \<leftarrow> reset_first_buffer_served p;
     let p = p\<lparr>pi_byte_size_counter := pi_byte_size_counter p + word_of_int count\<rparr>;
     if pi_total_size p < unat (word_of_int count :: u64) then Some (False, p)
     else do { p \<leftarrow> skip_bytes p (unat (word_of_int count :: u64)); Some (True, p) } }"

definition pi_ByteCount :: "pkg_input \<Rightarrow> int" where
  "pi_ByteCount p = sint (pi_byte_size_counter p)"

definition pi_append :: "pkg_input \<Rightarrow> simple_buffer \<Rightarrow> pkg_input option" where
  "pi_append p buf = do {
     check (\<not> pi_first_buffer_served p);
     let p = p\<lparr>pi_total_size := pi_total_size p + sb_size buf\<rparr>;
     if pi_capacity p > pi_buffers_count p
     then let pos = (pi_first_buffer_pos p + pi_buffers_count p) mod pi_capacity p
          in Some (p\<lparr>pi_bufs := (pi_bufs p)[pos := fst (sb_move_assign (pi_bufs p ! pos) buf)],
                     pi_buffers_count := pi_buffers_count p + 1\<rparr>)
     else let last_buf_pos = (pi_first_buffer_pos p + pi_buffers_count p - 1) mod pi_capacity p;
              last_buf = pi_bufs p ! last_buf_pos;
              append_offset = sb_size last_buf;
              last_buf = sb_resize last_buf (append_offset + sb_size buf);
              last_buf = sb_write last_buf append_offset (sb_view buf)
          in Some (p\<lparr>pi_bufs := (pi_bufs p)[last_buf_pos := last_buf]\<rparr>) }"

definition view_pkg_header :: "pkg_input \<Rightarrow> pkg_header option" where
  "view_pkg_header p = do {
     check (\<not> pi_first_buffer_served p);
     check (pi_total_size p \<ge> sizeof_pkg_header);
     header \<leftarrow> copy_n_bytes_to p sizeof_pkg_header (pi_first_buffer_pos p) (pi_first_buffer_offset p);
     Some (pkg_header_of_bytes header) }"

definition read_buffer :: "pkg_input \<Rightarrow> nat \<Rightarrow> (byte list \<times> pkg_input) option" where
  "read_buffer p n = do {
     check (\<not> pi_first_buffer_served p);
     check (pi_total_size p \<ge> n);
     buffer \<leftarrow> copy_n_bytes_to p n (pi_first_buffer_pos p) (pi_first_buffer_offset p);
     p \<leftarrow> skip_bytes p n;
     Some (buffer, p) }"

section \<open>The ring as a queue of bytes\<close>

definition pi_slot :: "pkg_input \<Rightarrow> nat \<Rightarrow> simple_buffer" where
  "pi_slot p i = pi_bufs p ! ((pi_first_buffer_pos p + i) mod pi_capacity p)"

definition pi_queue :: "pkg_input \<Rightarrow> simple_buffer list" where
  "pi_queue p = map (pi_slot p) [0..<pi_buffers_count p]"

definition pi_content :: "pkg_input \<Rightarrow> byte list" where
  "pi_content p = drop (pi_first_buffer_offset p) (concat (map sb_view (pi_queue p)))"

text \<open>The bytes not consumed yet: a buffer that \<open>Next()\<close> handed out counts as consumed.\<close>

definition pi_unread :: "pkg_input \<Rightarrow> byte list" where
  "pi_unread p = (if pi_first_buffer_served p then concat (map sb_view (tl (pi_queue p))) else pi_content p)"

text \<open>The buffers that were not handed out.\<close>

definition pi_waiting :: "pkg_input \<Rightarrow> nat" where
  "pi_waiting p = pi_buffers_count p - (if pi_first_buffer_served p then 1 else 0)"

definition pi_wf :: "pkg_input \<Rightarrow> bool" where
  "pi_wf p \<longleftrightarrow>
     0 < pi_capacity p \<and> pi_buffers_count p \<le> pi_capacity p \<and> pi_first_buffer_pos p < pi_capacity p \<and>
     (\<forall>b \<in> set (pi_bufs p). sb_wf b) \<and> pi_total_size p = length (pi_content p) \<and>
     (pi_buffers_count p = 0 \<longrightarrow> pi_first_buffer_offset p = 0 \<and> \<not> pi_first_buffer_served p) \<and>
     (0 < pi_buffers_count p \<longrightarrow> pi_first_buffer_offset p \<le> sb_size (pi_bufs p ! pi_first_buffer_pos p))"

lemma ring_index_inj: "i < n \<Longrightarrow> j < n \<Longrightarrow> (k + i) mod n = (k + j) mod n \<longleftrightarrow> i = (j :: nat)"
proof
  assume "i < n" "j < n" and eq: "(k + i) mod n = (k + j) mod n"
  have wlog: "a = b" if "a \<le> b" "b < n" "(k + a) mod n = (k + b) mod n" for a b
  proof -
    have "n dvd (k + b) - (k + a)"
      using that by (metis add_le_mono1 mod_eq_dvd_iff_nat add.commute)
    then have "n dvd b - a" by simp
    moreover have "b - a < n" using that by simp
    ultimately show "a = b" using that(1) by (metis dvd_imp_le diff_is_0_eq le_antisym not_gr_zero not_le)
  qed
  show "i = j"
    using wlog [of i j] wlog [of j i] eq \<open>i < n\<close> \<open>j < n\<close> by (metis nat_le_linear)
qed simp

lemma pi_queue_empty [simp]: "pi_queue p = [] \<longleftrightarrow> pi_buffers_count p = 0"
  by (simp add: pi_queue_def)

lemma length_pi_queue [simp]: "length (pi_queue p) = pi_buffers_count p"
  by (simp add: pi_queue_def)

lemma pi_slot_first: "pi_first_buffer_pos p < pi_capacity p \<Longrightarrow> pi_slot p 0 = pi_bufs p ! pi_first_buffer_pos p"
  by (simp add: pi_slot_def)

lemma upt_Suc_map: "0 < n \<Longrightarrow> [0..<n] = 0 # map Suc [0..<n - 1]"
  by (metis Suc_pred' map_Suc_upt upt_conv_Cons)

lemma pi_queue_Cons:
  assumes "0 < pi_buffers_count p" "pi_first_buffer_pos p < pi_capacity p"
  shows "pi_queue p = pi_bufs p ! pi_first_buffer_pos p # map (\<lambda>i. pi_slot p (Suc i)) [0..<pi_buffers_count p - 1]"
  using assms by (simp add: pi_queue_def upt_Suc_map pi_slot_first comp_def)

lemma pop_buffer_queue:
  assumes "pop_buffer p = Some q" "pi_first_buffer_pos p < pi_capacity p"
  shows "pi_queue q = tl (pi_queue p)"
proof -
  from assms(1) have c: "0 < pi_buffers_count p" by (auto simp: pop_buffer_def split: if_splits)
  have "pi_slot q i = pi_slot p (Suc i)" for i
    using assms by (auto simp: pop_buffer_def pi_slot_def mod_simps split: if_splits)
  moreover have "pi_buffers_count q = pi_buffers_count p - 1"
    using assms(1) by (auto simp: pop_buffer_def split: if_splits)
  ultimately show ?thesis
    using pi_queue_Cons [OF c assms(2)] by (simp add: pi_queue_def)
qed

lemma pi_slot_in: "0 < pi_capacity p \<Longrightarrow> pi_slot p i \<in> set (pi_bufs p)"
  by (simp add: pi_slot_def)

lemma pi_queue_in: "0 < pi_capacity p \<Longrightarrow> b \<in> set (pi_queue p) \<Longrightarrow> b \<in> set (pi_bufs p)"
  by (auto simp: pi_queue_def pi_slot_in)

text \<open>The first buffer and what lies behind it.\<close>

lemma pi_content_split:
  assumes "pi_wf p" "0 < pi_buffers_count p"
  defines "b \<equiv> pi_bufs p ! pi_first_buffer_pos p"
  shows "pi_content p = drop (pi_first_buffer_offset p) (sb_view b) @ concat (map sb_view (tl (pi_queue p)))"
    and "remained_in_the_first_buffer p = Some (length (drop (pi_first_buffer_offset p) (sb_view b)))"
    and "sb_wf b" and "pi_first_buffer_offset p \<le> sb_size b"
proof -
  have pos: "pi_first_buffer_pos p < pi_capacity p" using assms(1) by (simp add: pi_wf_def)
  have q: "pi_queue p = b # tl (pi_queue p)" using pi_queue_Cons [OF assms(2) pos] by (simp add: b_def)
  show wf: "sb_wf b" using assms(1) pos by (simp add: pi_wf_def b_def)
  show off: "pi_first_buffer_offset p \<le> sb_size b"
    using assms(1,2) by (simp add: pi_wf_def b_def)
  have len: "length (sb_view b) = sb_size b" using wf by (rule sb_view_length)
  show "pi_content p = drop (pi_first_buffer_offset p) (sb_view b) @ concat (map sb_view (tl (pi_queue p)))"
    using off len by (subst pi_content_def, subst q) simp
  show "remained_in_the_first_buffer p = Some (length (drop (pi_first_buffer_offset p) (sb_view b)))"
    using off len by (simp add: remained_in_the_first_buffer_def sub_size_def b_def)
qed

lemma pi_queue_simps [simp]:
  "pi_queue (p\<lparr>pi_total_size := t\<rparr>) = pi_queue p"
  "pi_queue (p\<lparr>pi_first_buffer_offset := k\<rparr>) = pi_queue p"
  "pi_queue (p\<lparr>pi_first_buffer_served := s\<rparr>) = pi_queue p"
  "pi_queue (p\<lparr>pi_byte_size_counter := c\<rparr>) = pi_queue p"
  by (simp_all add: pi_queue_def pi_slot_def [abs_def])

lemma pi_content_simps [simp]:
  "pi_content (p\<lparr>pi_total_size := t\<rparr>) = pi_content p"
  "pi_content (p\<lparr>pi_first_buffer_served := s\<rparr>) = pi_content p"
  "pi_content (p\<lparr>pi_byte_size_counter := c\<rparr>) = pi_content p"
  by (simp_all add: pi_content_def)

lemma pi_wf_counter [simp]: "pi_wf (p\<lparr>pi_byte_size_counter := c\<rparr>) = pi_wf p"
  by (simp add: pi_wf_def)

lemma pi_wf_served:
  "pi_wf p \<Longrightarrow> pi_wf (p\<lparr>pi_first_buffer_served := s\<rparr>) \<longleftrightarrow> (s \<longrightarrow> 0 < pi_buffers_count p)"
  by (auto simp: pi_wf_def)

lemma pi_total: "pi_wf p \<Longrightarrow> pi_total_size p = length (pi_content p)"
  by (simp add: pi_wf_def)

lemma pi_content_nonempty: "pi_wf p \<Longrightarrow> pi_content p \<noteq> [] \<Longrightarrow> 0 < pi_buffers_count p"
  by (cases "pi_buffers_count p") (auto simp: pi_wf_def pi_content_def pi_queue_def)

text \<open>Popping the first buffer drops what it had left.\<close>

lemma pop_buffer_step:
  assumes wf: "pi_wf p" and c: "0 < pi_buffers_count p"
  defines "r \<equiv> length (drop (pi_first_buffer_offset p) (sb_view (pi_bufs p ! pi_first_buffer_pos p)))"
  obtains q where "pop_buffer p = Some q" "pi_total_size q = pi_total_size p"
    "pi_first_buffer_served q = pi_first_buffer_served p" "r \<le> pi_total_size p"
    "pi_byte_size_counter q = pi_byte_size_counter p" "pi_buffers_count q = pi_buffers_count p - 1"
    "pi_content q = drop r (pi_content p)" "pi_content q = concat (map sb_view (tl (pi_queue p)))"
    "pi_wf (q\<lparr>pi_total_size := pi_total_size p - r, pi_first_buffer_served := False\<rparr>)"
proof -
  define q where "q = p\<lparr>pi_buffers_count := pi_buffers_count p - 1,
             pi_first_buffer_pos := (pi_first_buffer_pos p + 1) mod pi_capacity p,
             pi_first_buffer_offset := 0\<rparr>"
  have pos: "pi_first_buffer_pos p < pi_capacity p" and cap: "0 < pi_capacity p"
    using wf by (simp_all add: pi_wf_def)
  have pop: "pop_buffer p = Some q" using c by (simp add: pop_buffer_def q_def)
  have queue: "pi_queue q = tl (pi_queue p)" by (rule pop_buffer_queue [OF pop pos])
  have cont: "pi_content q = concat (map sb_view (tl (pi_queue p)))"
    unfolding pi_content_def queue by (simp add: q_def)
  have drop: "pi_content q = drop r (pi_content p)"
    using pi_content_split(1) [OF wf c] cont by (simp add: r_def)
  have len: "r \<le> pi_total_size p"
    using pi_content_split(1) [OF wf c] pi_total [OF wf] by (simp add: r_def)
  have fields: "pi_bufs q = pi_bufs p" "pi_first_buffer_offset q = 0" "pi_buffers_count q \<le> pi_capacity p"
    "pi_first_buffer_pos q < pi_capacity p"
    using wf cap by (auto simp: q_def pi_wf_def)
  have total: "pi_total_size p - r = length (pi_content q)"
    using drop pi_total [OF wf] by simp
  show ?thesis
  proof (rule that [OF pop])
    show "pi_wf (q\<lparr>pi_total_size := pi_total_size p - r, pi_first_buffer_served := False\<rparr>)"
      using wf cap fields total by (auto simp: pi_wf_def)
  qed (use drop cont len in \<open>simp_all add: q_def\<close>)
qed

lemma pi_unread_not_served [simp]: "\<not> pi_first_buffer_served p \<Longrightarrow> pi_unread p = pi_content p"
  by (simp add: pi_unread_def)

text \<open>Confirming what \<open>Next()\<close> handed out changes neither the unread bytes nor the counter.\<close>

lemma reset_first_buffer_served_ok:
  assumes "pi_wf p"
  obtains q where "reset_first_buffer_served p = Some q" "pi_wf q" "\<not> pi_first_buffer_served q"
    "pi_content q = pi_unread p" "pi_byte_size_counter q = pi_byte_size_counter p"
    "pi_buffers_count q = pi_waiting p"
proof (cases "pi_first_buffer_served p")
  case False
  with assms that [of p] show ?thesis by (simp add: reset_first_buffer_served_def pi_waiting_def)
next
  case True
  then have c: "0 < pi_buffers_count p"
    using assms by (auto simp: pi_wf_def)
  let ?r = "length (drop (pi_first_buffer_offset p) (sb_view (pi_bufs p ! pi_first_buffer_pos p)))"
  obtain q where q: "pop_buffer p = Some q" "?r \<le> pi_total_size p"
    "pi_byte_size_counter q = pi_byte_size_counter p" "pi_buffers_count q = pi_buffers_count p - 1"
    "pi_content q = concat (map sb_view (tl (pi_queue p)))"
    "pi_wf (q\<lparr>pi_total_size := pi_total_size p - ?r, pi_first_buffer_served := False\<rparr>)"
    by (rule pop_buffer_step [OF assms c]) auto
  have pop: "pop_buffer (p\<lparr>pi_total_size := t\<rparr>) = Some (q\<lparr>pi_total_size := t\<rparr>)" for t
    using q(1) by (auto simp: pop_buffer_def split: if_splits)
  show ?thesis
  proof (rule that)
    show "reset_first_buffer_served p =
        Some (q\<lparr>pi_total_size := pi_total_size p - ?r, pi_first_buffer_served := False\<rparr>)"
      using True pi_content_split(2) [OF assms c] q(2)
      by (simp add: reset_first_buffer_served_def sub_size_def pop)
  qed (use True q in \<open>simp_all add: pi_unread_def pi_waiting_def\<close>)
qed

section \<open>Consuming bytes\<close>

lemma skip_bytes_ok:
  assumes "pi_wf p" "\<not> pi_first_buffer_served p" "n \<le> length (pi_content p)"
  shows "\<exists>q. skip_bytes p n = Some q \<and> pi_wf q \<and> \<not> pi_first_buffer_served q \<and>
    pi_content q = drop n (pi_content p) \<and> pi_byte_size_counter q = pi_byte_size_counter p"
  using assms
proof (induction p n rule: skip_bytes.induct)
  case (1 p n)
  note wf = "1.prems"(1) and ns = "1.prems"(2) and n = "1.prems"(3)
  have total: "n \<le> pi_total_size p" using n pi_total [OF wf] by simp
  show ?case
  proof (cases "n = 0")
    case True
    with wf ns total show ?thesis by (subst skip_bytes.simps) simp
  next
    case False
    then have c: "0 < pi_buffers_count p" using n wf pi_content_nonempty [of p] by fastforce
    define b where "b = pi_bufs p ! pi_first_buffer_pos p"
    define off where "off = pi_first_buffer_offset p"
    define r where "r = length (drop off (sb_view b))"
    note split = pi_content_split [OF wf c, folded b_def off_def]
    have rem: "remained_in_the_first_buffer p = Some r" using split(2) by (simp add: r_def)
    show ?thesis
    proof (cases "n < r")
      case True
      let ?q = "p\<lparr>pi_first_buffer_offset := off + n, pi_total_size := pi_total_size p - n\<rparr>"
      have cont: "pi_content ?q = drop n (pi_content p)"
        by (simp add: pi_content_def off_def add.commute)
      have "off + n \<le> sb_size b"
        using True split(3) by (simp add: r_def sb_view_length)
      then have "pi_wf ?q"
        using wf c cont by (simp add: pi_wf_def b_def)
      moreover have "skip_bytes p n = Some ?q"
        using True False ns total rem by (subst skip_bytes.simps) (simp add: off_def)
      ultimately show ?thesis using cont ns by simp
    next
      case large: False
      obtain q where q: "pop_buffer p = Some q" "pi_total_size q = pi_total_size p"
        "pi_first_buffer_served q = pi_first_buffer_served p" "r \<le> pi_total_size p"
        "pi_byte_size_counter q = pi_byte_size_counter p" "pi_content q = drop r (pi_content p)"
        "pi_wf (q\<lparr>pi_total_size := pi_total_size p - r, pi_first_buffer_served := False\<rparr>)"
        by (rule pop_buffer_step [OF wf c]) (auto simp: r_def b_def off_def)
      let ?q = "q\<lparr>pi_total_size := pi_total_size p - r\<rparr>"
      have q': "q\<lparr>pi_total_size := pi_total_size p - r, pi_first_buffer_served := False\<rparr> = ?q"
        using q(3) ns by (cases q) simp
      have "\<exists>q'. skip_bytes ?q (n - r) = Some q' \<and> pi_wf q' \<and> \<not> pi_first_buffer_served q' \<and>
          pi_content q' = drop (n - r) (pi_content ?q) \<and> pi_byte_size_counter q' = pi_byte_size_counter ?q"
      proof (rule "1.IH")
        show "check (\<not> pi_first_buffer_served p) = Some ()" "check (n \<le> pi_total_size p) = Some ()"
          using ns total by simp_all
        show "remained_in_the_first_buffer p = Some r" by (rule rem)
        show "sub_size (pi_total_size q) r = Some (pi_total_size p - r)"
          using q(2,4) by (simp add: sub_size_def)
        show "pi_wf ?q" using q(7) q' by simp
        show "n - r \<le> length (pi_content ?q)" using n q(6) by simp
      qed (use False large q ns in simp_all)
      then obtain q' where "skip_bytes ?q (n - r) = Some q'" "pi_wf q'" "\<not> pi_first_buffer_served q'"
        "pi_content q' = drop (n - r) (pi_content ?q)" "pi_byte_size_counter q' = pi_byte_size_counter ?q"
        by blast
      moreover have "skip_bytes p n = skip_bytes ?q (n - r)"
        using False large ns total rem q(1,2,4) by (subst skip_bytes.simps) (simp add: sub_size_def)
      ultimately show ?thesis using q(5,6) large by simp
    qed
  qed
qed

lemma pi_wf_intro:
  "0 < pi_capacity q \<Longrightarrow> pi_buffers_count q \<le> pi_capacity q \<Longrightarrow> pi_first_buffer_pos q < pi_capacity q \<Longrightarrow>
   (\<forall>b \<in> set (pi_bufs q). sb_wf b) \<Longrightarrow> pi_total_size q = length (pi_content q) \<Longrightarrow>
   0 < pi_buffers_count q \<Longrightarrow> pi_first_buffer_offset q \<le> sb_size (pi_bufs q ! pi_first_buffer_pos q) \<Longrightarrow> pi_wf q"
  by (simp add: pi_wf_def)

lemma sb_wf_list_update: "\<forall>b \<in> set bs. sb_wf b \<Longrightarrow> sb_wf x \<Longrightarrow> \<forall>b \<in> set (bs[i := x]). sb_wf b"
  using set_update_subset_insert [of bs i x] by auto

lemma pi_append_ok:
  assumes wf: "pi_wf p" and ns: "\<not> pi_first_buffer_served p" and buf: "sb_wf buf"
  shows "\<exists>q. pi_append p buf = Some q \<and> pi_wf q \<and> \<not> pi_first_buffer_served q \<and>
    pi_content q = pi_content p @ sb_view buf \<and> pi_byte_size_counter q = pi_byte_size_counter p"
proof -
  define N where "N = pi_capacity p"
  define c where "c = pi_buffers_count p"
  define pos where "pos = pi_first_buffer_pos p"
  define off where "off = pi_first_buffer_offset p"
  have N: "0 < N" "c \<le> N" "pos < N" using wf by (simp_all add: pi_wf_def N_def c_def pos_def)
  have off_le: "off \<le> length (concat (map sb_view (pi_queue p)))"
  proof (cases "c = 0")
    case False
    then have "pi_queue p = pi_bufs p ! pos # map (\<lambda>i. pi_slot p (Suc i)) [0..<pi_buffers_count p - 1]"
      using pi_queue_Cons [of p] N by (simp add: c_def pos_def N_def)
    then show ?thesis
      using wf False N by (simp add: pi_wf_def c_def pos_def off_def N_def sb_view_length)
  qed (use wf in \<open>simp add: pi_wf_def c_def off_def\<close>)
  have slot: "(bs[(pos + j) mod N := x]) ! ((pos + i) mod N) = (if i = j then x else bs ! ((pos + i) mod N))"
    if "i < N" "j < N" "length bs = N" for bs i j and x :: simple_buffer
    using that N ring_index_inj [of i N j pos] by (auto simp: nth_list_update)
  show ?thesis
  proof (cases "c < N")
    case True
    let ?q = "p\<lparr>pi_total_size := pi_total_size p + sb_size buf, pi_bufs := (pi_bufs p)[(pos + c) mod N := buf],
                 pi_buffers_count := c + 1\<rparr>"
    have app: "pi_append p buf = Some ?q"
      using ns True by (simp add: pi_append_def N_def c_def pos_def Let_def)
    have queue: "pi_queue ?q = pi_queue p @ [buf]"
      using True N slot [of _ c "pi_bufs p" buf]
      by (auto simp: pi_queue_def pi_slot_def c_def [symmetric] pos_def [symmetric] N_def [symmetric])
    have cont: "pi_content ?q = pi_content p @ sb_view buf"
      using off_le unfolding pi_content_def queue by (simp add: off_def)
    have "off \<le> sb_size ((pi_bufs p)[(pos + c) mod N := buf] ! pos)"
    proof (cases "c = 0")
      case c0: False
      have "(pi_bufs p)[(pos + c) mod N := buf] ! pos = pi_bufs p ! pos"
        using slot [of 0 c "pi_bufs p" buf] c0 True N by (simp add: N_def [symmetric])
      then show ?thesis using wf c0 by (simp add: pi_wf_def c_def off_def pos_def)
    qed (use wf in \<open>simp add: pi_wf_def c_def off_def\<close>)
    then have first: "pi_first_buffer_offset ?q \<le> sb_size (pi_bufs ?q ! pi_first_buffer_pos ?q)"
      by (simp add: off_def pos_def)
    have "pi_wf ?q"
    proof (rule pi_wf_intro)
      show "\<forall>b \<in> set (pi_bufs ?q). sb_wf b"
        using sb_wf_list_update [of "pi_bufs p" buf] wf buf by (simp add: pi_wf_def)
      show "pi_total_size ?q = length (pi_content ?q)"
        unfolding cont using pi_total [OF wf] buf by (simp add: sb_view_length)
      show "pi_capacity ?q > 0" "pi_buffers_count ?q \<le> pi_capacity ?q" "pi_first_buffer_pos ?q < pi_capacity ?q"
        using N True by (auto simp: N_def c_def pos_def)
    qed (use first in simp_all)
    with app cont ns show ?thesis by simp
  next
    case False
    then have full: "c = N" using N by simp
    define l where "l = (pos + c - 1) mod N"
    have l: "l = (pos + (N - 1)) mod N" using full N by (simp add: l_def)
    define lb where "lb = pi_bufs p ! l"
    define nb where "nb = sb_write (sb_resize lb (sb_size lb + length (sb_view buf))) (sb_size lb) (sb_view buf)"
    have lbwf: "sb_wf lb" using wf N by (simp add: pi_wf_def lb_def l_def N_def)
    note nb = sb_resize_write_view [OF lbwf, of "sb_view buf", folded nb_def]
    let ?q = "p\<lparr>pi_total_size := pi_total_size p + sb_size buf, pi_bufs := (pi_bufs p)[l := nb]\<rparr>"
    have app: "pi_append p buf = Some ?q"
      using ns False buf
      by (simp add: pi_append_def N_def c_def pos_def Let_def l_def nb_def lb_def sb_view_length)
    have idx: "[0..<N] = [0..<N - 1] @ [N - 1]" using N upt_Suc_append [of 0 "N - 1"] by simp
    have front: "map (pi_slot ?q) [0..<N - 1] = map (pi_slot p) [0..<N - 1]"
      using slot [of _ "N - 1" "pi_bufs p" nb] N
      by (simp add: pi_slot_def l pos_def [symmetric] N_def [symmetric])
    have queue: "pi_queue p = map (pi_slot p) [0..<N - 1] @ [lb]"
      using idx full by (simp add: pi_queue_def c_def lb_def l pi_slot_def pos_def N_def)
    have queue': "pi_queue ?q = map (pi_slot p) [0..<N - 1] @ [nb]"
    proof -
      have "pi_slot ?q (N - 1) = nb"
        using slot [of "N - 1" "N - 1" "pi_bufs p" nb] N
        by (simp add: pi_slot_def l pos_def [symmetric] N_def [symmetric])
      moreover have "pi_queue ?q = map (pi_slot ?q) [0..<N]"
        using full by (simp add: pi_queue_def c_def)
      ultimately show ?thesis using idx front by simp
    qed
    have stored: "concat (map sb_view (pi_queue ?q)) = concat (map sb_view (pi_queue p)) @ sb_view buf"
      unfolding queue queue' by (simp add: nb(1))
    have cont: "pi_content ?q = pi_content p @ sb_view buf"
      using off_le unfolding pi_content_def stored by (simp add: off_def)
    have "sb_size lb \<le> sb_size nb" by (simp add: nb_def sb_write_def)
    then have "off \<le> sb_size ((pi_bufs p)[l := nb] ! pos)"
      using wf N full by (cases "l = pos") (auto simp: pi_wf_def c_def off_def pos_def lb_def N_def)
    then have first: "pi_first_buffer_offset ?q \<le> sb_size (pi_bufs ?q ! pi_first_buffer_pos ?q)"
      by (simp add: off_def pos_def)
    have "pi_wf ?q"
    proof (rule pi_wf_intro)
      show "\<forall>b \<in> set (pi_bufs ?q). sb_wf b"
        using sb_wf_list_update [of "pi_bufs p" nb] wf nb(2) by (simp add: pi_wf_def)
      show "pi_total_size ?q = length (pi_content ?q)"
        unfolding cont using pi_total [OF wf] buf by (simp add: sb_view_length)
      show "0 < pi_buffers_count ?q" using N full by (simp add: c_def)
      show "pi_capacity ?q > 0" "pi_buffers_count ?q \<le> pi_capacity ?q" "pi_first_buffer_pos ?q < pi_capacity ?q"
        using N by (auto simp: N_def c_def pos_def)
    qed (rule first)
    with app cont ns show ?thesis by simp
  qed
qed

section \<open>Copying bytes out\<close>

text \<open>
  The recursion of \<open>copy_n_bytes_to\<close> goes on past the bytes it was asked for until it meets a buffer
  that has bytes; it comes back because some buffer of the ring is not empty.
\<close>

lemma copy_zero:
  assumes "pos < pi_capacity p" "0 < sb_size (pi_bufs p ! ((pos + k) mod pi_capacity p))"
  shows "copy_n_bytes_to p 0 pos 0 = Some []"
  using assms
proof (induction k arbitrary: pos)
  case 0
  then show ?case by (subst copy_n_bytes_to.simps) (simp add: sub_size_def)
next
  case (Suc k)
  show ?case
  proof (cases "0 < sb_size (pi_bufs p ! pos)")
    case True
    then show ?thesis by (subst copy_n_bytes_to.simps) (simp add: sub_size_def)
  next
    case False
    have "0 < sb_size (pi_bufs p ! ((next_pos p pos + k) mod pi_capacity p))"
      using Suc.prems by (simp add: next_pos_def mod_simps)
    moreover have "next_pos p pos < pi_capacity p"
      unfolding next_pos_def by (rule mod_less_divisor) (use Suc.prems in linarith)
    ultimately have "copy_n_bytes_to p 0 (next_pos p pos) 0 = Some []" by (intro Suc.IH)
    with False show ?thesis by (subst copy_n_bytes_to.simps) (simp add: sub_size_def)
  qed
qed

lemma copy_zero_some:
  assumes "pos < pi_capacity p" "b \<in> set (pi_bufs p)" "0 < sb_size b"
  shows "copy_n_bytes_to p 0 pos 0 = Some []"
proof -
  obtain j where j: "j < pi_capacity p" "pi_bufs p ! j = b" using assms(2) by (auto simp: in_set_conv_nth)
  have "(pos + (j + (pi_capacity p - pos))) mod pi_capacity p = j"
    using assms(1) j(1) by simp
  then show ?thesis
    using copy_zero [OF assms(1), of "j + (pi_capacity p - pos)"] assms(3) j(2) by simp
qed

lemma copy_from:
  assumes wf: "pi_wf p" and b: "b \<in> set (pi_bufs p)" "0 < sb_size b"
    and i: "i \<le> pi_buffers_count p"
    and off: "if i < pi_buffers_count p then off \<le> sb_size (pi_slot p i) else off = 0"
    and n: "n \<le> length (drop off (concat (map (\<lambda>i. sb_view (pi_slot p i)) [i..<pi_buffers_count p])))"
    and total: "n \<le> pi_total_size p"
  shows "copy_n_bytes_to p n ((pi_first_buffer_pos p + i) mod pi_capacity p) off =
    Some (take n (drop off (concat (map (\<lambda>i. sb_view (pi_slot p i)) [i..<pi_buffers_count p]))))"
  using i off n total
proof (induction "pi_buffers_count p - i" arbitrary: i off n)
  case 0
  then have "n = 0" "off = 0" by simp_all
  then show ?case using copy_zero_some [OF _ b] wf by (simp add: pi_wf_def)
next
  case (Suc d)
  let ?N = "pi_capacity p"
  let ?pos = "(pi_first_buffer_pos p + i) mod ?N"
  let ?b = "pi_slot p i"
  let ?rest = "concat (map (\<lambda>i. sb_view (pi_slot p i)) [Suc i..<pi_buffers_count p])"
  have i: "i < pi_buffers_count p" using Suc.hyps(2) by simp
  have at: "pi_bufs p ! ?pos = ?b" by (simp add: pi_slot_def)
  have bwf: "sb_wf ?b" using wf pi_slot_in [of p i] by (simp add: pi_wf_def)
  then have size: "sb_size ?b = length (sb_view ?b)" by (simp add: sb_view_length)
  have off: "off \<le> length (sb_view ?b)" using Suc.prems(2) i size by simp
  define r where "r = sb_size ?b - off"
  have rem: "sub_size (sb_size ?b) off = Some r" using off size by (simp add: sub_size_def r_def)
  have data: "take k (sb_offset_data ?b off) = take k (drop off (sb_view ?b))" if "k \<le> r" for k
  proof -
    have "min k r = k" using that by simp
    then show ?thesis
      using that by (simp add: sb_offset_data_def sb_view_def drop_take r_def)
  qed
  have split: "drop off (concat (map (\<lambda>i. sb_view (pi_slot p i)) [i..<pi_buffers_count p])) =
      drop off (sb_view ?b) @ ?rest"
    using i off by (simp add: upt_conv_Cons)
  show ?case
  proof (cases "n < r")
    case True
    then show ?thesis
      using Suc.prems(4) rem data [of n] size
      by (subst copy_n_bytes_to.simps) (simp add: at split r_def)
  next
    case False
    have step: "next_pos p ?pos = (pi_first_buffer_pos p + Suc i) mod ?N"
      by (simp add: next_pos_def mod_simps)
    have "n - r \<le> length (drop 0 ?rest)"
      using Suc.prems(3) size split by (simp add: r_def)
    then have "copy_n_bytes_to p (n - r) (next_pos p ?pos) 0 = Some (take (n - r) (drop 0 ?rest))"
      unfolding step using Suc.hyps(2) Suc.prems i by (intro Suc.hyps(1)) auto
    then show ?thesis
      using False Suc.prems(4) rem data [of r] size
      by (subst copy_n_bytes_to.simps) (simp add: at split r_def)
  qed
qed

lemma copy_content:
  assumes wf: "pi_wf p" and n: "0 < n" "n \<le> length (pi_content p)"
  shows "copy_n_bytes_to p n (pi_first_buffer_pos p) (pi_first_buffer_offset p) = Some (take n (pi_content p))"
proof -
  have c: "0 < pi_buffers_count p" using n wf pi_content_nonempty [of p] by fastforce
  have pos: "pi_first_buffer_pos p < pi_capacity p" "0 < pi_capacity p" using wf by (auto simp: pi_wf_def)
  have content: "pi_content p =
      drop (pi_first_buffer_offset p) (concat (map (\<lambda>i. sb_view (pi_slot p i)) [0..<pi_buffers_count p]))"
    by (simp add: pi_content_def pi_queue_def comp_def)
  have "concat (map sb_view (pi_queue p)) \<noteq> []"
    using n by (cases "concat (map sb_view (pi_queue p))") (simp_all add: pi_content_def)
  then obtain b where "b \<in> set (pi_queue p)" "sb_view b \<noteq> []" by auto
  then have b: "b \<in> set (pi_bufs p)" "0 < sb_size b"
    using pi_queue_in [OF pos(2)] by (auto simp: sb_view_def)
  show ?thesis
    using copy_from [OF wf b, of 0 "pi_first_buffer_offset p" n] c pos n wf pi_total [OF wf]
    by (simp add: content [symmetric] pi_slot_first) (simp add: pi_wf_def)
qed

lemma read_buffer_ok:
  assumes "pi_wf p" "\<not> pi_first_buffer_served p" "0 < n" "n \<le> length (pi_content p)"
  shows "\<exists>q. read_buffer p n = Some (take n (pi_content p), q) \<and> pi_wf q \<and> \<not> pi_first_buffer_served q \<and>
    pi_content q = drop n (pi_content p)"
  using skip_bytes_ok [OF assms(1,2,4)] copy_content [OF assms(1,3,4)] assms(2,4) pi_total [OF assms(1)]
  by (auto simp: read_buffer_def)

lemma view_pkg_header_ok:
  assumes "pi_wf p" "\<not> pi_first_buffer_served p" "sizeof_pkg_header \<le> length (pi_content p)"
  shows "view_pkg_header p = Some (pkg_header_of_bytes (take sizeof_pkg_header (pi_content p)))"
  using copy_content [OF assms(1), of sizeof_pkg_header] assms pi_total [OF assms(1)]
  by (simp add: view_pkg_header_def sizeof_pkg_header_def)

section \<open>The stream protobuf reads\<close>

lemma sint_u32_of_nat: "n < 2 ^ 31 \<Longrightarrow> sint (word_of_nat n :: u32) = int n"
  by (simp add: signed_of_nat signed_take_bit_int_eq_self)

text \<open>
  What a call of \<open>Next()\<close>, and a call of \<open>BackUp()\<close> right after it, do to the unread bytes.
\<close>

lemma pi_Next_ok:
  assumes wf: "pi_wf p" and small: "length (pi_unread p) < 2 ^ 31"
  shows "(pi_unread p = [] \<and> (\<exists>q. pi_Next p = Some (None, q) \<and> pi_wf q \<and> pi_unread q = [])) \<or>
    (pi_unread p \<noteq> [] \<and> (\<exists>data n q. pi_Next p = Some (Some (data, n), q) \<and> pi_wf q \<and> 0 \<le> n \<and>
      pi_first_buffer_served q \<and> pi_waiting q < pi_waiting p \<and> nat n \<le> length data \<and>
      remained_in_the_first_buffer q = Some (nat n) \<and> pi_content q = pi_unread p \<and>
      take (nat n) data @ pi_unread q = pi_unread p))"
proof -
  obtain q where q: "reset_first_buffer_served p = Some q" "pi_wf q" "\<not> pi_first_buffer_served q"
    "pi_content q = pi_unread p" "pi_byte_size_counter q = pi_byte_size_counter p"
    "pi_buffers_count q = pi_waiting p"
    by (rule reset_first_buffer_served_ok [OF wf])
  have total: "pi_total_size q = length (pi_unread p)" using pi_total [OF q(2)] q(4) by simp
  show ?thesis
  proof (cases "pi_unread p = []")
    case True
    then show ?thesis using q total by (simp add: pi_Next_def)
  next
    case False
    then have c: "0 < pi_buffers_count q" using pi_content_nonempty [OF q(2)] q(4) by simp
    define b where "b = pi_bufs q ! pi_first_buffer_pos q"
    define off where "off = pi_first_buffer_offset q"
    define r where "r = length (drop off (sb_view b))"
    note split = pi_content_split [OF q(2) c, folded b_def off_def]
    have "r \<le> length (pi_unread p)" using split(1) q(4) by (simp add: r_def)
    then have r: "sint (word_of_nat r :: u32) = int r" using small by (intro sint_u32_of_nat) linarith
    let ?data = "sb_offset_data b off"
    have data: "take r ?data = drop off (sb_view b)"
    proof -
      have "r = sb_size b - off" using split(3) by (simp add: r_def sb_view_length)
      then show ?thesis by (simp add: sb_offset_data_def sb_view_def drop_take)
    qed
    have room: "r \<le> length ?data" using split(3)
      by (simp add: r_def sb_offset_data_def sb_view_def sb_wf_def diff_le_mono)
    define k where "k = pi_byte_size_counter q + word_of_int (sint (word_of_nat r :: u32))"
    let ?q = "q\<lparr>pi_byte_size_counter := k, pi_first_buffer_served := True\<rparr>"
    have "pi_Next p = Some (Some (?data, sint (word_of_nat r :: u32)), ?q)"
      using q(1) False total split(2) by (simp add: pi_Next_def b_def off_def r_def Let_def k_def)
    then have run: "pi_Next p = Some (Some (?data, int r), ?q)" by (simp only: r)
    have wf': "pi_wf ?q" using pi_wf_served [of "q\<lparr>pi_byte_size_counter := _\<rparr>" True] q(2) c by simp
    have rem: "remained_in_the_first_buffer ?q = Some r"
      using split(2) by (simp add: remained_in_the_first_buffer_def r_def)
    have waiting: "pi_waiting ?q < pi_waiting p" using c q(6) by (simp add: pi_waiting_def)
    have unread: "take r ?data @ pi_unread ?q = pi_unread p"
      using split(1) data q(4) by (simp add: pi_unread_def)
    have "\<exists>data n q'. pi_Next p = Some (Some (data, n), q') \<and> pi_wf q' \<and> 0 \<le> n \<and>
      pi_first_buffer_served q' \<and> pi_waiting q' < pi_waiting p \<and> nat n \<le> length data \<and>
      remained_in_the_first_buffer q' = Some (nat n) \<and> pi_content q' = pi_unread p \<and>
      take (nat n) data @ pi_unread q' = pi_unread p"
      by (rule exI [of _ ?data], rule exI [of _ "int r"], rule exI [of _ ?q])
        (use run wf' rem unread room waiting q(4) in simp)
    with False show ?thesis by blast
  qed
qed

lemma pi_BackUp_ok:
  assumes wf: "pi_wf p" and s: "pi_first_buffer_served p"
    and rem: "remained_in_the_first_buffer p = Some r" and count: "count \<le> r"
  shows "\<exists>q. pi_BackUp p count = Some q \<and> pi_wf q \<and> \<not> pi_first_buffer_served q \<and>
    pi_unread q = drop (r - count) (pi_content p)"
proof -
  have c: "0 < pi_buffers_count p" using wf s by (auto simp: pi_wf_def)
  define b where "b = pi_bufs p ! pi_first_buffer_pos p"
  define off where "off = pi_first_buffer_offset p"
  note split = pi_content_split [OF wf c, folded b_def off_def]
  have r: "r = length (drop off (sb_view b))" using split(2) rem by simp
  obtain q where q: "pop_buffer p = Some q" "pi_total_size q = pi_total_size p" "r \<le> pi_total_size p"
    "pi_content q = drop r (pi_content p)"
    "pi_wf (q\<lparr>pi_total_size := pi_total_size p - r, pi_first_buffer_served := False\<rparr>)"
    by (rule pop_buffer_step [OF wf c]) (simp add: r b_def off_def)
  let ?t = "pi_total_size p - (r - count)"
  let ?k = "pi_byte_size_counter p - word_of_nat count"
  let ?p = "p\<lparr>pi_first_buffer_served := False, pi_total_size := ?t, pi_byte_size_counter := ?k\<rparr>"
  have rem': "remained_in_the_first_buffer (p\<lparr>pi_first_buffer_served := False\<rparr>) = Some r"
    using rem by (simp add: remained_in_the_first_buffer_def)
  have run: "pi_BackUp p count =
      (if 0 < count then Some (?p\<lparr>pi_first_buffer_offset := off + (r - count)\<rparr>) else pop_buffer ?p)"
    using s rem' count le_trans [OF diff_le_self q(3), of count]
    by (simp add: pi_BackUp_def sub_size_def off_def Let_def)
  show ?thesis
  proof (cases "0 < count")
    case True
    let ?q = "?p\<lparr>pi_first_buffer_offset := off + (r - count)\<rparr>"
    have cont: "pi_content ?q = drop (r - count) (pi_content p)"
      by (simp add: pi_content_def off_def add.commute)
    have "off + (r - count) \<le> sb_size b"
      using True count split(3,4) r by (simp add: sb_view_length)
    then have "pi_wf ?q"
      using wf c cont pi_total [OF wf] by (simp add: pi_wf_def b_def)
    then show ?thesis using run True cont by simp
  next
    case False
    let ?q = "q\<lparr>pi_first_buffer_served := False, pi_total_size := ?t, pi_byte_size_counter := ?k\<rparr>"
    have pop: "pop_buffer ?p = Some ?q" using q(1) by (auto simp: pop_buffer_def split: if_splits)
    have "?q = (q\<lparr>pi_total_size := pi_total_size p - r, pi_first_buffer_served := False\<rparr>)\<lparr>pi_byte_size_counter := ?k\<rparr>"
      using False by (cases q) simp
    then have "pi_wf ?q" using q(5) by (simp only: pi_wf_counter)
    then show ?thesis using run False pop q(4) by simp
  qed
qed

text \<open>\<open>Skip( n )\<close> for a \<open>n\<close> that fits an \<open>int\<close>.\<close>

lemma pi_Skip_ok:
  assumes wf: "pi_wf p" and n: "n < 2 ^ 31"
  shows "\<exists>q. pi_Skip p (int n) = Some (n \<le> length (pi_unread p), q) \<and> pi_wf q \<and> \<not> pi_first_buffer_served q \<and>
    pi_content q = (if n \<le> length (pi_unread p) then drop n (pi_unread p) else pi_unread p)"
proof -
  obtain q where q: "reset_first_buffer_served p = Some q" "pi_wf q" "\<not> pi_first_buffer_served q"
    "pi_content q = pi_unread p"
    by (rule reset_first_buffer_served_ok [OF wf])
  have u: "unat (word_of_int (int n) :: u64) = n"
    using n by (simp add: unat_of_nat)
  let ?q = "q\<lparr>pi_byte_size_counter := pi_byte_size_counter q + word_of_int (int n)\<rparr>"
  have total: "pi_total_size q = length (pi_unread p)" using pi_total [OF q(2)] q(4) by simp
  show ?thesis
  proof (cases "n \<le> length (pi_unread p)")
    case True
    then obtain q' where "skip_bytes ?q n = Some q'" "pi_wf q'" "\<not> pi_first_buffer_served q'"
      "pi_content q' = drop n (pi_unread p)"
      using skip_bytes_ok [of ?q n] q by auto
    with True show ?thesis using q total u by (simp add: pi_Skip_def)
  next
    case False
    then show ?thesis using q total u by (simp add: pi_Skip_def)
  qed
qed

section \<open>Properties\<close>

definition pi_leads_to :: "(byte list \<Rightarrow> bool) \<Rightarrow> pkg_input option \<Rightarrow> bool" where
  "pi_leads_to post r \<longleftrightarrow> (\<exists>q. r = Some q \<and> pi_wf q \<and> \<not> pi_first_buffer_served q \<and> post (pi_content q))"

text \<open>
  C10. The input queue is a queue of bytes: whatever buffers it is made of, appending a buffer (also to
  a ring that is full) adds its bytes at the end, skipping and reading take bytes from the front and
  return exactly those, and looking at the header decodes the first twelve bytes and consumes none.
\<close>

theorem pkg_input_is_byte_queue:
  assumes "pi_wf p" "\<not> pi_first_buffer_served p" "sb_wf buf"
    and "n \<le> length (pi_content p)" "0 < k" "k \<le> length (pi_content p)"
  shows "pi_leads_to (\<lambda>c. c = pi_content p @ sb_view buf) (pi_append p buf) \<and>
    pi_leads_to (\<lambda>c. c = drop n (pi_content p)) (skip_bytes p n) \<and>
    map_option fst (read_buffer p k) = Some (take k (pi_content p)) \<and>
    pi_leads_to (\<lambda>c. c = drop k (pi_content p)) (map_option snd (read_buffer p k)) \<and>
    (sizeof_pkg_header \<le> length (pi_content p) \<longrightarrow>
      view_pkg_header p = Some (pkg_header_of_bytes (take sizeof_pkg_header (pi_content p))))"
proof (intro conjI)
  show "pi_leads_to (\<lambda>c. c = pi_content p @ sb_view buf) (pi_append p buf)"
    using pi_append_ok [OF assms(1-3)] by (auto simp: pi_leads_to_def)
  show "pi_leads_to (\<lambda>c. c = drop n (pi_content p)) (skip_bytes p n)"
    using skip_bytes_ok [OF assms(1,2,4)] by (auto simp: pi_leads_to_def)
  show "map_option fst (read_buffer p k) = Some (take k (pi_content p))"
    "pi_leads_to (\<lambda>c. c = drop k (pi_content p)) (map_option snd (read_buffer p k))"
    using read_buffer_ok [OF assms(1,2,5,6)] by (auto simp: pi_leads_to_def)
  show "sizeof_pkg_header \<le> length (pi_content p) \<longrightarrow>
      view_pkg_header p = Some (pkg_header_of_bytes (take sizeof_pkg_header (pi_content p)))"
    using view_pkg_header_ok [OF assms(1,2)] by blast
qed

text \<open>
  C11. The stream protobuf reads serves the bytes in order and no byte twice: \<open>Next()\<close> hands out the
  first bytes that are unread (or nothing when there are none), and \<open>BackUp( count )\<close> right after it
  makes the last \<open>count\<close> of them, and only them, unread again.
\<close>

theorem next_backup_in_order:
  assumes "pi_wf p" "length (pi_unread p) < 2 ^ 31"
  shows "(case pi_Next p of
      None \<Rightarrow> False
    | Some (None, q) \<Rightarrow> pi_unread p = [] \<and> pi_unread q = []
    | Some (Some (data, n), q) \<Rightarrow> 0 \<le> n \<and> nat n \<le> length data \<and> take (nat n) data @ pi_unread q = pi_unread p \<and>
        (\<forall>count. count \<le> nat n \<longrightarrow> (\<exists>q'. pi_BackUp q count = Some q' \<and> pi_wf q' \<and>
          take (nat n - count) data @ pi_unread q' = pi_unread p)))"
  using pi_Next_ok [OF assms]
proof (elim disjE conjE exE)
  fix data n q
  assume n: "pi_Next p = Some (Some (data, n), q)" "pi_wf q" "0 \<le> n" "pi_first_buffer_served q"
    "pi_waiting q < pi_waiting p" "nat n \<le> length data" "remained_in_the_first_buffer q = Some (nat n)" "pi_content q = pi_unread p"
    "take (nat n) data @ pi_unread q = pi_unread p"
  have "take (nat n - count) data @ drop (nat n - count) (pi_unread p) = pi_unread p" for count
  proof -
    have "take (nat n - count) (pi_unread p) = take (nat n - count) data"
      using n(6) by (simp add: n(9) [symmetric])
    then show ?thesis by (metis append_take_drop_id)
  qed
  then have "\<exists>q'. pi_BackUp q count = Some q' \<and> pi_wf q' \<and> take (nat n - count) data @ pi_unread q' = pi_unread p"
    if "count \<le> nat n" for count
    using pi_BackUp_ok [OF n(2,4,7) that] n(8) by metis
  with n show ?thesis by simp
qed simp

text \<open>A ring of two buffers holding five bytes, of which the first is consumed.\<close>

definition pi_sample :: pkg_input where
  "pi_sample = \<lparr>pi_total_size = 4, pi_buffers_count = 2, pi_first_buffer_pos = 1, pi_first_buffer_offset = 1,
     pi_bufs = [sb_of_bytes [4, 5], sb_of_bytes [1, 2, 3]], pi_first_buffer_served = False,
     pi_byte_size_counter = 0\<rparr>"

lemma pi_sample_ok: "pi_content pi_sample = [2, 3, 4, 5]" "pi_wf pi_sample" "\<not> pi_first_buffer_served pi_sample"
proof -
  have q: "pi_queue pi_sample = [sb_of_bytes [1, 2, 3], sb_of_bytes [4, 5]]"
    by (simp add: pi_queue_def pi_slot_def pi_sample_def upt_rec)
  show c: "pi_content pi_sample = [2, 3, 4, 5]"
    by (simp only: pi_content_def q) (simp add: pi_sample_def)
  show "pi_wf pi_sample"
    unfolding pi_wf_def c by (simp add: pi_sample_def)
  show "\<not> pi_first_buffer_served pi_sample" by (simp add: pi_sample_def)
qed

theorem pkg_input_is_byte_queue_witness:
  "map_option fst (read_buffer pi_sample 3) = Some [2, 3, 4] \<and>
   pi_leads_to (\<lambda>c. c = [2, 3, 4, 5, 6]) (pi_append pi_sample (sb_of_bytes [6]))"
  using pkg_input_is_byte_queue [of pi_sample "sb_of_bytes [6]" 0 3] pi_sample_ok by simp

theorem next_backup_in_order_witness:
  "(case pi_Next pi_sample of
      None \<Rightarrow> False
    | Some (None, q) \<Rightarrow> pi_unread pi_sample = []
    | Some (Some (data, n), q) \<Rightarrow> take (nat n) data @ pi_unread q = [2, 3, 4, 5])"
  using next_backup_in_order [of pi_sample] pi_sample_ok by (auto split: option.splits prod.splits)

end
