(* ===== verification/Entry.thy ===== *)
theory Entry
  imports PkgInput Connection
begin

text \<open>
  \<open>entry_base_t\<close> of \<open>proto_entry/include/opio/proto_entry/entry_base.hpp\<close> with the part of
  \<open>proto_entry/templates/entry.tmpl.hpp\<close> that every generated entry has: the loop that takes packages
  off the input, the heartbeat, and the ways an entry ends. What an entry asks of its connection, of its
  timer and of the user's handlers is the list \<open>en_out\<close>. \<open>None\<close> is a failed assertion or a loop that
  does not return; an exception is \<open>Threw\<close> with its \<open>what()\<close>.
\<close>

section \<open>Data\<close>

datatype entry_shutdown_reason =
    Esr_underlying_connection | Esr_user_initiated | Esr_exception_handling_input
  | Esr_invalid_input_package | Esr_unexpected_input_package_size | Esr_invalid_input_package_size
  | Esr_invalid_heartbeat_package | Esr_unknown_pkg_content_type | Esr_hearbeat_reply_timeout

fun fmt_entry_shutdown_reason :: "entry_shutdown_reason \<Rightarrow> string" where
  "fmt_entry_shutdown_reason Esr_underlying_connection = ''underlying_connection''"
| "fmt_entry_shutdown_reason Esr_user_initiated = ''user_initiated''"
| "fmt_entry_shutdown_reason Esr_exception_handling_input = ''exception_handling_input''"
| "fmt_entry_shutdown_reason Esr_invalid_input_package = ''invalid_input_package''"
| "fmt_entry_shutdown_reason Esr_unexpected_input_package_size = ''unexpected_input_package_size''"
| "fmt_entry_shutdown_reason Esr_invalid_input_package_size = ''invalid_input_package_size''"
| "fmt_entry_shutdown_reason Esr_invalid_heartbeat_package = ''invalid_heartbeat_package''"
| "fmt_entry_shutdown_reason Esr_unknown_pkg_content_type = ''unknown_pkg_content_type''"
| "fmt_entry_shutdown_reason Esr_hearbeat_reply_timeout = ''hearbeat_reply_timeout''"

record shutdown_context =
  sc_reason :: entry_shutdown_reason
  sc_underlying_reason :: "connection_shutdown_reason option"
  sc_err_message :: string

definition shutdown_context_msg :: "entry_shutdown_reason \<Rightarrow> string \<Rightarrow> shutdown_context" where
  "shutdown_context_msg r err_msg = \<lparr>sc_reason = r, sc_underlying_reason = None, sc_err_message = err_msg\<rparr>"

definition shutdown_context_of :: "entry_shutdown_reason \<Rightarrow> shutdown_context" where
  "shutdown_context_of r = shutdown_context_msg r []"

definition shutdown_context_conn :: "connection_shutdown_reason \<Rightarrow> shutdown_context" where
  "shutdown_context_conn r =
     \<lparr>sc_reason = Esr_underlying_connection, sc_underlying_reason = Some r, sc_err_message = []\<rparr>"

text \<open>\<open>shutdown_handler_variant_t\<close>; which of the two kinds of handler the user gave.\<close>

datatype shutdown_handler_variant =
  Sh_not_supplied | Sh_was_called | Sh_handler | Sh_handler2

text \<open>Times and durations are the ticks of the steady clock.\<close>

record heartbeat_params =
  hb_initiate_heartbeat_timeout :: int
  hb_await_heartbeat_reply_timeout :: int
  hb_client_app_id :: u64

record entry_cfg =
  ec_max_valid_package_size :: u32
  ec_heartbeat :: heartbeat_params

record 'm carrier =
  mc_message :: 'm
  mc_attached_buffer :: "byte list"

datatype send_op = Op_schedule_send | Op_schedule_send_with_cb nat | Op_schedule_send_vec_with_cb nat

datatype 'm entry_event =
    Ee_start_reading
  | Ee_send send_op "byte list list"
  | Ee_connection_shutdown
  | Ee_message u16 "'m carrier"
  | Ee_inc_incoming u16
  | Ee_shutdown_handler
  | Ee_shutdown_handler2 shutdown_context
  | Ee_timer_expires_after int
  | Ee_timer_cancel

datatype package_handling_result = Fully_consumed | Needs_more_input_data | Invalid_package

datatype 'a outcome = Returned 'a | Threw string

record 'm entry =
  en_connection_is_active :: bool
  en_cfg :: entry_cfg
  en_pkg_input :: pkg_input
  en_shutdown_handler :: shutdown_handler_variant
  en_last_input_at :: int
  en_heartbeat_sent_count :: u32
  en_out :: "'m entry_event list"

text \<open>
  What a generated entry adds: the ids of the incoming messages, protobuf's
  \<open>ParseFromZeroCopyStream\<close> through a \<open>LimitingInputStream\<close> (the message if it parsed, the
  \<open>ByteCount()\<close> of the limited stream and the stream afterwards), and the user's \<open>on_message\<close>, that
  may throw.
\<close>

record 'm entry_api =
  ea_incoming :: "u16 \<Rightarrow> bool"
  ea_parse :: "u16 \<Rightarrow> pkg_input \<Rightarrow> nat \<Rightarrow> ('m option \<times> nat \<times> pkg_input) option"
  ea_on_message :: "u16 \<Rightarrow> 'm carrier \<Rightarrow> string option"

abbreviation emit :: "'m entry_event list \<Rightarrow> 'm entry \<Rightarrow> 'm entry" where
  "emit evs e \<equiv> e\<lparr>en_out := en_out e @ evs\<rparr>"

section \<open>The end of an entry\<close>

definition terminate :: "'m entry \<Rightarrow> shutdown_context \<Rightarrow> 'm entry option" where
  "terminate e ctx = do {
     check (en_connection_is_active e);
     let e = (case en_shutdown_handler e of
         Sh_not_supplied \<Rightarrow> emit [Ee_timer_cancel] e
       | Sh_was_called \<Rightarrow> e
       | Sh_handler \<Rightarrow> emit [Ee_shutdown_handler, Ee_timer_cancel] e
       | Sh_handler2 \<Rightarrow> emit [Ee_shutdown_handler2 ctx, Ee_timer_cancel] e);
     Some (e\<lparr>en_shutdown_handler := Sh_was_called\<rparr>) }"

definition shutdown_and_terminate :: "'m entry \<Rightarrow> shutdown_context \<Rightarrow> 'm entry option" where
  "shutdown_and_terminate e ctx =
     (if \<not> en_connection_is_active e then Some e
      else do {
        let e = emit [Ee_connection_shutdown] e;
        e \<leftarrow> terminate e ctx;
        Some (e\<lparr>en_connection_is_active := False\<rparr>) })"

definition handle_shutdown :: "'m entry \<Rightarrow> connection_shutdown_reason \<Rightarrow> 'm entry option" where
  "handle_shutdown e reason =
     (if \<not> en_connection_is_active e then Some e
      else do {
        e \<leftarrow> terminate e (shutdown_context_conn reason);
        Some (e\<lparr>en_connection_is_active := False\<rparr>) })"

text \<open>\<open>close()\<close> posts this function on the strand.\<close>

definition close_work :: "'m entry \<Rightarrow> 'm entry option" where
  "close_work e = shutdown_and_terminate e (shutdown_context_of Esr_user_initiated)"

section \<open>Sending raw buffers\<close>

text \<open>
  \<open>schedule_send_vec_raw_bufs\<close> calls \<open>schedule_send\<close>, not \<open>schedule_send_vec\<close>, on the container.
  With the heterogeneous buffers of the standard traits a vector of buffers converts to one buffer, since
  it has \<open>data()\<close> and \<open>size()\<close>: \<open>size()\<close> bytes from the address of its first element. The argument
  \<open>mem\<close> is the memory the elements of the vector occupy.
\<close>

definition schedule_send_raw_bufs :: "'m entry \<Rightarrow> byte list list \<Rightarrow> 'm entry" where
  "schedule_send_raw_bufs e bufs =
     (if en_connection_is_active e then emit [Ee_send Op_schedule_send bufs] e else e)"

definition datasizeable_vector :: "(byte list list \<Rightarrow> byte list) \<Rightarrow> byte list list \<Rightarrow> byte list" where
  "datasizeable_vector mem bufs = take (length bufs) (mem bufs)"

definition schedule_send_vec_raw_bufs ::
  "(byte list list \<Rightarrow> byte list) \<Rightarrow> 'm entry \<Rightarrow> byte list list \<Rightarrow> 'm entry" where
  "schedule_send_vec_raw_bufs mem e bufs =
     (if en_connection_is_active e then emit [Ee_send Op_schedule_send [datasizeable_vector mem bufs]] e else e)"

definition schedule_send_raw_bufs_with_cb :: "'m entry \<Rightarrow> nat \<Rightarrow> byte list list \<Rightarrow> 'm entry" where
  "schedule_send_raw_bufs_with_cb e cb bufs =
     (if en_connection_is_active e then emit [Ee_send (Op_schedule_send_with_cb cb) bufs] e else e)"

definition schedule_send_vec_raw_bufs_with_cb :: "'m entry \<Rightarrow> nat \<Rightarrow> byte list list \<Rightarrow> 'm entry" where
  "schedule_send_vec_raw_bufs_with_cb e cb bufs =
     (if en_connection_is_active e then emit [Ee_send (Op_schedule_send_vec_with_cb cb) bufs] e else e)"

section \<open>Packages\<close>

definition pkg_has_valid_size :: "'m entry \<Rightarrow> pkg_header \<Rightarrow> bool" where
  "pkg_has_valid_size e header \<longleftrightarrow> \<not> ec_max_valid_package_size (en_cfg e) < ph_content_size header"

definition pkg_has_all_the_data :: "'m entry \<Rightarrow> pkg_header \<Rightarrow> bool" where
  "pkg_has_all_the_data e header \<longleftrightarrow>
     (let header_plus_content_size = advertized_header_size header + unat (ph_content_size header)
                                     + unat (ph_attached_binary_size header)
      in \<not> header_plus_content_size > pi_total_size (en_pkg_input e))"

text \<open>\<open>handle_incoming_message_custom\<close>, and the message carrier it makes.\<close>

definition make_message_carier :: "pkg_header \<Rightarrow> 'm \<Rightarrow> pkg_input \<Rightarrow> ('m carrier \<times> pkg_input) option" where
  "make_message_carier header msg stream =
     (if ph_attached_binary_size header = 0
      then Some (\<lparr>mc_message = msg, mc_attached_buffer = []\<rparr>, stream)
      else do {
        (buf, stream) \<leftarrow> read_buffer stream (unat (ph_attached_binary_size header));
        Some (\<lparr>mc_message = msg, mc_attached_buffer = buf\<rparr>, stream) })"

definition handle_incoming_message ::
  "'m entry_api \<Rightarrow> 'm entry \<Rightarrow> pkg_header \<Rightarrow> (package_handling_result outcome \<times> 'm entry) option" where
  "handle_incoming_message api e header =
     (let message_id = ph_content_specific_value header in
      if \<not> ea_incoming api message_id then do {
        e \<leftarrow> shutdown_and_terminate e (shutdown_context_of Esr_unexpected_input_package_size);
        Some (Returned Invalid_package, e) }
      else do {
        (res, byte_count, stream) \<leftarrow> ea_parse api message_id (en_pkg_input e) (unat (ph_content_size header));
        let e = e\<lparr>en_pkg_input := stream\<rparr>;
        let res = (if byte_count \<noteq> unat (ph_content_size header) then None else res);
        case res of
          None \<Rightarrow> do {
            e \<leftarrow> shutdown_and_terminate e (shutdown_context_of Esr_invalid_input_package);
            Some (Returned Invalid_package, e) }
        | Some msg \<Rightarrow> do {
            (_, stream) \<leftarrow> pi_Skip (en_pkg_input e) 0;
            (carrier, stream) \<leftarrow> make_message_carier header msg stream;
            let e = emit [Ee_message message_id carrier] (e\<lparr>en_pkg_input := stream\<rparr>);
            case ea_on_message api message_id carrier of
              Some what \<Rightarrow> Some (Threw what, e)
            | None \<Rightarrow> Some (Returned Fully_consumed, emit [Ee_inc_incoming message_id] e) } })"

definition handle_message_pkg ::
  "'m entry_api \<Rightarrow> 'm entry \<Rightarrow> pkg_header \<Rightarrow> (package_handling_result outcome \<times> 'm entry) option" where
  "handle_message_pkg api e header =
     (if \<not> pkg_has_valid_size e header then do {
        e \<leftarrow> shutdown_and_terminate e (shutdown_context_of Esr_invalid_input_package_size);
        Some (Returned Invalid_package, e) }
      else if \<not> pkg_has_all_the_data e header then Some (Returned Needs_more_input_data, e)
      else do {
        check (advertized_header_size header \<ge> 4 * unat pkg_header_image_size_dwords);
        stream \<leftarrow> skip_bytes (en_pkg_input e) (advertized_header_size header);
        handle_incoming_message api (e\<lparr>en_pkg_input := stream\<rparr>) header })"

definition handle_heartbeat_request_pkg ::
  "'m entry \<Rightarrow> pkg_header \<Rightarrow> (package_handling_result outcome \<times> 'm entry) option" where
  "handle_heartbeat_request_pkg e header = do {
     check (pkg_content_heartbeat_request = ph_pkg_content_type header);
     if ph_content_size header \<noteq> 0 \<or> ph_attached_binary_size header \<noteq> 0 then do {
       e \<leftarrow> shutdown_and_terminate e (shutdown_context_of Esr_invalid_heartbeat_package);
       Some (Returned Invalid_package, e) }
     else do {
       stream \<leftarrow> skip_bytes (en_pkg_input e) (advertized_header_size header);
       let e = e\<lparr>en_pkg_input := stream\<rparr>;
       if \<not> en_connection_is_active e then Some (Returned Fully_consumed, e)
       else do {
         let resp = pkg_header_make pkg_content_heartbeat_reply 0 0 0;
         Some (Returned Fully_consumed, emit [Ee_send Op_schedule_send [pkg_header_bytes resp]] e) } } }"

definition handle_heartbeat_reply_pkg ::
  "'m entry \<Rightarrow> pkg_header \<Rightarrow> (package_handling_result outcome \<times> 'm entry) option" where
  "handle_heartbeat_reply_pkg e header = do {
     check (pkg_content_heartbeat_reply = ph_pkg_content_type header);
     if ph_content_size header \<noteq> 0 \<or> ph_attached_binary_size header \<noteq> 0 then do {
       e \<leftarrow> shutdown_and_terminate e (shutdown_context_of Esr_invalid_heartbeat_package);
       Some (Returned Invalid_package, e) }
     else do {
       stream \<leftarrow> skip_bytes (en_pkg_input e) (advertized_header_size header);
       Some (Returned Fully_consumed, e\<lparr>en_pkg_input := stream\<rparr>) } }"

definition handle_unknown_pkg_content_type ::
  "'m entry \<Rightarrow> (package_handling_result outcome \<times> 'm entry) option" where
  "handle_unknown_pkg_content_type e = do {
     e \<leftarrow> shutdown_and_terminate e (shutdown_context_of Esr_unknown_pkg_content_type);
     Some (Returned Invalid_package, e) }"

definition handle_single_package ::
  "'m entry_api \<Rightarrow> 'm entry \<Rightarrow> (package_handling_result outcome \<times> 'm entry) option" where
  "handle_single_package api e =
     (if pi_total_size (en_pkg_input e) \<ge> sizeof_pkg_header then do {
        header \<leftarrow> view_pkg_header (en_pkg_input e);
        if ph_pkg_content_type header = pkg_content_message then handle_message_pkg api e header
        else if ph_pkg_content_type header = pkg_content_heartbeat_request
          then handle_heartbeat_request_pkg e header
        else if ph_pkg_content_type header = pkg_content_heartbeat_reply
          then handle_heartbeat_reply_pkg e header
        else handle_unknown_pkg_content_type e }
      else Some (Returned Needs_more_input_data, e))"

partial_function (option) run_input_stream_loop ::
  "'m entry_api \<Rightarrow> 'm entry \<Rightarrow> (unit outcome \<times> 'm entry) option" where
  "run_input_stream_loop api e = do {
     (res, e) \<leftarrow> handle_single_package api e;
     case res of
       Threw what \<Rightarrow> Some (Threw what, e)
     | Returned r \<Rightarrow> (if r = Fully_consumed then run_input_stream_loop api e else Some (Returned (), e)) }"

section \<open>Input and heartbeat\<close>

definition update_last_input_at :: "int \<Rightarrow> 'm entry \<Rightarrow> 'm entry" where
  "update_last_input_at now e = e\<lparr>en_last_input_at := now, en_heartbeat_sent_count := 0\<rparr>"

definition schedule_next_heartbeat_check :: "int \<Rightarrow> 'm entry \<Rightarrow> 'm entry" where
  "schedule_next_heartbeat_check delay e = emit [Ee_timer_expires_after delay] e"

definition get_initiate_heartbeat_timeout :: "'m entry \<Rightarrow> int" where
  "get_initiate_heartbeat_timeout e = hb_initiate_heartbeat_timeout (ec_heartbeat (en_cfg e))"

definition await_heartbeat_reply_timeout :: "'m entry \<Rightarrow> int" where
  "await_heartbeat_reply_timeout e = hb_await_heartbeat_reply_timeout (ec_heartbeat (en_cfg e))"

definition entry_ctor :: "entry_cfg \<Rightarrow> shutdown_handler_variant \<Rightarrow> nat \<Rightarrow> 'm entry" where
  "entry_ctor cfg shutdown_handler buffer_queue_capacity =
     \<lparr>en_connection_is_active = True, en_cfg = cfg, en_pkg_input = pkg_input_new buffer_queue_capacity,
      en_shutdown_handler = shutdown_handler, en_last_input_at = 0, en_heartbeat_sent_count = 0, en_out = []\<rparr>"

definition init_underlying_connection :: "int \<Rightarrow> 'm entry \<Rightarrow> 'm entry" where
  "init_underlying_connection now e =
     (let e = emit [Ee_start_reading] e;
          e = update_last_input_at now e
      in schedule_next_heartbeat_check (get_initiate_heartbeat_timeout e) e)"

definition handle_input :: "'m entry_api \<Rightarrow> int \<Rightarrow> 'm entry \<Rightarrow> simple_buffer \<Rightarrow> 'm entry option" where
  "handle_input api now e buf = do {
     input \<leftarrow> pi_append (en_pkg_input e) buf;
     (res, e) \<leftarrow> run_input_stream_loop api (e\<lparr>en_pkg_input := input\<rparr>);
     case res of
       Returned _ \<Rightarrow> Some (update_last_input_at now e)
     | Threw what \<Rightarrow>
         shutdown_and_terminate e (shutdown_context_msg Esr_exception_handling_input what) }"

definition send_heartbeat_request :: "'m entry \<Rightarrow> 'm entry" where
  "send_heartbeat_request e =
     (let ping_req_header = pkg_header_make pkg_content_heartbeat_request 0 0 0
      in (emit [Ee_send Op_schedule_send [pkg_header_bytes ping_req_header]] e)
           \<lparr>en_heartbeat_sent_count := en_heartbeat_sent_count e + 1\<rparr>)"

definition on_check_heartbeat :: "int \<Rightarrow> 'm entry \<Rightarrow> 'm entry option" where
  "on_check_heartbeat now e =
     (if \<not> en_connection_is_active e then Some e
      else
        let since_last_input = now - en_last_input_at e;
            initiate_heartbeat_timeout = get_initiate_heartbeat_timeout e
        in
          if since_last_input < initiate_heartbeat_timeout
          then Some (schedule_next_heartbeat_check (initiate_heartbeat_timeout - since_last_input) e)
          else if en_heartbeat_sent_count e \<noteq> 0 \<and> since_last_input \<ge> await_heartbeat_reply_timeout e
          then shutdown_and_terminate e (shutdown_context_of Esr_hearbeat_reply_timeout)
          else
            let e = send_heartbeat_request e
            in if await_heartbeat_reply_timeout e > since_last_input
               then Some (schedule_next_heartbeat_check (await_heartbeat_reply_timeout e - since_last_input) e)
               else Some (schedule_next_heartbeat_check (hb_initiate_heartbeat_timeout (ec_heartbeat (en_cfg e))) e))"

section \<open>Sending messages\<close>

text \<open>
  The \<open>send\<close> functions of a generated entry, for a message type with the id \<open>enum_id\<close>. \<open>attached\<close>
  buffers are the bytes they refer to.
\<close>

definition image_bytes :: "'m message_api \<Rightarrow> u16 \<Rightarrow> 'm \<Rightarrow> nat \<Rightarrow> byte list option" where
  "image_bytes mapi enum_id msg attached_binary_size =
     map_option sb_view (make_package_image mapi simple_buffer_driver enum_id msg (word_of_nat attached_binary_size))"

definition entry_send :: "'m message_api \<Rightarrow> 'e entry \<Rightarrow> u16 \<Rightarrow> 'm \<Rightarrow> 'e entry option" where
  "entry_send mapi e enum_id msg = do {
     buf \<leftarrow> image_bytes mapi enum_id msg 0;
     Some (schedule_send_raw_bufs e [buf]) }"

definition entry_send_attached :: "'m message_api \<Rightarrow> 'e entry \<Rightarrow> u16 \<Rightarrow> 'm \<Rightarrow> byte list \<Rightarrow> 'e entry option" where
  "entry_send_attached mapi e enum_id msg attached_binary = do {
     buf \<leftarrow> image_bytes mapi enum_id msg (length attached_binary);
     Some (schedule_send_raw_bufs e [buf, attached_binary]) }"

definition entry_send_vec ::
  "(byte list list \<Rightarrow> byte list) \<Rightarrow> 'm message_api \<Rightarrow> 'e entry \<Rightarrow> u16 \<Rightarrow> 'm \<Rightarrow> byte list list \<Rightarrow> 'e entry option" where
  "entry_send_vec mem mapi e enum_id msg attached_binaries = do {
     let attached_binary_size = foldl (\<lambda>memo buf. memo + length buf) 0 attached_binaries;
     buf \<leftarrow> image_bytes mapi enum_id msg attached_binary_size;
     let e = schedule_send_raw_bufs e [buf];
     Some (schedule_send_vec_raw_bufs mem e attached_binaries) }"

definition entry_send_with_cb :: "'m message_api \<Rightarrow> 'e entry \<Rightarrow> nat \<Rightarrow> u16 \<Rightarrow> 'm \<Rightarrow> 'e entry option" where
  "entry_send_with_cb mapi e cb enum_id msg = do {
     buf \<leftarrow> image_bytes mapi enum_id msg 0;
     Some (schedule_send_raw_bufs_with_cb e cb [buf]) }"

definition entry_send_attached_with_cb ::
  "'m message_api \<Rightarrow> 'e entry \<Rightarrow> nat \<Rightarrow> u16 \<Rightarrow> 'm \<Rightarrow> byte list \<Rightarrow> 'e entry option" where
  "entry_send_attached_with_cb mapi e cb enum_id msg attached_binary = do {
     buf \<leftarrow> image_bytes mapi enum_id msg (length attached_binary);
     Some (schedule_send_raw_bufs_with_cb e cb [buf, attached_binary]) }"

definition entry_send_vec_with_cb ::
  "'m message_api \<Rightarrow> 'e entry \<Rightarrow> nat \<Rightarrow> u16 \<Rightarrow> 'm \<Rightarrow> byte list list \<Rightarrow> 'e entry option" where
  "entry_send_vec_with_cb mapi e cb enum_id msg attached_binaries = do {
     let attached_binary_size = foldl (\<lambda>memo buf. memo + length buf) 0 attached_binaries;
     buf \<leftarrow> image_bytes mapi enum_id msg attached_binary_size;
     let e = schedule_send_raw_bufs e [buf];
     Some (schedule_send_vec_raw_bufs_with_cb e cb attached_binaries) }"

section \<open>Configuration\<close>

record entry_full_cfg =
  fc_endpoint :: tcp_endpoint_cfg
  fc_reconnect_timeout_msec :: u32
  fc_initiate_heartbeat_timeout_msec :: u32
  fc_await_heartbeat_reply_timeout_msec :: u32
  fc_max_valid_package_size :: u32
  fc_input_buffer_size :: u32
  fc_write_timeout_per_1mb_msec :: u32

definition msec :: "u32 \<Rightarrow> int" where
  "msec n = uint n * 1000000"

definition default_heartbeat_params :: heartbeat_params where
  "default_heartbeat_params =
     \<lparr>hb_initiate_heartbeat_timeout = msec 10000, hb_await_heartbeat_reply_timeout = msec (2 * 10000),
      hb_client_app_id = 0\<rparr>"

definition default_entry_cfg :: entry_cfg where
  "default_entry_cfg =
     \<lparr>ec_max_valid_package_size = 100 * 1024 * 1024, ec_heartbeat = default_heartbeat_params\<rparr>"

definition make_underlying_connection_cfg :: "entry_full_cfg \<Rightarrow> connection_cfg option" where
  "make_underlying_connection_cfg cfg = do {
     res \<leftarrow> cfg_input_buffer_size (unat (fc_input_buffer_size cfg)) default_connection_cfg;
     Some (cfg_write_timeout_per_1mb (msec (fc_write_timeout_per_1mb_msec cfg)) res) }"

text \<open>The sum of the two timeouts is taken in \<open>std::uint32_t\<close>.\<close>

definition make_short_cfg :: "entry_full_cfg \<Rightarrow> entry_cfg" where
  "make_short_cfg cfg =
     \<lparr>ec_max_valid_package_size = fc_max_valid_package_size cfg,
      ec_heartbeat =
        \<lparr>hb_initiate_heartbeat_timeout = msec (fc_initiate_heartbeat_timeout_msec cfg),
         hb_await_heartbeat_reply_timeout =
           msec (fc_initiate_heartbeat_timeout_msec cfg + fc_await_heartbeat_reply_timeout_msec cfg),
         hb_client_app_id = 0\<rparr>\<rparr>"

end
