(* ===== verification/EntryFacts.thy ===== *)
theory EntryFacts
  imports Entry
begin

text \<open>
  What an entry makes of the packages its peer sent. The interface to protobuf is the locale
  \<open>message_parser\<close>; \<open>chunk_parse\<close> is a parser that uses nothing but \<open>Next\<close> and \<open>BackUp\<close> of the stream
  and satisfies it. The packages on the wire are \<open>wire_pkg\<close>, \<open>wire_image\<close> are their bytes and
  \<open>wire_events\<close> is what the receiving entry does for them.
\<close>

section \<open>Packages on the wire\<close>

datatype 'm wire_pkg =
    Wp_message u16 'm "byte list"
  | Wp_heartbeat_request
  | Wp_heartbeat_reply

definition message_header :: "'m message_api \<Rightarrow> u16 \<Rightarrow> 'm \<Rightarrow> byte list \<Rightarrow> pkg_header" where
  "message_header mapi mid m att =
     pkg_header_make pkg_content_message mid (word_of_nat (length (serialize mapi m))) (word_of_nat (length att))"

fun wire_image :: "'m message_api \<Rightarrow> 'm wire_pkg \<Rightarrow> byte list" where
  "wire_image mapi (Wp_message mid m att) = pkg_header_bytes (message_header mapi mid m att) @ serialize mapi m @ att"
| "wire_image mapi Wp_heartbeat_request = pkg_header_bytes (pkg_header_make pkg_content_heartbeat_request 0 0 0)"
| "wire_image mapi Wp_heartbeat_reply = pkg_header_bytes (pkg_header_make pkg_content_heartbeat_reply 0 0 0)"

fun wire_events :: "'m wire_pkg \<Rightarrow> 'm entry_event list" where
  "wire_events (Wp_message mid m att) = [Ee_message mid \<lparr>mc_message = m, mc_attached_buffer = att\<rparr>, Ee_inc_incoming mid]"
| "wire_events Wp_heartbeat_request =
     [Ee_send Op_schedule_send [pkg_header_bytes (pkg_header_make pkg_content_heartbeat_reply 0 0 0)]]"
| "wire_events Wp_heartbeat_reply = []"

text \<open>A package the receiver has to accept: a message it knows, within the limits, that its handler takes.\<close>

fun wire_ok :: "'m entry_api \<Rightarrow> (u16 \<Rightarrow> byte list \<Rightarrow> 'm option) \<Rightarrow> 'm message_api \<Rightarrow> entry_cfg \<Rightarrow> 'm wire_pkg \<Rightarrow> bool" where
  "wire_ok api decode mapi cfg (Wp_message mid m att) \<longleftrightarrow>
     ea_incoming api mid \<and> decode mid (serialize mapi m) = Some m \<and>
     length (serialize mapi m) \<le> unat (ec_max_valid_package_size cfg) \<and> length att < 2 ^ 32 \<and>
     ea_on_message api mid \<lparr>mc_message = m, mc_attached_buffer = att\<rparr> = None"
| "wire_ok api decode mapi cfg _ \<longleftrightarrow> True"

text \<open>Bytes that are all of the packages leave nothing over.\<close>

lemma nothing_left:
  assumes "concat (map (wire_image mapi) ps) = concat (map (wire_image mapi) (take k ps)) @ rest"
    and "case drop k ps of [] \<Rightarrow> rest = [] | p # _ \<Rightarrow> length rest < length (wire_image mapi p)"
  shows "take k ps = ps"
proof -
  have "rest = concat (map (wire_image mapi) (drop k ps))"
    using assms(1) by (metis append_take_drop_id concat_append map_append same_append_eq)
  then have "drop k ps = []" using assms(2) by (cases "drop k ps") auto
  then show ?thesis by simp
qed

section \<open>The interface to protobuf\<close>

text \<open>
  Parsing at most \<open>n\<close> bytes of a stream that has them: the parser sees the bytes in order, wherever the
  buffers end, counts what it consumed, leaves the rest, and when it succeeds it consumed all \<open>n\<close>.
\<close>

locale message_parser =
  fixes parse :: "u16 \<Rightarrow> pkg_input \<Rightarrow> nat \<Rightarrow> ('m option \<times> nat \<times> pkg_input) option"
    and decode :: "u16 \<Rightarrow> byte list \<Rightarrow> 'm option"
  assumes parse_stream:
    "pi_wf p \<Longrightarrow> \<not> pi_first_buffer_served p \<Longrightarrow> n \<le> length (pi_content p) \<Longrightarrow> length (pi_content p) < 2 ^ 31 \<Longrightarrow>
     \<exists>k q. parse mid p n = Some (decode mid (take n (pi_content p)), k, q) \<and> k \<le> n \<and>
       (decode mid (take n (pi_content p)) \<noteq> None \<longrightarrow> k = n) \<and>
       pi_wf q \<and> pi_unread q = drop k (pi_content p)"

section \<open>A parser over Next and BackUp\<close>

partial_function (option) limited_read :: "pkg_input \<Rightarrow> nat \<Rightarrow> byte list \<Rightarrow> (byte list \<times> pkg_input) option" where
  "limited_read p n acc =
     (if n = 0 then Some (acc, p)
      else do {
        (chunk, p) \<leftarrow> pi_Next p;
        case chunk of
          None \<Rightarrow> Some (acc, p)
        | Some (data, len) \<Rightarrow>
            if nat len \<le> n then limited_read p (n - nat len) (acc @ take (nat len) data)
            else do { p \<leftarrow> pi_BackUp p (nat len - n); Some (acc @ take n data, p) } })"

definition chunk_parse ::
  "(u16 \<Rightarrow> byte list \<Rightarrow> 'm option) \<Rightarrow> u16 \<Rightarrow> pkg_input \<Rightarrow> nat \<Rightarrow> ('m option \<times> nat \<times> pkg_input) option" where
  "chunk_parse decode mid p n = do {
     (bytes, q) \<leftarrow> limited_read p n [];
     Some (decode mid bytes, length bytes, q) }"

lemma limited_read_ok:
  assumes "pi_wf p" "n \<le> length (pi_unread p)" "length (pi_unread p) < 2 ^ 31"
  shows "\<exists>q. limited_read p n acc = Some (acc @ take n (pi_unread p), q) \<and> pi_wf q \<and> pi_unread q = drop n (pi_unread p)"
  using assms
proof (induction "pi_waiting p" arbitrary: p n acc rule: less_induct)
  case less
  show ?case
  proof (cases "n = 0")
    case True
    with less.prems show ?thesis by (subst limited_read.simps) simp
  next
    case False
    then obtain data len q where q: "pi_Next p = Some (Some (data, len), q)" "pi_wf q" "0 \<le> len"
      "pi_first_buffer_served q" "pi_waiting q < pi_waiting p" "nat len \<le> length data"
      "remained_in_the_first_buffer q = Some (nat len)" "pi_content q = pi_unread p"
      "take (nat len) data @ pi_unread q = pi_unread p"
      using pi_Next_ok [OF less.prems(1,3)] less.prems(2) by auto
    have unread: "take (nat len) (pi_unread p) = take (nat len) data" "pi_unread q = drop (nat len) (pi_unread p)"
      using q(6) by (simp_all add: q(9) [symmetric])
    show ?thesis
    proof (cases "nat len \<le> n")
      case True
      have "\<exists>q'. limited_read q (n - nat len) (acc @ take (nat len) data) =
          Some ((acc @ take (nat len) data) @ take (n - nat len) (pi_unread q), q') \<and> pi_wf q' \<and>
          pi_unread q' = drop (n - nat len) (pi_unread q)"
        using less.prems(2,3) unread(2) by (intro less.hyps [OF q(5) q(2)]) simp_all
      moreover have "take (nat len) data @ take (n - nat len) (pi_unread q) = take n (pi_unread p)"
        using True q(6) by (simp add: q(9) [symmetric])
      moreover have "drop (n - nat len) (pi_unread q) = drop n (pi_unread p)"
        using True unread(2) by simp
      ultimately show ?thesis
        using False True q(1) by (subst limited_read.simps) simp
    next
      case long: False
      obtain q' where q': "pi_BackUp q (nat len - n) = Some q'" "pi_wf q'"
        "pi_unread q' = drop (nat len - (nat len - n)) (pi_content q)"
        using pi_BackUp_ok [OF q(2,4,7), of "nat len - n"] by auto
      have "take n data = take n (pi_unread p)"
        using long q(6) by (simp add: q(9) [symmetric])
      then show ?thesis
        using False long q(1,8) q' by (subst limited_read.simps) simp
    qed
  qed
qed

interpretation chunked: message_parser "chunk_parse decode" decode
proof (unfold_locales, goal_cases)
  case (1 p n mid)
  then obtain q where "limited_read p n [] = Some (take n (pi_content p), q)" "pi_wf q"
    "pi_unread q = drop n (pi_content p)"
    using limited_read_ok [of p n "[]"] by auto
  with 1 show ?case by (simp add: chunk_parse_def)
qed

section \<open>One package\<close>

lemma wire_header_props:
  fixes mid :: u16 and n k :: nat
  assumes "n < 2 ^ 32" "k < 2 ^ 32"
  defines "h \<equiv> pkg_header_make pkg_content_message mid (word_of_nat n) (word_of_nat k)"
  shows "unat (ph_content_size h) = n" "unat (ph_attached_binary_size h) = k" "advertized_header_size h = 12"
    "ph_pkg_content_type h = pkg_content_message" "ph_content_specific_value h = mid"
  using assms(1,2)
  by (simp_all add: h_def unat_of_nat)

definition input_ready :: "'m entry \<Rightarrow> byte list \<Rightarrow> bool" where
  "input_ready e bs \<longleftrightarrow> pi_wf (en_pkg_input e) \<and> \<not> pi_first_buffer_served (en_pkg_input e) \<and>
     pi_content (en_pkg_input e) = bs"

lemma view_header:
  assumes "input_ready e (pkg_header_bytes h @ rest)"
  shows "view_pkg_header (en_pkg_input e) = Some h" "sizeof_pkg_header \<le> pi_total_size (en_pkg_input e)"
proof -
  have c: "pi_wf (en_pkg_input e)" "\<not> pi_first_buffer_served (en_pkg_input e)"
      "pi_content (en_pkg_input e) = pkg_header_bytes h @ rest"
    using assms by (simp_all add: input_ready_def)
  show "view_pkg_header (en_pkg_input e) = Some h"
    using view_pkg_header_ok [OF c(1,2)] by (simp add: c(3))
  show "sizeof_pkg_header \<le> pi_total_size (en_pkg_input e)"
    using pi_total [OF c(1)] by (simp add: c(3))
qed

lemma skip_header:
  assumes "input_ready e (pkg_header_bytes h @ rest)" "advertized_header_size h = 12"
  obtains s where "skip_bytes (en_pkg_input e) (advertized_header_size h) = Some s"
    "input_ready (e\<lparr>en_pkg_input := s\<rparr>) rest"
  using assms skip_bytes_ok [of "en_pkg_input e" 12]
  by (auto simp: input_ready_def sizeof_pkg_header_def)

lemma make_message_carier_ok:
  assumes "pi_wf s" "\<not> pi_first_buffer_served s" "pi_content s = att @ rest"
    and "unat (ph_attached_binary_size h) = length att"
  obtains s' where "make_message_carier h m s = Some (\<lparr>mc_message = m, mc_attached_buffer = att\<rparr>, s')"
    "pi_wf s'" "\<not> pi_first_buffer_served s'" "pi_content s' = rest"
proof (cases "att = []")
  case True
  then have "ph_attached_binary_size h = 0" using assms(4) by (simp add: unat_eq_0)
  with True assms that show ?thesis by (simp add: make_message_carier_def)
next
  case False
  then have "ph_attached_binary_size h \<noteq> 0" using assms(4) by auto
  moreover obtain s' where "read_buffer s (length att) = Some (att, s')" "pi_wf s'"
      "\<not> pi_first_buffer_served s'" "pi_content s' = rest"
    using read_buffer_ok [OF assms(1,2), of "length att"] assms(3) False by auto
  ultimately show ?thesis using that assms(4) by (simp add: make_message_carier_def)
qed

context message_parser
begin

lemma handle_incoming_message_ok:
  assumes ready: "input_ready e (serialize mapi m @ att @ rest)"
    and ok: "wire_ok api decode mapi (en_cfg e) (Wp_message mid m att)" and p: "ea_parse api = parse"
    and small: "length (serialize mapi m @ att @ rest) < 2 ^ 31"
    and h: "unat (ph_content_size h) = length (serialize mapi m)"
      "unat (ph_attached_binary_size h) = length att" "ph_content_specific_value h = mid"
  shows "\<exists>s. handle_incoming_message api e h =
      Some (Returned Fully_consumed, e\<lparr>en_pkg_input := s, en_out := en_out e @ wire_events (Wp_message mid m att)\<rparr>) \<and>
      input_ready (e\<lparr>en_pkg_input := s\<rparr>) rest"
proof -
  let ?n = "length (serialize mapi m)"
  have c: "pi_wf (en_pkg_input e)" "\<not> pi_first_buffer_served (en_pkg_input e)"
      "pi_content (en_pkg_input e) = serialize mapi m @ att @ rest"
    using ready by (simp_all add: input_ready_def)
  obtain q where q: "parse mid (en_pkg_input e) ?n = Some (Some m, ?n, q)" "pi_wf q" "pi_unread q = att @ rest"
    using parse_stream [OF c(1,2), of ?n mid] c(3) ok small by auto
  obtain s where s: "pi_Skip q 0 = Some (True, s)" "pi_wf s" "\<not> pi_first_buffer_served s" "pi_content s = att @ rest"
    using pi_Skip_ok [OF q(2), of 0] q(3) by auto
  obtain s' where s': "make_message_carier h m s = Some (\<lparr>mc_message = m, mc_attached_buffer = att\<rparr>, s')"
      "pi_wf s'" "\<not> pi_first_buffer_served s'" "pi_content s' = rest"
    by (rule make_message_carier_ok [OF s(2,3,4) h(2)])
  have "handle_incoming_message api e h =
      Some (Returned Fully_consumed, e\<lparr>en_pkg_input := s', en_out := en_out e @ wire_events (Wp_message mid m att)\<rparr>)"
    using ok p q(1) s(1) s'(1) h by (simp add: handle_incoming_message_def Let_def)
  moreover have "input_ready (e\<lparr>en_pkg_input := s'\<rparr>) rest"
    using s' by (simp add: input_ready_def)
  ultimately show ?thesis by blast
qed

lemma single_package_consumed:
  assumes ready: "input_ready e (wire_image mapi p @ rest)" and ok: "wire_ok api decode mapi (en_cfg e) p"
    and p: "ea_parse api = parse" and act: "en_connection_is_active e \<or> p \<noteq> Wp_heartbeat_request"
    and small: "length (wire_image mapi p @ rest) < 2 ^ 31"
  shows "\<exists>s. handle_single_package api e =
      Some (Returned Fully_consumed, e\<lparr>en_pkg_input := s, en_out := en_out e @ wire_events p\<rparr>) \<and>
      input_ready (e\<lparr>en_pkg_input := s\<rparr>) rest"
proof (cases p)
  case (Wp_message mid m att)
  define h where "h = message_header mapi mid m att"
  have lens: "length (serialize mapi m) < 2 ^ 32" "length att < 2 ^ 32"
    using small by (simp_all add: Wp_message)
  note h = wire_header_props [OF lens, of mid, folded message_header_def, folded h_def]
  have ready: "input_ready e (pkg_header_bytes h @ serialize mapi m @ att @ rest)"
    using assms(1) by (simp add: Wp_message h_def)
  note view = view_header [OF ready]
  obtain s where s: "skip_bytes (en_pkg_input e) (advertized_header_size h) = Some s"
      "input_ready (e\<lparr>en_pkg_input := s\<rparr>) (serialize mapi m @ att @ rest)"
    by (rule skip_header [OF ready h(3)])
  have total: "pi_total_size (en_pkg_input e) = 12 + length (serialize mapi m) + length att + length rest"
    using ready pi_total [of "en_pkg_input e"] by (simp add: input_ready_def sizeof_pkg_header_def)
  have "pkg_has_valid_size e h" "pkg_has_all_the_data e h"
    using ok h total by (auto simp: pkg_has_valid_size_def pkg_has_all_the_data_def Wp_message word_less_nat_alt)
  then have "handle_single_package api e = handle_incoming_message api (e\<lparr>en_pkg_input := s\<rparr>) h"
    using view s(1) h(3,4)
    by (simp add: handle_single_package_def handle_message_pkg_def pkg_header_image_size_dwords_def)
  then show ?thesis
    using handle_incoming_message_ok [OF s(2), of api mid h] ok p h(1,2,5) small by (auto simp: Wp_message)
next
  case Wp_heartbeat_request
  let ?h = "pkg_header_make pkg_content_heartbeat_request 0 0 0"
  have ready: "input_ready e (pkg_header_bytes ?h @ rest)" using assms(1) by (simp add: Wp_heartbeat_request)
  have adv: "advertized_header_size ?h = 12" by simp
  obtain s where "skip_bytes (en_pkg_input e) (advertized_header_size ?h) = Some s"
      "input_ready (e\<lparr>en_pkg_input := s\<rparr>) rest"
    by (rule skip_header [OF ready adv])
  then show ?thesis
    using view_header [OF ready] act
    by (auto simp: handle_single_package_def handle_heartbeat_request_pkg_def Wp_heartbeat_request Let_def)
next
  case Wp_heartbeat_reply
  let ?h = "pkg_header_make pkg_content_heartbeat_reply 0 0 0"
  have ready: "input_ready e (pkg_header_bytes ?h @ rest)" using assms(1) by (simp add: Wp_heartbeat_reply)
  have adv: "advertized_header_size ?h = 12" by simp
  obtain s where "skip_bytes (en_pkg_input e) (advertized_header_size ?h) = Some s"
      "input_ready (e\<lparr>en_pkg_input := s\<rparr>) rest"
    by (rule skip_header [OF ready adv])
  then show ?thesis
    using view_header [OF ready]
    by (auto simp: handle_single_package_def handle_heartbeat_reply_pkg_def Wp_heartbeat_reply Let_def)
qed

lemma single_package_partial:
  assumes ready: "input_ready e bs" and split: "bs @ tail = wire_image mapi p" "tail \<noteq> []"
    and ok: "wire_ok api decode mapi (en_cfg e) p" and small: "length (wire_image mapi p) < 2 ^ 31"
  shows "handle_single_package api e = Some (Returned Needs_more_input_data, e)"
proof (cases "length bs < 12")
  case True
  then have "\<not> sizeof_pkg_header \<le> pi_total_size (en_pkg_input e)"
    using ready pi_total [of "en_pkg_input e"] by (simp add: input_ready_def sizeof_pkg_header_def)
  then show ?thesis by (simp add: handle_single_package_def)
next
  case False
  have "length bs < length (wire_image mapi p)" using split by (metis length_append length_greater_0_conv less_add_same_cancel1)
  then obtain mid m att where p: "p = Wp_message mid m att"
    using False by (cases p) (auto simp: sizeof_pkg_header_def)
  define h where "h = message_header mapi mid m att"
  have lens: "length (serialize mapi m) < 2 ^ 32" "length att < 2 ^ 32" using small by (simp_all add: p)
  note h = wire_header_props [OF lens, of mid, folded message_header_def, folded h_def]
  have "take 12 bs = take 12 (wire_image mapi p)" using False by (simp add: split(1) [symmetric])
  then have "take 12 bs = pkg_header_bytes h" by (simp add: p h_def sizeof_pkg_header_def)
  then have bs: "bs = pkg_header_bytes h @ drop 12 bs" by (metis append_take_drop_id)
  have ready': "input_ready e (pkg_header_bytes h @ drop 12 bs)" using ready bs by simp
  note view = view_header [OF ready']
  have total: "pi_total_size (en_pkg_input e) = length bs"
    using ready pi_total [of "en_pkg_input e"] by (simp add: input_ready_def)
  have "length bs < 12 + length (serialize mapi m) + length att"
    using \<open>length bs < length (wire_image mapi p)\<close> by (simp add: p sizeof_pkg_header_def)
  then have "pkg_has_valid_size e h" "\<not> pkg_has_all_the_data e h"
    using ok h total by (auto simp: pkg_has_valid_size_def pkg_has_all_the_data_def p word_less_nat_alt)
  then show ?thesis using view h(4) by (simp add: handle_single_package_def handle_message_pkg_def)
qed

text \<open>
  The loop over input that is the beginning of a sequence of packages takes the complete ones, in order,
  and leaves the bytes of the incomplete one.
\<close>

lemma loop_consumes:
  assumes "input_ready e bs" "bs @ tail = concat (map (wire_image mapi) ps)"
    and "\<And>p. p \<in> set ps \<Longrightarrow> wire_ok api decode mapi (en_cfg e) p \<and> length (wire_image mapi p) < 2 ^ 31"
    and "ea_parse api = parse" "en_connection_is_active e \<or> Wp_heartbeat_request \<notin> set ps" "length bs < 2 ^ 31"
  shows "\<exists>k s rest. run_input_stream_loop api e =
      Some (Returned (), e\<lparr>en_pkg_input := s, en_out := en_out e @ concat (map wire_events (take k ps))\<rparr>) \<and>
      input_ready (e\<lparr>en_pkg_input := s\<rparr>) rest \<and> k \<le> length ps \<and>
      bs = concat (map (wire_image mapi) (take k ps)) @ rest \<and>
      (case drop k ps of [] \<Rightarrow> rest = [] | p # _ \<Rightarrow> length rest < length (wire_image mapi p))"
  using assms
proof (induction ps arbitrary: e bs)
  case Nil
  then have "handle_single_package api e = Some (Returned Needs_more_input_data, e)"
    using pi_total [of "en_pkg_input e"]
    by (simp add: handle_single_package_def input_ready_def sizeof_pkg_header_def)
  then have "run_input_stream_loop api e = Some (Returned (), e)"
    by (subst run_input_stream_loop.simps) simp
  then show ?case
    using Nil by (intro exI [of _ 0] exI [of _ "en_pkg_input e"] exI [of _ "[]"]) simp
next
  case (Cons p ps)
  show ?case
  proof (cases "length bs < length (wire_image mapi p)")
    case True
    then have "bs @ drop (length bs) (wire_image mapi p) = wire_image mapi p"
      using Cons.prems(2) append_split_short [of bs tail "wire_image mapi p"] by simp
    moreover have "drop (length bs) (wire_image mapi p) \<noteq> []" using True by simp
    ultimately have "handle_single_package api e = Some (Returned Needs_more_input_data, e)"
      using Cons.prems(3) by (intro single_package_partial [OF Cons.prems(1)]) auto
    then have "run_input_stream_loop api e = Some (Returned (), e)"
      by (subst run_input_stream_loop.simps) simp
    then show ?thesis
      using Cons.prems(1) True by (intro exI [of _ 0] exI [of _ "en_pkg_input e"] exI [of _ bs]) simp
  next
    case False
    define bs' where "bs' = drop (length (wire_image mapi p)) bs"
    have bs: "bs = wire_image mapi p @ bs'"
      using Cons.prems(2) False append_split_long [of bs tail "wire_image mapi p"] by (simp add: bs'_def)
    obtain s where s: "handle_single_package api e =
        Some (Returned Fully_consumed, e\<lparr>en_pkg_input := s, en_out := en_out e @ wire_events p\<rparr>)"
        "input_ready (e\<lparr>en_pkg_input := s\<rparr>) bs'"
      using single_package_consumed [of e mapi p bs'] Cons.prems bs by auto
    let ?e = "e\<lparr>en_pkg_input := s, en_out := en_out e @ wire_events p\<rparr>"
    have "\<exists>k s' rest. run_input_stream_loop api ?e =
        Some (Returned (), ?e\<lparr>en_pkg_input := s', en_out := en_out ?e @ concat (map wire_events (take k ps))\<rparr>) \<and>
        input_ready (?e\<lparr>en_pkg_input := s'\<rparr>) rest \<and> k \<le> length ps \<and>
        bs' = concat (map (wire_image mapi) (take k ps)) @ rest \<and>
        (case drop k ps of [] \<Rightarrow> rest = [] | p # _ \<Rightarrow> length rest < length (wire_image mapi p))"
      using Cons.prems s(2) bs by (intro Cons.IH) (auto simp: input_ready_def)
    then obtain k s' rest where IH: "run_input_stream_loop api ?e =
        Some (Returned (), ?e\<lparr>en_pkg_input := s', en_out := en_out ?e @ concat (map wire_events (take k ps))\<rparr>)"
        "input_ready (?e\<lparr>en_pkg_input := s'\<rparr>) rest" "k \<le> length ps"
        "bs' = concat (map (wire_image mapi) (take k ps)) @ rest"
        "case drop k ps of [] \<Rightarrow> rest = [] | p # _ \<Rightarrow> length rest < length (wire_image mapi p)"
      by blast
    have "run_input_stream_loop api e = run_input_stream_loop api ?e"
      using s(1) by (subst run_input_stream_loop.simps) simp
    then show ?thesis
      using IH bs by (intro exI [of _ "Suc k"] exI [of _ s'] exI [of _ rest]) (simp add: input_ready_def)
  qed
qed

end

section \<open>A stream of packages in any pieces\<close>

text \<open>The buffers the connection reads, each with the time it is handled at.\<close>

fun entry_feed :: "'m entry_api \<Rightarrow> (int \<times> simple_buffer) list \<Rightarrow> 'm entry \<Rightarrow> 'm entry option" where
  "entry_feed api [] e = Some e"
| "entry_feed api ((now, buf) # bufs) e = do { e \<leftarrow> handle_input api now e buf; entry_feed api bufs e }"

abbreviation fed_bytes :: "(int \<times> simple_buffer) list \<Rightarrow> byte list" where
  "fed_bytes bufs \<equiv> concat (map (\<lambda>b. sb_view (snd b)) bufs)"

context message_parser
begin

lemma feed_consumes:
  assumes "input_ready e bs" "bs @ fed_bytes bufs @ tail = concat (map (wire_image mapi) ps)"
    and "\<And>p. p \<in> set ps \<Longrightarrow> wire_ok api decode mapi (en_cfg e) p \<and> length (wire_image mapi p) \<le> L"
    and "\<And>b. b \<in> set bufs \<Longrightarrow> sb_wf (snd b) \<and> sb_size (snd b) \<le> M" and "L + M < 2 ^ 31"
    and "ea_parse api = parse" "en_connection_is_active e"
    and "case ps of [] \<Rightarrow> bs = [] | p # _ \<Rightarrow> length bs < length (wire_image mapi p)"
  shows "\<exists>k e' rest. entry_feed api bufs e = Some e' \<and> en_connection_is_active e' \<and> en_cfg e' = en_cfg e \<and>
      en_out e' = en_out e @ concat (map wire_events (take k ps)) \<and> input_ready e' rest \<and> k \<le> length ps \<and>
      bs @ fed_bytes bufs = concat (map (wire_image mapi) (take k ps)) @ rest \<and>
      (case drop k ps of [] \<Rightarrow> rest = [] | p # _ \<Rightarrow> length rest < length (wire_image mapi p))"
  using assms
proof (induction bufs arbitrary: e bs ps)
  case Nil
  then show ?case
    by (intro exI [of _ 0] exI [of _ e] exI [of _ bs]) (auto split: list.splits)
next
  case (Cons b bufs)
  obtain now buf where b: "b = (now, buf)" by (cases b)
  have buf: "sb_wf buf" "length (sb_view buf) \<le> M"
    using Cons.prems(4) [of b] by (auto simp: b sb_view_length)
  obtain q where q: "pi_append (en_pkg_input e) buf = Some q" "pi_wf q" "\<not> pi_first_buffer_served q"
      "pi_content q = bs @ sb_view buf"
    using pi_append_ok [of "en_pkg_input e" buf] Cons.prems(1) buf(1) by (auto simp: input_ready_def)
  let ?e = "e\<lparr>en_pkg_input := q\<rparr>"
  let ?bs = "bs @ sb_view buf"
  have bsL: "length bs \<le> L"
  proof (cases ps)
    case (Cons p ps')
    have "length (wire_image mapi p) \<le> L" using Cons.prems(3) [of p] Cons by simp
    then show ?thesis using Cons.prems(8) Cons by simp
  qed (use Cons.prems(8) in simp)
  obtain k s rest where loop: "run_input_stream_loop api ?e =
      Some (Returned (), ?e\<lparr>en_pkg_input := s, en_out := en_out ?e @ concat (map wire_events (take k ps))\<rparr>)"
      "input_ready (?e\<lparr>en_pkg_input := s\<rparr>) rest" "k \<le> length ps"
      "?bs = concat (map (wire_image mapi) (take k ps)) @ rest"
      "case drop k ps of [] \<Rightarrow> rest = [] | p # _ \<Rightarrow> length rest < length (wire_image mapi p)"
  proof -
    have "\<exists>k s rest. run_input_stream_loop api ?e =
        Some (Returned (), ?e\<lparr>en_pkg_input := s, en_out := en_out ?e @ concat (map wire_events (take k ps))\<rparr>) \<and>
        input_ready (?e\<lparr>en_pkg_input := s\<rparr>) rest \<and> k \<le> length ps \<and>
        ?bs = concat (map (wire_image mapi) (take k ps)) @ rest \<and>
        (case drop k ps of [] \<Rightarrow> rest = [] | p # _ \<Rightarrow> length rest < length (wire_image mapi p))"
    proof (rule loop_consumes)
      show "input_ready ?e ?bs" using q by (simp add: input_ready_def)
      show "?bs @ fed_bytes bufs @ tail = concat (map (wire_image mapi) ps)"
        using Cons.prems(2) by (simp add: b)
      show "length ?bs < 2 ^ 31" using bsL buf(2) Cons.prems(5) by simp
      show "wire_ok api decode mapi (en_cfg ?e) p \<and> length (wire_image mapi p) < 2 ^ 31" if "p \<in> set ps" for p
        using Cons.prems(3) [OF that] Cons.prems(5) by auto
    qed (use Cons.prems in simp_all)
    with that show thesis by blast
  qed
  let ?e' = "update_last_input_at now
      (?e\<lparr>en_pkg_input := s, en_out := en_out ?e @ concat (map wire_events (take k ps))\<rparr>)"
  have handle: "handle_input api now e buf = Some ?e'"
    using q(1) loop(1) by (simp add: handle_input_def)
  have rest: "rest @ fed_bytes bufs @ tail = concat (map (wire_image mapi) (drop k ps))"
  proof -
    have "?bs @ fed_bytes bufs @ tail = concat (map (wire_image mapi) (take k ps @ drop k ps))"
      using Cons.prems(2) by (simp add: b)
    then show ?thesis unfolding loop(4) map_append concat_append by simp
  qed
  have "\<exists>j e'' rest'. entry_feed api bufs ?e' = Some e'' \<and> en_connection_is_active e'' \<and> en_cfg e'' = en_cfg ?e' \<and>
      en_out e'' = en_out ?e' @ concat (map wire_events (take j (drop k ps))) \<and> input_ready e'' rest' \<and>
      j \<le> length (drop k ps) \<and>
      rest @ fed_bytes bufs = concat (map (wire_image mapi) (take j (drop k ps))) @ rest' \<and>
      (case drop j (drop k ps) of [] \<Rightarrow> rest' = [] | p # _ \<Rightarrow> length rest' < length (wire_image mapi p))"
  proof (rule Cons.IH [OF _ rest])
    show "input_ready ?e' rest" using loop(2) by (simp add: input_ready_def update_last_input_at_def)
    show "wire_ok api decode mapi (en_cfg ?e') p \<and> length (wire_image mapi p) \<le> L" if "p \<in> set (drop k ps)" for p
      using Cons.prems(3) [of p] in_set_dropD [OF that] by (simp add: update_last_input_at_def)
  qed (use Cons.prems loop(5) in \<open>auto simp: update_last_input_at_def\<close>)
  then obtain j e'' rest' where IH: "entry_feed api bufs ?e' = Some e''" "en_connection_is_active e''" "en_cfg e'' = en_cfg ?e'"
      "en_out e'' = en_out ?e' @ concat (map wire_events (take j (drop k ps)))" "input_ready e'' rest'"
      "j \<le> length (drop k ps)"
      "rest @ fed_bytes bufs = concat (map (wire_image mapi) (take j (drop k ps))) @ rest'"
      "case drop j (drop k ps) of [] \<Rightarrow> rest' = [] | p # _ \<Rightarrow> length rest' < length (wire_image mapi p)"
    by blast
  have take: "take (k + j) ps = take k ps @ take j (drop k ps)" by (rule take_add)
  show ?case
  proof (intro exI [of _ "k + j"] exI [of _ e''] exI [of _ rest'] conjI)
    show "bs @ fed_bytes (b # bufs) = concat (map (wire_image mapi) (take (k + j) ps)) @ rest'"
      using loop(4) IH(7) by (simp add: b take) (metis append.assoc)
    show "k + j \<le> length ps" using loop(3) IH(6) by simp
    show "case drop (k + j) ps of [] \<Rightarrow> rest' = [] | p # _ \<Rightarrow> length rest' < length (wire_image mapi p)"
      using IH(8) by (simp add: add.commute)
    show "en_out e'' = en_out e @ concat (map wire_events (take (k + j) ps))"
      using IH(4) by (simp add: take update_last_input_at_def)
    show "en_cfg e'' = en_cfg e" using IH(3) by (simp add: update_last_input_at_def)
    show "entry_feed api (b # bufs) e = Some e''" using handle IH(1) by (simp add: b)
  qed (fact IH(2), fact IH(5))
qed

end

end
