(* ===== verification/EntryProps.thy ===== *)
theory EntryProps
  imports EntryFacts
begin

text \<open>
  The properties of an entry: what it delivers, how it ends, how it notices a silent peer, and the inputs
  and calls it does not stand.
\<close>

section \<open>Delivery\<close>

lemma pkg_input_new_ok:
  assumes "0 < cap"
  shows "pi_wf (pkg_input_new cap)" "pi_content (pkg_input_new cap) = []"
    "\<not> pi_first_buffer_served (pkg_input_new cap)"
proof -
  show c: "pi_content (pkg_input_new cap) = []"
    by (simp add: pi_content_def pi_queue_def pkg_input_new_def)
  show "pi_wf (pkg_input_new cap)"
    unfolding pi_wf_def c using assms by (simp add: pkg_input_new_def)
  show "\<not> pi_first_buffer_served (pkg_input_new cap)" by (simp add: pkg_input_new_def)
qed

abbreviation fresh_entry :: "entry_cfg \<Rightarrow> shutdown_handler_variant \<Rightarrow> nat \<Rightarrow> int \<Rightarrow> 'm entry" where
  "fresh_entry cfg sh cap now \<equiv> init_underlying_connection now (entry_ctor cfg sh cap)"

lemma fresh_entry_simps [simp]:
  "en_connection_is_active (fresh_entry cfg sh cap now)" "en_cfg (fresh_entry cfg sh cap now) = cfg"
  "en_shutdown_handler (fresh_entry cfg sh cap now) = sh"
  by (simp_all add: init_underlying_connection_def entry_ctor_def update_last_input_at_def
      schedule_next_heartbeat_check_def Let_def)

lemma fresh_entry_ready: "0 < cap \<Longrightarrow> input_ready (fresh_entry cfg sh cap now) []"
  using pkg_input_new_ok [of cap]
  by (simp add: input_ready_def init_underlying_connection_def entry_ctor_def update_last_input_at_def
      schedule_next_heartbeat_check_def Let_def)

lemma wire_image_nonempty: "wire_image mapi p \<noteq> []"
  by (cases p) (auto simp: sizeof_pkg_header_def simp flip: length_0_conv)

lemma empty_input_strict: "case ps of [] \<Rightarrow> [] = [] | p # _ \<Rightarrow> length [] < length (wire_image mapi p)"
  using wire_image_nonempty by (auto split: list.splits)

lemma fresh_feed:
  fixes api :: "'m entry_api"
  assumes "message_parser (ea_parse api) decode" and "0 < cap"
    and "\<forall>p \<in> set ps. wire_ok api decode mapi cfg p \<and> length (wire_image mapi p) \<le> L"
    and "\<forall>b \<in> set bufs. sb_wf (snd b) \<and> sb_size (snd b) \<le> M" and "L + M < 2 ^ 31"
    and "fed_bytes bufs @ tail = concat (map (wire_image mapi) ps)"
  obtains k e rest where "entry_feed api bufs (fresh_entry cfg sh cap now) = Some e"
    "en_out e = en_out (fresh_entry cfg sh cap now) @ concat (map wire_events (take k ps))" "k \<le> length ps"
    "fed_bytes bufs = concat (map (wire_image mapi) (take k ps)) @ rest"
    "case drop k ps of [] \<Rightarrow> rest = [] | p # _ \<Rightarrow> length rest < length (wire_image mapi p)"
proof -
  have "\<exists>k e rest. entry_feed api bufs (fresh_entry cfg sh cap now) = Some e \<and> en_connection_is_active e \<and>
      en_cfg e = en_cfg (fresh_entry cfg sh cap now :: 'm entry) \<and>
      en_out e = en_out (fresh_entry cfg sh cap now) @ concat (map wire_events (take k ps)) \<and> input_ready e rest \<and>
      k \<le> length ps \<and> [] @ fed_bytes bufs = concat (map (wire_image mapi) (take k ps)) @ rest \<and>
      (case drop k ps of [] \<Rightarrow> rest = [] | p # _ \<Rightarrow> length rest < length (wire_image mapi p))"
  proof (rule message_parser.feed_consumes [OF assms(1) fresh_entry_ready [OF assms(2)]])
    show "[] @ fed_bytes bufs @ tail = concat (map (wire_image mapi) ps)" using assms(6) by simp
    show "wire_ok api decode mapi (en_cfg (fresh_entry cfg sh cap now)) p \<and> length (wire_image mapi p) \<le> L"
      if "p \<in> set ps" for p using assms(3) that by simp
    show "sb_wf (snd b) \<and> sb_size (snd b) \<le> M" if "b \<in> set bufs" for b using assms(4) that by blast
  qed (use assms(5) empty_input_strict in simp_all)
  with that show thesis by (elim exE conjE) simp
qed

text \<open>
  C7. Whatever pieces the packages of the peer arrive in, after each piece the entry has handled exactly
  the packages that are complete by then, in the order they were sent: messages reached the user's
  handler with their attached binaries, heartbeat requests were answered, and the loop returned each time.
\<close>

theorem packages_handled_when_complete:
  assumes "message_parser (ea_parse api) decode" and "0 < cap"
    and "\<forall>p \<in> set ps. wire_ok api decode mapi cfg p \<and> length (wire_image mapi p) \<le> L"
    and "\<forall>b \<in> set bufs. sb_wf (snd b) \<and> sb_size (snd b) \<le> M" and "L + M < 2 ^ 31"
    and "fed_bytes bufs @ tail = concat (map (wire_image mapi) ps)"
  shows "\<exists>k e. entry_feed api bufs (fresh_entry cfg sh cap now) = Some e \<and> k \<le> length ps \<and>
    en_out e = en_out (fresh_entry cfg sh cap now) @ concat (map wire_events (take k ps)) \<and>
    length (concat (map (wire_image mapi) (take k ps))) \<le> length (fed_bytes bufs) \<and>
    (k < length ps \<longrightarrow> length (fed_bytes bufs) < length (concat (map (wire_image mapi) (take (Suc k) ps))))"
proof -
  obtain k e rest where r: "entry_feed api bufs (fresh_entry cfg sh cap now) = Some e"
      "en_out e = en_out (fresh_entry cfg sh cap now) @ concat (map wire_events (take k ps))" "k \<le> length ps"
      "fed_bytes bufs = concat (map (wire_image mapi) (take k ps)) @ rest"
      "case drop k ps of [] \<Rightarrow> rest = [] | p # _ \<Rightarrow> length rest < length (wire_image mapi p)"
    by (rule fresh_feed [OF assms])
  have "length (fed_bytes bufs) < length (concat (map (wire_image mapi) (take (Suc k) ps)))" if "k < length ps"
    using r(4,5) that by (simp add: take_Suc_conv_app_nth Cons_nth_drop_Suc [symmetric])
  with r show ?thesis by auto
qed

section \<open>Two entries\<close>

text \<open>A sequence of calls of \<open>send\<close>, each with or without an attached binary, and the bytes they put on the wire.\<close>

fun send_all :: "'m message_api \<Rightarrow> (u16 \<times> 'm \<times> byte list option) list \<Rightarrow> 'e entry \<Rightarrow> 'e entry option" where
  "send_all mapi [] e = Some e"
| "send_all mapi ((mid, m, att) # ms) e = do {
     e \<leftarrow> (case att of None \<Rightarrow> entry_send mapi e mid m | Some a \<Rightarrow> entry_send_attached mapi e mid m a);
     send_all mapi ms e }"

fun event_bytes :: "'m entry_event \<Rightarrow> byte list" where
  "event_bytes (Ee_send op bufs) = concat bufs"
| "event_bytes _ = []"

definition sent_bytes :: "'m entry \<Rightarrow> byte list" where
  "sent_bytes e = concat (map event_bytes (en_out e))"

definition pkg_of :: "u16 \<times> 'm \<times> byte list option \<Rightarrow> 'm wire_pkg" where
  "pkg_of s = (case s of (mid, m, att) \<Rightarrow> Wp_message mid m (case att of None \<Rightarrow> [] | Some a \<Rightarrow> a))"

lemma image_bytes_eq:
  assumes "message_ok mapi m" "length (serialize mapi m) < 2 ^ 32"
  shows "image_bytes mapi mid m n = Some (pkg_header_bytes
    (pkg_header_make pkg_content_message mid (word_of_nat (length (serialize mapi m))) (word_of_nat n)) @ serialize mapi m)"
  using simple_drv.make_package_image_eq [of mapi m mid "word_of_nat n"] assms
  by (auto simp: image_bytes_def message_ok_def)

lemma send_all_bytes:
  assumes "en_connection_is_active e"
    and "\<forall>s \<in> set ms. message_ok mapi (fst (snd s)) \<and> length (serialize mapi (fst (snd s))) < 2 ^ 32"
  shows "\<exists>e'. send_all mapi ms e = Some e' \<and> en_connection_is_active e' \<and>
    sent_bytes e' = sent_bytes e @ concat (map (\<lambda>s. wire_image mapi (pkg_of s)) ms)"
  using assms
proof (induction ms arbitrary: e)
  case (Cons s ms)
  obtain mid m att where s: "s = (mid, m, att)" by (cases s)
  have ok: "message_ok mapi m" "length (serialize mapi m) < 2 ^ 32" using Cons.prems(2) by (simp_all add: s)
  have "\<exists>e'. (case att of None \<Rightarrow> entry_send mapi e mid m | Some a \<Rightarrow> entry_send_attached mapi e mid m a) = Some e' \<and>
      en_connection_is_active e' \<and> sent_bytes e' = sent_bytes e @ wire_image mapi (pkg_of s)"
    using Cons.prems(1)
    by (cases att) (simp_all add: entry_send_def entry_send_attached_def image_bytes_eq [OF ok]
        schedule_send_raw_bufs_def sent_bytes_def s pkg_of_def message_header_def)
  then obtain e' where "(case att of None \<Rightarrow> entry_send mapi e mid m | Some a \<Rightarrow> entry_send_attached mapi e mid m a) = Some e'"
      "en_connection_is_active e'" "sent_bytes e' = sent_bytes e @ wire_image mapi (pkg_of s)" by blast
  with Cons.IH [of e'] Cons.prems(2) show ?case by (auto simp: s)
qed simp

lemma fresh_entry_sent: "sent_bytes (fresh_entry cfg sh cap now) = []"
  by (simp add: sent_bytes_def init_underlying_connection_def entry_ctor_def update_last_input_at_def
      schedule_next_heartbeat_check_def Let_def)

text \<open>
  C6. What one entry sends is what the other receives: the messages given to \<open>send\<close>, with and without
  attached binaries, arrive at the peer's handler complete, in order and once, however the bytes of the
  sending entry are cut into pieces on the way.
\<close>

theorem messages_cross:
  assumes "message_parser (ea_parse api) decode" and "0 < cap"
    and "\<forall>s \<in> set ms. message_ok mapi (fst (snd s)) \<and> wire_ok api decode mapi cfg (pkg_of s) \<and>
      length (wire_image mapi (pkg_of s)) \<le> L"
    and "\<forall>b \<in> set bufs. sb_wf (snd b) \<and> sb_size (snd b) \<le> M" and "L + M < 2 ^ 31"
    and "send_all mapi ms (fresh_entry cfg' sh' cap' now' :: 'e entry) = Some sender" and "fed_bytes bufs = sent_bytes sender"
  shows "\<exists>receiver. entry_feed api bufs (fresh_entry cfg sh cap now) = Some receiver \<and>
    en_out receiver = en_out (fresh_entry cfg sh cap now) @ concat (map wire_events (map pkg_of ms))"
proof -
  let ?ps = "map pkg_of ms"
  have "length (serialize mapi (fst (snd s))) < 2 ^ 32" if "s \<in> set ms" for s
  proof -
    have "length (wire_image mapi (pkg_of s)) < 2 ^ 31" using assms(3,5) that by fastforce
    then show ?thesis by (cases s) (simp add: pkg_of_def split: option.splits)
  qed
  then obtain e' :: "'e entry" where "send_all mapi ms (fresh_entry cfg' sh' cap' now') = Some e'"
      "sent_bytes e' = concat (map (\<lambda>s. wire_image mapi (pkg_of s)) ms)"
    using send_all_bytes [of "fresh_entry cfg' sh' cap' now' :: 'e entry" ms mapi] assms(3) by (auto simp: fresh_entry_sent)
  with assms(6) have "sent_bytes sender = concat (map (wire_image mapi) ?ps)" by (simp add: comp_def)
  then have "fed_bytes bufs @ [] = concat (map (wire_image mapi) ?ps)" using assms(7) by simp
  then obtain k e rest where r: "entry_feed api bufs (fresh_entry cfg sh cap now) = Some e"
      "en_out e = en_out (fresh_entry cfg sh cap now) @ concat (map wire_events (take k ?ps))" "k \<le> length ?ps"
      "fed_bytes bufs = concat (map (wire_image mapi) (take k ?ps)) @ rest"
      "case drop k ?ps of [] \<Rightarrow> rest = [] | p # _ \<Rightarrow> length rest < length (wire_image mapi p)"
    using assms(3) by (elim fresh_feed [OF assms(1,2) _ assms(4,5), rotated]) auto
  have "take k ?ps = ?ps"
    using r(4,5) \<open>fed_bytes bufs @ [] = _\<close> by (intro nothing_left [of mapi ?ps k rest]) simp_all
  with r show ?thesis by auto
qed

text \<open>Messages that are their own bytes, with the id 7.\<close>

definition sample_api :: "byte list entry_api" where
  "sample_api = \<lparr>ea_incoming = (\<lambda>mid. mid = 7), ea_parse = chunk_parse (\<lambda>mid bs. Some bs),
     ea_on_message = (\<lambda>mid c. None)\<rparr>"

definition sample_mapi :: "byte list message_api" where
  "sample_mapi = \<lparr>byte_size_long = length, serialize = (\<lambda>m. m)\<rparr>"

lemma sample_parser: "message_parser (ea_parse sample_api) (\<lambda>mid bs. Some bs)"
  by (simp add: sample_api_def chunked.message_parser_axioms)

lemma sample_heartbeats:
  "pkg_header_bytes (pkg_header_make pkg_content_heartbeat_request 0 0 0) = [1, 3, 0, 0, 0, 0, 0, 0, 0, 0, 0, 0]"
  "pkg_header_bytes (pkg_header_make pkg_content_heartbeat_reply 0 0 0) = [2, 3, 0, 0, 0, 0, 0, 0, 0, 0, 0, 0]"
  by code_simp+

theorem packages_handled_when_complete_witness:
  "\<exists>e. entry_feed sample_api [(5, sb_of_bytes [1, 3, 0, 0, 0, 0, 0, 0, 0, 0, 0, 0, 2])]
      (fresh_entry default_entry_cfg Sh_handler 8 0) = Some e \<and>
    en_out e = en_out (fresh_entry default_entry_cfg Sh_handler 8 0) @ wire_events Wp_heartbeat_request"
proof -
  let ?ps = "[Wp_heartbeat_request, Wp_heartbeat_reply] :: byte list wire_pkg list"
  let ?bufs = "[(5 :: int, sb_of_bytes [1, 3, 0, 0, 0, 0, 0, 0, 0, 0, 0, 0, 2])]"
  let ?e = "fresh_entry default_entry_cfg Sh_handler 8 0 :: byte list entry"
  have "\<exists>k e. entry_feed sample_api ?bufs ?e = Some e \<and> k \<le> length ?ps \<and>
      en_out e = en_out ?e @ concat (map wire_events (take k ?ps)) \<and>
      length (concat (map (wire_image sample_mapi) (take k ?ps))) \<le> length (fed_bytes ?bufs) \<and>
      (k < length ?ps \<longrightarrow> length (fed_bytes ?bufs) < length (concat (map (wire_image sample_mapi) (take (Suc k) ?ps))))"
    by (rule packages_handled_when_complete [OF sample_parser, where L = 12 and M = 13
          and tail = "[3, 0, 0, 0, 0, 0, 0, 0, 0, 0, 0]"])
      (simp_all add: sample_heartbeats)
  then obtain k e where r: "entry_feed sample_api ?bufs ?e = Some e" "k \<le> length ?ps"
      "en_out e = en_out ?e @ concat (map wire_events (take k ?ps))"
      "length (concat (map (wire_image sample_mapi) (take k ?ps))) \<le> length (fed_bytes ?bufs)"
      "k < length ?ps \<longrightarrow> length (fed_bytes ?bufs) < length (concat (map (wire_image sample_mapi) (take (Suc k) ?ps)))"
    by blast
  have "k = 1"
  proof -
    from r(2) consider "k = 0" | "k = 1" | "k = 2" by fastforce
    then show ?thesis using r(4,5) by cases (simp_all add: sizeof_pkg_header_def)
  qed
  with r(1,3) show ?thesis by (intro exI [of _ e]) (simp only: simp_thms, simp)
qed

theorem messages_cross_witness:
  "\<exists>sender receiver. send_all sample_mapi [(7, [1, 2], Some [9]), (7, [3], None)]
      (fresh_entry default_entry_cfg Sh_handler 8 0 :: byte list entry) = Some sender \<and>
    entry_feed sample_api [(5, sb_of_bytes (take 13 (sent_bytes sender))), (6, sb_of_bytes (drop 13 (sent_bytes sender)))]
      (fresh_entry default_entry_cfg Sh_handler 8 0) = Some receiver \<and>
    en_out receiver = en_out (fresh_entry default_entry_cfg Sh_handler 8 0) @
      [Ee_message 7 \<lparr>mc_message = [1, 2], mc_attached_buffer = [9]\<rparr>, Ee_inc_incoming 7,
       Ee_message 7 \<lparr>mc_message = [3], mc_attached_buffer = []\<rparr>, Ee_inc_incoming 7]"
proof -
  let ?ms = "[(7, [1, 2], Some [9]), (7, [3], None)]"
  let ?e = "fresh_entry default_entry_cfg Sh_handler 8 0 :: byte list entry"
  obtain sender where sender: "send_all sample_mapi ?ms ?e = Some sender"
      "sent_bytes sender = concat (map (\<lambda>s. wire_image sample_mapi (pkg_of s)) ?ms)"
    using send_all_bytes [of ?e ?ms sample_mapi] by (auto simp: sample_mapi_def message_ok_def fresh_entry_sent)
  let ?bufs = "[(5, sb_of_bytes (take 13 (sent_bytes sender))), (6, sb_of_bytes (drop 13 (sent_bytes sender)))]"
  have len: "length (sent_bytes sender) = 28"
    unfolding sender(2) by (simp add: pkg_of_def sample_mapi_def sizeof_pkg_header_def)
  have "\<exists>receiver. entry_feed sample_api ?bufs ?e = Some receiver \<and>
      en_out receiver = en_out ?e @ concat (map wire_events (map pkg_of ?ms))"
  proof (rule messages_cross [OF sample_parser _ _ _ _ sender(1), of 8 default_entry_cfg 15 ?bufs 15])
    show "\<forall>s \<in> set ?ms. message_ok sample_mapi (fst (snd s)) \<and>
        wire_ok sample_api (\<lambda>mid. Some) sample_mapi default_entry_cfg (pkg_of s) \<and>
        length (wire_image sample_mapi (pkg_of s)) \<le> 15"
      by (simp add: pkg_of_def sample_api_def sample_mapi_def message_ok_def sizeof_pkg_header_def default_entry_cfg_def)
  qed (use len in simp_all)
  then obtain receiver where "entry_feed sample_api ?bufs ?e = Some receiver"
      "en_out receiver = en_out ?e @ concat (map wire_events (map pkg_of ?ms))" by blast
  moreover have "concat (map wire_events (map pkg_of ?ms)) =
      [Ee_message 7 \<lparr>mc_message = [1, 2 :: byte], mc_attached_buffer = [9]\<rparr>, Ee_inc_incoming 7,
       Ee_message 7 \<lparr>mc_message = [3], mc_attached_buffer = []\<rparr>, Ee_inc_incoming 7]"
    by (simp add: pkg_of_def)
  ultimately show ?thesis
    using sender(1) by (intro exI [of _ sender] exI [of _ receiver] conjI) (simp_all only:)
qed

section \<open>The end of an entry\<close>

fun is_shutdown_call :: "'m entry_event \<Rightarrow> bool" where
  "is_shutdown_call Ee_shutdown_handler \<longleftrightarrow> True"
| "is_shutdown_call (Ee_shutdown_handler2 ctx) \<longleftrightarrow> True"
| "is_shutdown_call _ \<longleftrightarrow> False"

definition shutdown_calls :: "'m entry \<Rightarrow> nat" where
  "shutdown_calls e = length (filter is_shutdown_call (en_out e))"

definition entry_inv :: "shutdown_handler_variant \<Rightarrow> 'm entry \<Rightarrow> bool" where
  "entry_inv sh e \<longleftrightarrow>
     (if en_connection_is_active e then en_shutdown_handler e = sh \<and> shutdown_calls e = 0
      else en_shutdown_handler e = Sh_was_called \<and> shutdown_calls e = (if sh = Sh_not_supplied then 0 else 1))"

lemma entry_inv_fields [simp]:
  "entry_inv sh (e\<lparr>en_pkg_input := s\<rparr>) = entry_inv sh e"
  "entry_inv sh (e\<lparr>en_last_input_at := t\<rparr>) = entry_inv sh e"
  "entry_inv sh (e\<lparr>en_heartbeat_sent_count := n\<rparr>) = entry_inv sh e"
  by (simp_all add: entry_inv_def shutdown_calls_def)

lemma entry_inv_emit [simp]: "filter is_shutdown_call evs = [] \<Longrightarrow> entry_inv sh (emit evs e) = entry_inv sh e"
  by (simp add: entry_inv_def shutdown_calls_def)

lemma entry_inv_input_emit [simp]:
  "filter is_shutdown_call evs = [] \<Longrightarrow>
   entry_inv sh (e\<lparr>en_pkg_input := s, en_out := en_out e @ evs\<rparr>) = entry_inv sh e"
  by (simp add: entry_inv_def shutdown_calls_def)

lemma shutdown_and_terminate_inv:
  assumes "entry_inv sh e" "sh \<noteq> Sh_was_called" "shutdown_and_terminate e ctx = Some e'"
  shows "entry_inv sh e'" and "\<not> en_connection_is_active e'"
  using assms
  by (auto simp: shutdown_and_terminate_def terminate_def entry_inv_def shutdown_calls_def Let_def
      split: if_splits shutdown_handler_variant.splits)

lemma shutdown_and_terminate_input_inv:
  "shutdown_and_terminate (e\<lparr>en_pkg_input := s\<rparr>) ctx = Some e' \<Longrightarrow> entry_inv sh e \<Longrightarrow> sh \<noteq> Sh_was_called \<Longrightarrow>
   entry_inv sh e'"
  using shutdown_and_terminate_inv(1) [of sh "e\<lparr>en_pkg_input := s\<rparr>"] by simp

lemma handle_shutdown_inv:
  assumes "entry_inv sh e" "sh \<noteq> Sh_was_called" "handle_shutdown e reason = Some e'"
  shows "entry_inv sh e'"
  using assms
  by (auto simp: handle_shutdown_def terminate_def entry_inv_def shutdown_calls_def Let_def
      split: if_splits shutdown_handler_variant.splits)

lemma handle_incoming_message_inv:
  assumes "handle_incoming_message api e h = Some (r, e')" "entry_inv sh e" "sh \<noteq> Sh_was_called"
  shows "entry_inv sh e'"
proof (cases "ea_incoming api (ph_content_specific_value h)")
  case False
  with assms show ?thesis
    by (auto simp: handle_incoming_message_def Let_def bind_eq_Some_conv dest: shutdown_and_terminate_inv(1))
next
  case True
  with assms obtain res k stream where p: "ea_parse api (ph_content_specific_value h) (en_pkg_input e)
      (unat (ph_content_size h)) = Some (res, k, stream)"
    by (auto simp: handle_incoming_message_def Let_def bind_eq_Some_conv)
  show ?thesis
  proof (cases "if k \<noteq> unat (ph_content_size h) then None else res")
    case None
    with True p assms show ?thesis
      by (auto simp: handle_incoming_message_def Let_def bind_eq_Some_conv dest: shutdown_and_terminate_input_inv)
  next
    case (Some m)
    with True p assms(1,2) show ?thesis
      by (auto simp: handle_incoming_message_def Let_def bind_eq_Some_conv entry_inv_def shutdown_calls_def
          split: option.splits if_splits)
  qed
qed

lemma handle_message_pkg_inv:
  assumes "handle_message_pkg api e h = Some (r, e')" "entry_inv sh e" "sh \<noteq> Sh_was_called"
  shows "entry_inv sh e'"
  using assms handle_incoming_message_inv [of api "e\<lparr>en_pkg_input := _\<rparr>" h r e' sh]
  by (auto simp: handle_message_pkg_def bind_eq_Some_conv dest: shutdown_and_terminate_inv(1) split: if_splits)

lemma heartbeat_pkg_inv:
  assumes "entry_inv sh e" "sh \<noteq> Sh_was_called"
  shows "handle_heartbeat_request_pkg e h = Some (r, e') \<Longrightarrow> entry_inv sh e'"
    and "handle_heartbeat_reply_pkg e h = Some (r, e') \<Longrightarrow> entry_inv sh e'"
    and "handle_unknown_pkg_content_type e = Some (r, e') \<Longrightarrow> entry_inv sh e'"
  using assms shutdown_and_terminate_inv(1) [OF assms]
  by (auto simp: handle_heartbeat_request_pkg_def handle_heartbeat_reply_pkg_def Let_def bind_eq_Some_conv
      handle_unknown_pkg_content_type_def split: if_splits)

lemma handle_single_package_inv:
  assumes "handle_single_package api e = Some (r, e')" "entry_inv sh e" "sh \<noteq> Sh_was_called"
  shows "entry_inv sh e'"
  using assms
  by (auto simp: handle_single_package_def bind_eq_Some_conv
      dest: handle_message_pkg_inv heartbeat_pkg_inv split: if_splits)

text \<open>What holds over every package holds over the loop.\<close>

lemma run_input_stream_loop_mono:
  assumes "run_input_stream_loop api e = Some y"
    and single: "\<And>api a r b. handle_single_package api a = Some (r, b) \<Longrightarrow> R a b"
    and trans: "\<And>a b c. R a b \<Longrightarrow> R b c \<Longrightarrow> R a c"
  shows "R e (snd y)"
  using assms(1)
proof (induction rule: run_input_stream_loop.raw_induct [rotated 1, consumes 1])
  case (1 loop api e y)
  from 1(2) obtain r e' where s: "handle_single_package api e = Some (r, e')"
      "(case r of Threw what \<Rightarrow> Some (Threw what, e')
        | Returned r \<Rightarrow> (if r = Fully_consumed then loop api e' else Some (Returned (), e'))) = Some y"
    by (auto simp: bind_eq_Some_conv)
  show ?case
    using s(2) single [OF s(1)] 1(1) [of api e' y] trans by (cases r) (auto split: if_splits)
qed

lemma run_input_stream_loop_inv:
  assumes "run_input_stream_loop api e = Some y" "entry_inv sh e" "sh \<noteq> Sh_was_called"
  shows "entry_inv sh (snd y)"
  using run_input_stream_loop_mono [OF assms(1), of "\<lambda>a b. entry_inv sh a \<longrightarrow> entry_inv sh b"]
    handle_single_package_inv assms(2,3) by blast

text \<open>What can happen to an entry, each on its strand.\<close>

inductive entry_step :: "'m entry_api \<Rightarrow> 'm entry \<Rightarrow> 'm entry \<Rightarrow> bool" for api where
  es_input: "handle_input api now e buf = Some e' \<Longrightarrow> entry_step api e e'"
| es_heartbeat_timer: "on_check_heartbeat now e = Some e' \<Longrightarrow> entry_step api e e'"
| es_close: "close_work e = Some e' \<Longrightarrow> entry_step api e e'"
| es_connection_shutdown: "handle_shutdown e reason = Some e' \<Longrightarrow> entry_step api e e'"
| es_send: "e' = schedule_send_raw_bufs e bufs \<Longrightarrow> entry_step api e e'"
| es_send_with_cb: "e' = schedule_send_raw_bufs_with_cb e cb bufs \<Longrightarrow> entry_step api e e'"

inductive_cases entry_stepE: "entry_step api e e'"

lemma handle_input_inv:
  assumes "handle_input api now e buf = Some e'" "entry_inv sh e" "sh \<noteq> Sh_was_called"
  shows "entry_inv sh e'"
proof -
  obtain s res e1 where s: "run_input_stream_loop api (e\<lparr>en_pkg_input := s\<rparr>) = Some (res, e1)"
      "(case res of Returned _ \<Rightarrow> Some (update_last_input_at now e1)
        | Threw what \<Rightarrow> shutdown_and_terminate e1 (shutdown_context_msg Esr_exception_handling_input what)) = Some e'"
    using assms(1) by (auto simp: handle_input_def bind_eq_Some_conv)
  have "entry_inv sh e1" using run_input_stream_loop_inv [OF s(1)] assms(2,3) by simp
  with s(2) assms(3) show ?thesis
    by (auto simp: update_last_input_at_def dest: shutdown_and_terminate_inv(1) split: outcome.splits)
qed

lemma on_check_heartbeat_inv:
  assumes "on_check_heartbeat now e = Some e'" "entry_inv sh e" "sh \<noteq> Sh_was_called"
  shows "entry_inv sh e'"
proof -
  have "entry_inv sh (send_heartbeat_request e)"
    using assms(2) by (simp add: send_heartbeat_request_def Let_def)
  then show ?thesis
    using assms by (auto simp: on_check_heartbeat_def schedule_next_heartbeat_check_def Let_def
        dest: shutdown_and_terminate_inv(1) split: if_splits)
qed

lemma entry_step_inv:
  assumes "entry_step api e e'" "entry_inv sh e" "sh \<noteq> Sh_was_called"
  shows "entry_inv sh e'"
  using assms
  by (elim entry_stepE)
    (auto simp: close_work_def schedule_send_raw_bufs_def schedule_send_raw_bufs_with_cb_def
      dest: handle_input_inv on_check_heartbeat_inv handle_shutdown_inv shutdown_and_terminate_inv(1))

lemma entry_steps_inv:
  assumes "(entry_step api)\<^sup>*\<^sup>* e e'" "entry_inv sh e" "sh \<noteq> Sh_was_called"
  shows "entry_inv sh e'"
  using assms by (induction rule: rtranclp_induct) (auto dest: entry_step_inv)

lemma fresh_entry_inv: "entry_inv sh (fresh_entry cfg sh cap now)"
  by (simp add: entry_inv_def shutdown_calls_def)
    (simp add: init_underlying_connection_def entry_ctor_def update_last_input_at_def
      schedule_next_heartbeat_check_def Let_def)

text \<open>
  C13. The user learns of the end of an entry exactly once: while the entry is active its shutdown handler
  was not called, and once it is not the handler was called one time, whatever ended it: the user, the
  connection, a silent peer, bad input or an exception, in any order and any mixture.
\<close>

theorem entry_shutdown_handler_once:
  assumes "(entry_step api)\<^sup>*\<^sup>* (fresh_entry cfg sh cap now) e" "sh = Sh_handler \<or> sh = Sh_handler2"
  shows "shutdown_calls e = (if en_connection_is_active e then 0 else 1)"
proof -
  have "entry_inv sh e" using entry_steps_inv [OF assms(1) fresh_entry_inv] assms(2) by auto
  then show ?thesis using assms(2) by (auto simp: entry_inv_def)
qed

theorem entry_shutdown_handler_once_witness:
  "\<exists>e1 e2. close_work (fresh_entry default_entry_cfg Sh_handler2 8 0 :: byte list entry) = Some e1 \<and>
    handle_shutdown e1 Eof = Some e2 \<and> shutdown_calls e2 = 1"
proof -
  let ?e = "fresh_entry default_entry_cfg Sh_handler2 8 0 :: byte list entry"
  obtain e1 where e1: "close_work ?e = Some e1" "\<not> en_connection_is_active e1"
    by (simp add: close_work_def shutdown_and_terminate_def terminate_def)
  have e2: "handle_shutdown e1 Eof = Some e1" using e1(2) by (simp add: handle_shutdown_def)
  have "(entry_step sample_api)\<^sup>*\<^sup>* ?e e1"
    using es_close [OF e1(1)] es_connection_shutdown [OF e2] by (meson r_into_rtranclp rtranclp_trans)
  from entry_shutdown_handler_once [OF this] e1 e2 show ?thesis by auto
qed

section \<open>Packages an entry refuses\<close>

text \<open>What the header alone is enough to refuse a package for.\<close>

definition header_verdict :: "entry_cfg \<Rightarrow> pkg_header \<Rightarrow> entry_shutdown_reason option" where
  "header_verdict cfg h =
     (if ph_pkg_content_type h = pkg_content_message then
        (if unat (ec_max_valid_package_size cfg) < unat (ph_content_size h) then Some Esr_invalid_input_package_size
         else None)
      else if ph_pkg_content_type h = pkg_content_heartbeat_request \<or>
              ph_pkg_content_type h = pkg_content_heartbeat_reply then
        (if 0 < unat (ph_content_size h) + unat (ph_attached_binary_size h) then Some Esr_invalid_heartbeat_package
         else None)
      else Some Esr_unknown_pkg_content_type)"

text \<open>
  C20. A package that is too big, of an unknown type, or a heartbeat with content ends the entry as soon as
  its header is there: the connection is shut down, the handler gets the reason, the heartbeat timer is
  cancelled, no message is delivered and the loop takes nothing more from the stream.
\<close>

theorem bad_header_ends_entry:
  assumes "input_ready e (pkg_header_bytes h @ rest)" "en_connection_is_active e"
    and "en_shutdown_handler e = Sh_handler2" "header_verdict (en_cfg e) h = Some reason"
  shows "run_input_stream_loop api e = Some (Returned (),
      e\<lparr>en_out := en_out e @ [Ee_connection_shutdown, Ee_shutdown_handler2 (shutdown_context_of reason), Ee_timer_cancel],
        en_shutdown_handler := Sh_was_called, en_connection_is_active := False\<rparr>)"
proof -
  let ?e = "e\<lparr>en_out := en_out e @ [Ee_connection_shutdown, Ee_shutdown_handler2 (shutdown_context_of reason), Ee_timer_cancel],
        en_shutdown_handler := Sh_was_called, en_connection_is_active := False\<rparr>"
  have down: "shutdown_and_terminate e (shutdown_context_of reason) = Some ?e"
    using assms(2,3) by (simp add: shutdown_and_terminate_def terminate_def)
  have nz: "(0 < unat a + unat b) = (a \<noteq> 0 \<or> b \<noteq> 0)" for a b :: u32
    by (simp add: unat_gt_0)
  have "handle_single_package api e = Some (Returned Invalid_package, ?e)"
    using view_header [OF assms(1)] assms(4) down
    by (auto simp: handle_single_package_def header_verdict_def handle_message_pkg_def pkg_has_valid_size_def
        handle_heartbeat_request_pkg_def handle_heartbeat_reply_pkg_def handle_unknown_pkg_content_type_def
        word_less_nat_alt nz simp del: unat_gt_0 split: if_splits)
  then show ?thesis by (subst run_input_stream_loop.simps) simp
qed

text \<open>An entry that has read the given bytes and not looked at them.\<close>

definition entry_with_input :: "shutdown_handler_variant \<Rightarrow> byte list \<Rightarrow> byte list entry" where
  "entry_with_input sh bs =
     (let e = fresh_entry default_entry_cfg sh 8 0
      in e\<lparr>en_pkg_input := the (pi_append (en_pkg_input e) (sb_of_bytes bs))\<rparr>)"

lemma entry_with_input_ready: "input_ready (entry_with_input sh bs) bs"
proof -
  let ?e = "fresh_entry default_entry_cfg sh 8 0 :: byte list entry"
  have r: "input_ready ?e []" by (rule fresh_entry_ready) simp
  then obtain q where "pi_append (en_pkg_input ?e) (sb_of_bytes bs) = Some q" "pi_wf q"
      "\<not> pi_first_buffer_served q" "pi_content q = bs"
    using pi_append_ok [of "en_pkg_input ?e" "sb_of_bytes bs"] by (auto simp: input_ready_def)
  then show ?thesis by (simp add: entry_with_input_def input_ready_def)
qed

lemma entry_with_input_simps [simp]:
  "en_connection_is_active (entry_with_input sh bs)" "en_cfg (entry_with_input sh bs) = default_entry_cfg"
  "en_shutdown_handler (entry_with_input sh bs) = sh"
  by (simp_all add: entry_with_input_def Let_def)

theorem bad_header_ends_entry_witness:
  "\<exists>e. run_input_stream_loop sample_api (entry_with_input Sh_handler2 (pkg_header_bytes (pkg_header_make 9 0 0 0))) =
      Some (Returned (), e) \<and> \<not> en_connection_is_active e \<and>
    Ee_shutdown_handler2 (shutdown_context_of Esr_unknown_pkg_content_type) \<in> set (en_out e)"
  using bad_header_ends_entry [of "entry_with_input Sh_handler2 (pkg_header_bytes (pkg_header_make 9 0 0 0))"
      "pkg_header_make 9 0 0 0" "[]" Esr_unknown_pkg_content_type sample_api]
    entry_with_input_ready [of Sh_handler2 "pkg_header_bytes (pkg_header_make 9 0 0 0)"]
  by (simp add: header_verdict_def pkg_content_message_def pkg_content_heartbeat_request_def
      pkg_content_heartbeat_reply_def)

section \<open>The heartbeat\<close>

text \<open>
  C19. A silent peer is noticed. Let no input come after \<open>seen\<close>: the first check that is due sends one
  heartbeat request and asks for another check; a second check, no earlier than asked for, ends the entry
  with the reason that the heartbeat was not answered. Before the time an answer may take has passed no
  check ends the entry.
\<close>

theorem silent_peer_detected:
  assumes "en_connection_is_active e" "en_heartbeat_sent_count e = 0" "en_shutdown_handler e = Sh_handler2"
    and "initiate = hb_initiate_heartbeat_timeout (ec_heartbeat (en_cfg e))"
    and "await = hb_await_heartbeat_reply_timeout (ec_heartbeat (en_cfg e))"
    and "0 < initiate" "initiate \<le> await" "seen = en_last_input_at e" "seen + initiate \<le> t1"
  shows "\<exists>e1 delay. on_check_heartbeat t1 e = Some e1 \<and> 0 < delay \<and> en_connection_is_active e1 \<and>
    en_out e1 = en_out e @
      [Ee_send Op_schedule_send [pkg_header_bytes (pkg_header_make pkg_content_heartbeat_request 0 0 0)],
       Ee_timer_expires_after delay] \<and>
    (\<forall>t2. t1 + delay \<le> t2 \<longrightarrow> (\<exists>e2. on_check_heartbeat t2 e1 = Some e2 \<and> \<not> en_connection_is_active e2 \<and>
       en_out e2 = en_out e1 @ [Ee_connection_shutdown,
         Ee_shutdown_handler2 (shutdown_context_of Esr_hearbeat_reply_timeout), Ee_timer_cancel])) \<and>
    (\<forall>t2. t2 < seen + await \<longrightarrow> (\<exists>e2. on_check_heartbeat t2 e1 = Some e2 \<and> en_connection_is_active e2))"
proof -
  define delay where "delay = (if t1 - seen < await then await - (t1 - seen) else initiate)"
  define e1 where "e1 = e\<lparr>en_heartbeat_sent_count := 1, en_out := en_out e @
      [Ee_send Op_schedule_send [pkg_header_bytes (pkg_header_make pkg_content_heartbeat_request 0 0 0)],
       Ee_timer_expires_after delay]\<rparr>"
  have step: "on_check_heartbeat t1 e = Some e1"
    using assms
    by (simp add: on_check_heartbeat_def get_initiate_heartbeat_timeout_def await_heartbeat_reply_timeout_def
        send_heartbeat_request_def schedule_next_heartbeat_check_def e1_def delay_def Let_def)
  have second: "\<exists>e2. on_check_heartbeat t2 e1 = Some e2 \<and> \<not> en_connection_is_active e2 \<and>
       en_out e2 = en_out e1 @ [Ee_connection_shutdown,
         Ee_shutdown_handler2 (shutdown_context_of Esr_hearbeat_reply_timeout), Ee_timer_cancel]"
    if "t1 + delay \<le> t2" for t2
  proof -
    have late: "await \<le> t2 - seen" "initiate \<le> t2 - seen"
      using that assms(6,7,9) by (auto simp: delay_def split: if_splits)
    obtain e2 where e2: "shutdown_and_terminate e1 (shutdown_context_of Esr_hearbeat_reply_timeout) = Some e2"
        "\<not> en_connection_is_active e2" "en_out e2 = en_out e1 @ [Ee_connection_shutdown,
         Ee_shutdown_handler2 (shutdown_context_of Esr_hearbeat_reply_timeout), Ee_timer_cancel]"
      using assms(1,3) by (simp add: shutdown_and_terminate_def terminate_def e1_def)
    have "on_check_heartbeat t2 e1 = shutdown_and_terminate e1 (shutdown_context_of Esr_hearbeat_reply_timeout)"
      using late assms(1,4,5,8)
      by (simp add: on_check_heartbeat_def get_initiate_heartbeat_timeout_def await_heartbeat_reply_timeout_def
          e1_def Let_def)
    then show ?thesis using e2 by simp
  qed
  have kept: "\<exists>e2. on_check_heartbeat t2 e1 = Some e2 \<and> en_connection_is_active e2" if "t2 < seen + await" for t2
    using that assms(1,4,5,8)
    by (simp add: on_check_heartbeat_def get_initiate_heartbeat_timeout_def await_heartbeat_reply_timeout_def
        send_heartbeat_request_def schedule_next_heartbeat_check_def e1_def Let_def)
  have "0 < delay" using assms(6) by (simp add: delay_def)
  then show ?thesis using step second kept assms(1) by (intro exI [of _ e1] exI [of _ delay]) (simp add: e1_def)
qed

theorem silent_peer_detected_witness:
  "\<exists>e1 delay. on_check_heartbeat 10000000000 (fresh_entry default_entry_cfg Sh_handler2 8 0 :: byte list entry) = Some e1 \<and>
    0 < delay \<and> en_connection_is_active e1 \<and>
    (\<exists>e2. on_check_heartbeat (10000000000 + delay) e1 = Some e2 \<and> \<not> en_connection_is_active e2)"
proof -
  let ?e = "fresh_entry default_entry_cfg Sh_handler2 8 0 :: byte list entry"
  have fields: "en_heartbeat_sent_count ?e = 0" "en_last_input_at ?e = 0"
    by (simp_all add: init_underlying_connection_def update_last_input_at_def schedule_next_heartbeat_check_def Let_def)
  have cfg: "hb_initiate_heartbeat_timeout (ec_heartbeat (en_cfg ?e)) = 10000000000"
      "hb_await_heartbeat_reply_timeout (ec_heartbeat (en_cfg ?e)) = 20000000000"
    by (simp_all add: default_entry_cfg_def default_heartbeat_params_def msec_def)
  show ?thesis
    using silent_peer_detected [of ?e 10000000000 20000000000 0 10000000000] fields cfg
    by simp (metis order_refl)
qed

end
