(* ===== verification/EntryLimits.thy ===== *)
theory EntryLimits
  imports EntryProps
begin

text \<open>
  Inputs and calls an entry does not stand: heartbeats that state a wrong size, for every entry, and
  calls of the user, each on a concrete run of the model.
\<close>

section \<open>Heartbeat headers of a hostile peer\<close>

text \<open>
  The size of the header that a heartbeat package states is the number of bytes skipped, and nothing
  checks it. A heartbeat of zero dwords is consumed without consuming a byte.
\<close>

lemma never_returns:
  assumes "P e" "\<And>e. P e \<Longrightarrow> \<exists>e'. handle_single_package api e = Some (Returned Fully_consumed, e') \<and> P e'"
  shows "run_input_stream_loop api e = None"
proof (rule ccontr)
  assume "run_input_stream_loop api e \<noteq> None"
  then obtain y where "run_input_stream_loop api e = Some y" by blast
  then have "(\<forall>e. P e \<longrightarrow> (\<exists>e'. handle_single_package api e = Some (Returned Fully_consumed, e') \<and> P e')) \<Longrightarrow>
      P e \<Longrightarrow> False"
  proof (induction rule: run_input_stream_loop.raw_induct [rotated 1, consumes 1])
    case (1 loop api e y)
    from 1(3,4) obtain e' where "handle_single_package api e = Some (Returned Fully_consumed, e')" "P e'" by blast
    with 1 show ?case by (cases y) auto
  qed
  with assms show False by blast
qed

definition heartbeat_header :: "pkg_header \<Rightarrow> bool" where
  "heartbeat_header h \<longleftrightarrow> ph_pkg_content_type h \<in> {pkg_content_heartbeat_request, pkg_content_heartbeat_reply} \<and>
     ph_content_size h = 0 \<and> ph_attached_binary_size h = 0"

text \<open>A heartbeat skips the header it states, and answers if it is a request.\<close>

lemma heartbeat_single:
  assumes "input_ready e (pkg_header_bytes h @ rest)" "heartbeat_header h"
  shows "\<exists>evs. handle_single_package api e =
    map_option (\<lambda>s. (Returned Fully_consumed, e\<lparr>en_pkg_input := s, en_out := en_out e @ evs\<rparr>))
      (skip_bytes (en_pkg_input e) (advertized_header_size h))"
proof -
  note v = view_header [OF assms(1)]
  consider "ph_pkg_content_type h = pkg_content_heartbeat_request" | "ph_pkg_content_type h = pkg_content_heartbeat_reply"
    using assms(2) by (auto simp: heartbeat_header_def)
  then show ?thesis
  proof cases
    case 1
    then show ?thesis
      using v assms(2)
      by (intro exI [of _ "if en_connection_is_active e
            then [Ee_send Op_schedule_send [pkg_header_bytes (pkg_header_make pkg_content_heartbeat_reply 0 0 0)]] else []"])
        (auto simp: handle_single_package_def handle_heartbeat_request_pkg_def pkg_content_message_def Let_def
          pkg_content_heartbeat_request_def heartbeat_header_def map_conv_bind_option comp_def split: bind_splits)
  next
    case 2
    then show ?thesis
      using v assms(2)
      by (intro exI [of _ "[]"])
        (auto simp: handle_single_package_def handle_heartbeat_reply_pkg_def pkg_content_message_def
          pkg_content_heartbeat_request_def pkg_content_heartbeat_reply_def heartbeat_header_def map_conv_bind_option
          comp_def split: bind_splits)
  qed
qed

text \<open>
  C40. The size of the header that a heartbeat states is believed. If it is at least one dword and no
  longer than the stream, that many bytes are skipped. If it is zero, the same package is handled for
  ever, so twelve bytes stop an entry; if it is longer than the stream, the missing bytes are not waited
  for and skipping them fails an assertion. In both cases the input loop gives no result.
\<close>

theorem heartbeat_header_is_believed:
  assumes "input_ready e (pkg_header_bytes h @ rest)" "heartbeat_header h"
  shows "if 0 < unat (ph_header_size_dwords h) \<and> 4 * unat (ph_header_size_dwords h) \<le> 12 + length rest
    then \<exists>e'. handle_single_package api e = Some (Returned Fully_consumed, e') \<and>
      input_ready e' (drop (4 * unat (ph_header_size_dwords h)) (pkg_header_bytes h @ rest))
    else run_input_stream_loop api e = None"
proof -
  define n where "n = 4 * unat (ph_header_size_dwords h)"
  have n: "advertized_header_size h = n" by (simp add: advertized_header_size_def n_def)
  have skip: "\<exists>q. skip_bytes (en_pkg_input e) n = Some q \<and> pi_wf q \<and> \<not> pi_first_buffer_served q \<and>
      pi_content q = drop n (pkg_header_bytes h @ rest)"
    if "input_ready e (pkg_header_bytes h @ rest)" "n \<le> 12 + length rest" for e :: "'a entry"
    using skip_bytes_ok [of "en_pkg_input e" n] that by (auto simp: input_ready_def sizeof_pkg_header_def)
  consider "0 < n" "n \<le> 12 + length rest" | "12 + length rest < n" | "n = 0" by linarith
  then show ?thesis
  proof cases
    case 1
    obtain evs where "handle_single_package api e =
        map_option (\<lambda>s. (Returned Fully_consumed, e\<lparr>en_pkg_input := s, en_out := en_out e @ evs\<rparr>)) (skip_bytes (en_pkg_input e) n)"
      using heartbeat_single [OF assms] n by auto
    with skip [OF assms(1) 1(2)] 1 show ?thesis by (auto simp: input_ready_def n_def)
  next
    case 2
    have "pi_total_size (en_pkg_input e) = 12 + length rest"
      using assms(1) pi_total [of "en_pkg_input e"] by (simp add: input_ready_def sizeof_pkg_header_def)
    with 2 have "skip_bytes (en_pkg_input e) n = None" by (subst skip_bytes.simps) simp
    with heartbeat_single [OF assms, of api] have "handle_single_package api e = None" by (auto simp: n)
    then have "run_input_stream_loop api e = None" by (subst run_input_stream_loop.simps) simp
    with 2 show ?thesis by (simp add: n_def)
  next
    case 3
    have "\<exists>e'. handle_single_package api e = Some (Returned Fully_consumed, e') \<and> input_ready e' (pkg_header_bytes h @ rest)"
      if ready: "input_ready e (pkg_header_bytes h @ rest)" for e :: "'a entry"
    proof -
      obtain evs where "handle_single_package api e =
          map_option (\<lambda>s. (Returned Fully_consumed, e\<lparr>en_pkg_input := s, en_out := en_out e @ evs\<rparr>)) (skip_bytes (en_pkg_input e) n)"
        using heartbeat_single [OF ready assms(2)] n by auto
      with skip [OF ready] 3 show ?thesis by (auto simp: input_ready_def)
    qed
    from never_returns [of "\<lambda>e. input_ready e (pkg_header_bytes h @ rest)", OF assms(1) this] 3 show ?thesis by (simp add: n_def)
  qed
qed

theorem heartbeat_header_is_believed_witness:
  "run_input_stream_loop sample_api (entry_with_input Sh_handler [2, 0, 0, 0, 0, 0, 0, 0, 0, 0, 0, 0]) = None \<and>
   run_input_stream_loop sample_api (entry_with_input Sh_handler [2, 255, 0, 0, 0, 0, 0, 0, 0, 0, 0, 0]) = None"
proof -
  have "run_input_stream_loop sample_api (entry_with_input Sh_handler [2, n, 0, 0, 0, 0, 0, 0, 0, 0, 0, 0]) = None"
    if "n = 0 \<or> n = 255" for n
  proof -
    define h :: pkg_header where "h = \<lparr>ph_pkg_content_type = 2, ph_header_size_dwords = n, ph_content_specific_value = 0,
      ph_content_size = 0, ph_attached_binary_size = 0\<rparr>"
    have bytes: "pkg_header_bytes h @ [] = [2, n, 0, 0, 0, 0, 0, 0, 0, 0, 0, 0]"
      by (simp add: h_def pkg_header_bytes_def replicate_2_4)
    have "heartbeat_header h" by (simp add: heartbeat_header_def h_def pkg_content_heartbeat_reply_def)
    with heartbeat_header_is_believed [of "entry_with_input Sh_handler (pkg_header_bytes h @ [])" h "[]" sample_api]
      that show ?thesis
      unfolding bytes by (auto simp: entry_with_input_ready h_def)
  qed
  then show ?thesis by simp
qed

section \<open>Sending a vector of binaries\<close>

text \<open>
  \<open>send_vec\<close> announces the bytes of all attached binaries and sends as many bytes as there are
  binaries, taken from the memory of the buffer objects. Here one binary of three bytes: the header says
  three, one byte follows, and the peer takes the next two from the package after it.
\<close>

lemma send_vec_breaks_framing:
  "\<exists>e. entry_send_vec mem sample_mapi (fresh_entry default_entry_cfg Sh_handler 8 0 :: byte list entry) 7 [] [[1, 2, 3]] = Some e \<and>
     sent_bytes e = pkg_header_bytes (pkg_header_make pkg_content_message 7 0 3) @ take 1 (mem [[1, 2, 3]])"
proof -
  have ok: "message_ok sample_mapi []" "length (serialize sample_mapi []) < 2 ^ 32"
    by (simp_all add: message_ok_def sample_mapi_def)
  have image: "image_bytes sample_mapi 7 [] (Suc (Suc (Suc 0))) =
      Some (pkg_header_bytes (pkg_header_make pkg_content_message 7 0 3))"
    using image_bytes_eq [OF ok, of 7 "Suc (Suc (Suc 0))"] by (simp add: sample_mapi_def)
  show ?thesis
    using fresh_entry_sent
    by (simp add: entry_send_vec_def schedule_send_raw_bufs_def schedule_send_vec_raw_bufs_def datasizeable_vector_def
        sent_bytes_def Let_def image)
qed

section \<open>Messages after the end\<close>

text \<open>
  Input that is handled after the entry was closed is still parsed and its messages delivered,
  although \<open>terminate\<close> is said to guarantee that no more messages will be received.
\<close>

lemma messages_after_close:
  "\<exists>e1 e2. close_work (fresh_entry default_entry_cfg Sh_handler 8 0 :: byte list entry) = Some e1 \<and>
     \<not> en_connection_is_active e1 \<and>
     handle_input sample_api 1 e1 (sb_of_bytes [0, 3, 7, 0, 0, 0, 0, 0, 0, 0, 0, 0]) = Some e2 \<and>
     Ee_message 7 \<lparr>mc_message = [], mc_attached_buffer = []\<rparr> \<in> set (en_out e2)"
proof -
  let ?e = "fresh_entry default_entry_cfg Sh_handler 8 0 :: byte list entry"
  obtain e1 where e1: "close_work ?e = Some e1" "\<not> en_connection_is_active e1" "en_cfg e1 = default_entry_cfg"
      "en_pkg_input e1 = en_pkg_input ?e"
    by (simp add: close_work_def shutdown_and_terminate_def terminate_def)
  let ?p = "Wp_message 7 [] [] :: byte list wire_pkg"
  let ?bs = "[0, 3, 7, 0, 0, 0, 0, 0, 0, 0, 0, 0] :: byte list"
  have image: "wire_image sample_mapi ?p = ?bs"
    by code_simp
  have "input_ready e1 []" using fresh_entry_ready [where cap = 8 and cfg = default_entry_cfg and sh = Sh_handler and now = 0] e1(4) by (simp add: input_ready_def)
  then obtain q where q: "pi_append (en_pkg_input e1) (sb_of_bytes ?bs) = Some q" "input_ready (e1\<lparr>en_pkg_input := q\<rparr>) ?bs"
    using pi_append_ok [of "en_pkg_input e1" "sb_of_bytes ?bs"] by (auto simp: input_ready_def)
  have "\<exists>s. handle_single_package sample_api (e1\<lparr>en_pkg_input := q\<rparr>) = Some (Returned Fully_consumed,
      e1\<lparr>en_pkg_input := s, en_out := en_out e1 @ wire_events ?p\<rparr>) \<and> input_ready (e1\<lparr>en_pkg_input := s\<rparr>) []"
  proof -
    have "wire_ok sample_api (\<lambda>mid. Some) sample_mapi (en_cfg (e1\<lparr>en_pkg_input := q\<rparr>)) ?p"
      by (simp add: sample_api_def sample_mapi_def)
    moreover have "length (wire_image sample_mapi ?p @ []) < 2 ^ 31" unfolding image by simp
    ultimately show ?thesis
      using message_parser.single_package_consumed [OF sample_parser, where api = sample_api
          and e = "e1\<lparr>en_pkg_input := q\<rparr>" and mapi = sample_mapi and p = ?p and rest = "[]"] q(2)
      unfolding image by simp
  qed
  then obtain s where s: "handle_single_package sample_api (e1\<lparr>en_pkg_input := q\<rparr>) = Some (Returned Fully_consumed,
      e1\<lparr>en_pkg_input := s, en_out := en_out e1 @ wire_events ?p\<rparr>)" "pi_total_size s = 0"
    using pi_total by (auto simp: input_ready_def)
  let ?e2 = "e1\<lparr>en_pkg_input := s, en_out := en_out e1 @ wire_events ?p\<rparr>"
  have "run_input_stream_loop sample_api ?e2 = Some (Returned (), ?e2)"
    using s(2) by (subst run_input_stream_loop.simps) (simp add: handle_single_package_def sizeof_pkg_header_def)
  then have "run_input_stream_loop sample_api (e1\<lparr>en_pkg_input := q\<rparr>) = Some (Returned (), ?e2)"
    using s(1) by (subst run_input_stream_loop.simps) simp
  then have "handle_input sample_api 1 e1 (sb_of_bytes ?bs) = Some (update_last_input_at 1 ?e2)"
    using q(1) by (simp add: handle_input_def)
  then show ?thesis using e1(1,2) by (intro exI [of _ e1] exI [of _ "update_last_input_at 1 ?e2"]) (simp add: update_last_input_at_def)
qed

section \<open>Configuration\<close>

text \<open>
  \<open>make_short_cfg\<close> adds the two timeouts in 32 bits: with a large await timeout the time to wait for
  an answer comes out shorter than the time after which the request is sent. Without wrap-around it is
  their sum.
\<close>

lemma short_cfg_timeouts:
  "(unat (fc_initiate_heartbeat_timeout_msec cfg) + unat (fc_await_heartbeat_reply_timeout_msec cfg) < 2 ^ 32 \<longrightarrow>
      hb_await_heartbeat_reply_timeout (ec_heartbeat (make_short_cfg cfg)) =
        msec (fc_initiate_heartbeat_timeout_msec cfg) + msec (fc_await_heartbeat_reply_timeout_msec cfg)) \<and>
   (2 ^ 32 \<le> unat (fc_initiate_heartbeat_timeout_msec cfg) + unat (fc_await_heartbeat_reply_timeout_msec cfg) \<longrightarrow>
      hb_await_heartbeat_reply_timeout (ec_heartbeat (make_short_cfg cfg)) <
      hb_initiate_heartbeat_timeout (ec_heartbeat (make_short_cfg cfg)))"
proof -
  let ?a = "unat (fc_initiate_heartbeat_timeout_msec cfg)" and ?b = "unat (fc_await_heartbeat_reply_timeout_msec cfg)"
  have sum: "unat (fc_initiate_heartbeat_timeout_msec cfg + fc_await_heartbeat_reply_timeout_msec cfg) = (?a + ?b) mod 2 ^ 32"
    by (simp add: unat_word_ariths)
  have bounds: "?a < 2 ^ 32" "?b < 2 ^ 32" using unat_less_u32 by simp_all
  have "(?a + ?b) mod 2 ^ 32 < ?a" if "2 ^ 32 \<le> ?a + ?b"
  proof -
    have "(?a + ?b) mod 2 ^ 32 = ?a + ?b - 2 ^ 32" using that bounds by (simp add: mod_if)
    then show ?thesis using that bounds by simp
  qed
  then show ?thesis
    using sum by (simp add: make_short_cfg_def msec_def uint_nat del: of_nat_unat)
qed

definition sample_full_cfg :: "u32 \<Rightarrow> u32 \<Rightarrow> entry_full_cfg" where
  "sample_full_cfg initiate await =
     \<lparr>fc_endpoint = default_tcp_endpoint_cfg, fc_reconnect_timeout_msec = 10000,
      fc_initiate_heartbeat_timeout_msec = initiate, fc_await_heartbeat_reply_timeout_msec = await,
      fc_max_valid_package_size = 1000, fc_input_buffer_size = 1000, fc_write_timeout_per_1mb_msec = 1000\<rparr>"

lemma short_cfg_timeouts_witness:
  "hb_await_heartbeat_reply_timeout (ec_heartbeat (make_short_cfg (sample_full_cfg 10000 20000))) = 30000000000 \<and>
   hb_await_heartbeat_reply_timeout (ec_heartbeat (make_short_cfg (sample_full_cfg 10000 4294967295))) <
   hb_initiate_heartbeat_timeout (ec_heartbeat (make_short_cfg (sample_full_cfg 10000 4294967295)))"
  using short_cfg_timeouts [of "sample_full_cfg 10000 20000"] short_cfg_timeouts [of "sample_full_cfg 10000 4294967295"]
  by (simp add: sample_full_cfg_def msec_def)

end
