(* ===== verification/ReadBufferSizing.thy ===== *)
theory ReadBufferSizing
  imports Entry
begin

text \<open>
  \<open>entry_base_t::raw_bytes_handler_t\<close> of \<open>proto_entry/include/opio/proto_entry/entry_base.hpp\<close>, the input
  handler of the underlying connection: it passes a buffer on to the entry's strand and chooses the size
  of the next read buffer from how much of the last one was used.
\<close>

section \<open>The handler\<close>

definition size_buf_32mb :: nat where
  "size_buf_32mb = 32 * 1024 * 1024"

text \<open>The while loop with its assertion; it does not end when it starts from zero.\<close>

partial_function (option) double_until :: "nat \<Rightarrow> nat \<Rightarrow> nat option" where
  "double_until latest input_buffer_size =
     (if latest < input_buffer_size
      then do {
        check (latest * 2 \<le> size_buf_32mb);
        double_until (latest * 2) input_buffer_size }
      else Some latest)"

text \<open>
  The new value of \<open>latest_explicitly_allocated_read_buf_size\<close>; not zero, it is also the size of the
  buffer given to \<open>next_read_buffer\<close>.
\<close>

definition next_read_buf_size :: "nat \<Rightarrow> nat \<Rightarrow> nat \<Rightarrow> nat option" where
  "next_read_buf_size latest confugured_buf_size input_buffer_size =
     (let read_buf_was_fully_utilized =
            (if latest \<noteq> 0 then latest = input_buffer_size else confugured_buf_size = input_buffer_size)
      in if read_buf_was_fully_utilized then Some (min (input_buffer_size * 2) size_buf_32mb)
         else if confugured_buf_size \<le> input_buffer_size then double_until (confugured_buf_size * 2) input_buffer_size
         else Some 0)"


section \<open>Facts\<close>



section \<open>Properties\<close>








text \<open>
  With a configured size that is not a power of two the search for the next size overshoots the
  maximum: a read of 25 MB into a buffer of 32 MB, with 3 MB configured, fails the assertion.
\<close>

lemma read_buffer_overshoots:
  "next_read_buf_size (32 * 1024 * 1024) (3 * 1024 * 1024) (25 * 1024 * 1024) = None"
  by (simp add: next_read_buf_size_def double_until.simps size_buf_32mb_def)

end
