(* ===== verification/BackPressure.thy ===== *)
theory BackPressure
  imports Entry
begin

text \<open>
  \<open>bp_entry_t\<close> of \<open>proto_entry/include/opio/proto_entry/ext/back_pressure.hpp\<close>: per stream at most one
  buffer on its way to the socket, and of the buffers offered meanwhile only the latest is kept.
\<close>

section \<open>State\<close>

record 'b stream_context =
  sc_in_flight :: int
  sc_dropped_bufs :: int
  sc_memorized_buf :: "'b option"

definition empty_stream_context :: "'b stream_context" where
  "empty_stream_context = \<lparr>sc_in_flight = 0, sc_dropped_bufs = 0, sc_memorized_buf = None\<rparr>"

datatype bp_log_level = Bp_warn | Bp_trace

text \<open>
  \<open>bp_active\<close> is \<open>m_connection_is_active\<close> of the entry underneath. \<open>bp_sends\<close> are the calls of
  \<open>schedule_send_raw_bufs_with_cb\<close> that reached the connection, \<open>bp_unfinished\<close> their callbacks that were
  not called yet, \<open>bp_posted\<close> the functions on the strand that run \<open>send_finished\<close>; \<open>bp_offered\<close> is the
  history of the calls of \<open>bp_send_raw_buf\<close>.
\<close>

record ('t, 'b) bp =
  bp_active :: bool
  bp_streams :: "'t \<Rightarrow> 'b stream_context option"
  bp_sends :: "('t \<times> 'b) list"
  bp_unfinished :: "'t list"
  bp_posted :: "'t list"
  bp_offered :: "('t \<times> 'b) list"
  bp_log :: "bp_log_level list"

definition bp_new :: "('t, 'b) bp" where
  "bp_new = \<lparr>bp_active = True, bp_streams = (\<lambda>_. None), bp_sends = [], bp_unfinished = [], bp_posted = [],
     bp_offered = [], bp_log = []\<rparr>"

text \<open>\<open>m_streams[ tag ]\<close> makes an empty context for a new tag.\<close>

definition stream_at :: "('t, 'b) bp \<Rightarrow> 't \<Rightarrow> 'b stream_context" where
  "stream_at s tag = (case bp_streams s tag of None \<Rightarrow> empty_stream_context | Some ctx \<Rightarrow> ctx)"

definition put_stream :: "('t, 'b) bp \<Rightarrow> 't \<Rightarrow> 'b stream_context \<Rightarrow> ('t, 'b) bp" where
  "put_stream s tag ctx = s\<lparr>bp_streams := (bp_streams s)(tag \<mapsto> ctx)\<rparr>"

section \<open>Operations\<close>

definition bp_send_buffer :: "('t, 'b) bp \<Rightarrow> 't \<Rightarrow> 'b \<Rightarrow> ('t, 'b) bp" where
  "bp_send_buffer s tag buf =
     (if bp_active s
      then s\<lparr>bp_sends := bp_sends s @ [(tag, buf)], bp_unfinished := bp_unfinished s @ [tag]\<rparr>
      else s)"

definition period_of_way_too_much_drops :: int where
  "period_of_way_too_much_drops = 128"

definition memorization_level :: "int \<Rightarrow> bp_log_level" where
  "memorization_level dropped_bufs =
     (if dropped_bufs = 1 \<or> dropped_bufs = 10 \<or>
         (dropped_bufs \<noteq> 0 \<and> dropped_bufs mod period_of_way_too_much_drops = 0)
      then Bp_warn else Bp_trace)"

text \<open>The function \<open>bp_send_raw_buf\<close> dispatches on the strand.\<close>

definition bp_send_raw_buf :: "('t, 'b) bp \<Rightarrow> 't \<Rightarrow> 'b \<Rightarrow> ('t, 'b) bp" where
  "bp_send_raw_buf s tag buf =
     (let s = s\<lparr>bp_offered := bp_offered s @ [(tag, buf)]\<rparr>;
          ctx = stream_at s tag
      in if sc_in_flight ctx < 1
         then bp_send_buffer (put_stream s tag (ctx\<lparr>sc_in_flight := sc_in_flight ctx + 1\<rparr>)) tag buf
         else
           let ctx = (if sc_memorized_buf ctx \<noteq> None then ctx\<lparr>sc_dropped_bufs := sc_dropped_bufs ctx + 1\<rparr> else ctx);
               s = s\<lparr>bp_log := bp_log s @ [memorization_level (sc_dropped_bufs ctx)]\<rparr>
           in put_stream s tag (ctx\<lparr>sc_memorized_buf := Some buf\<rparr>))"

definition send_finished :: "('t, 'b) bp \<Rightarrow> 't \<Rightarrow> ('t, 'b) bp" where
  "send_finished s tag =
     (let ctx = stream_at s tag
      in case sc_memorized_buf ctx of
           Some buf \<Rightarrow> put_stream (bp_send_buffer s tag buf) tag
             (ctx\<lparr>sc_memorized_buf := None, sc_dropped_bufs := 0\<rparr>)
         | None \<Rightarrow> put_stream s tag (ctx\<lparr>sc_in_flight := sc_in_flight ctx - 1\<rparr>))"

text \<open>The connection calls the completion callback of a send.\<close>

definition bp_send_complete_cb :: "('t, 'b) bp \<Rightarrow> 't \<Rightarrow> send_buffers_result \<Rightarrow> ('t, 'b) bp" where
  "bp_send_complete_cb s tag res =
     (let s = s\<lparr>bp_unfinished := remove1 tag (bp_unfinished s)\<rparr>
      in if res \<noteq> Send_success then s else s\<lparr>bp_posted := bp_posted s @ [tag]\<rparr>)"

section \<open>Runs\<close>

inductive bp_step :: "('t, 'b) bp \<Rightarrow> ('t, 'b) bp \<Rightarrow> bool" where
  bp_offer: "s' = bp_send_raw_buf s tag buf \<Longrightarrow> bp_step s s'"
| bp_completed: "tag \<in> set (bp_unfinished s) \<Longrightarrow> s' = bp_send_complete_cb s tag res \<Longrightarrow> bp_step s s'"
| bp_run_posted: "bp_posted s = tag # rest \<Longrightarrow> s' = send_finished (s\<lparr>bp_posted := rest\<rparr>) tag \<Longrightarrow> bp_step s s'"
| bp_entry_ends: "s' = s\<lparr>bp_active := False\<rparr> \<Longrightarrow> bp_step s s'"

inductive_cases bp_stepE: "bp_step s s'"

definition of_stream :: "'t \<Rightarrow> ('t \<times> 'b) list \<Rightarrow> 'b list" where
  "of_stream tag xs = map snd (filter (\<lambda>x. fst x = tag) xs)"

lemma of_stream_snoc [simp]:
  "of_stream tag (xs @ [(t, b)]) = of_stream tag xs @ (if t = tag then [b] else [])"
  by (simp add: of_stream_def)

section \<open>Invariant\<close>

definition bp_pending :: "('t, 'b) bp \<Rightarrow> 't \<Rightarrow> 'b list" where
  "bp_pending s tag =
     of_stream tag (bp_sends s) @ (case sc_memorized_buf (stream_at s tag) of None \<Rightarrow> [] | Some b \<Rightarrow> [b])"

definition bp_slot_ok :: "('t, 'b) bp \<Rightarrow> 't \<Rightarrow> bool" where
  "bp_slot_ok s tag \<longleftrightarrow>
     int (count_list (bp_unfinished s) tag + count_list (bp_posted s) tag) \<le> sc_in_flight (stream_at s tag) \<and>
     sc_in_flight (stream_at s tag) \<le> 1 \<and>
     (sc_in_flight (stream_at s tag) = 0 \<longrightarrow> sc_memorized_buf (stream_at s tag) = None)"

definition bp_latest_ok :: "('t, 'b) bp \<Rightarrow> 't \<Rightarrow> bool" where
  "bp_latest_ok s tag \<longleftrightarrow>
     (let offered = of_stream tag (bp_offered s)
      in subseq (bp_pending s tag) offered \<and>
         (offered \<noteq> [] \<longrightarrow> bp_pending s tag \<noteq> [] \<and> last (bp_pending s tag) = last offered))"

definition bp_inv :: "('t, 'b) bp \<Rightarrow> bool" where
  "bp_inv s \<longleftrightarrow> (\<forall>tag. bp_slot_ok s tag \<and> (bp_active s \<longrightarrow> bp_latest_ok s tag))"

lemma bp_simps [simp]:
  "stream_at (put_stream s t ctx) tag = (if t = tag then ctx else stream_at s tag)"
  "bp_sends (put_stream s t ctx) = bp_sends s" "bp_unfinished (put_stream s t ctx) = bp_unfinished s"
  "bp_posted (put_stream s t ctx) = bp_posted s" "bp_offered (put_stream s t ctx) = bp_offered s"
  "bp_active (put_stream s t ctx) = bp_active s"
  "stream_at (s\<lparr>bp_offered := xs\<rparr>) = stream_at s" "stream_at (s\<lparr>bp_log := ls\<rparr>) = stream_at s"
  "stream_at (s\<lparr>bp_posted := ts\<rparr>) = stream_at s" "stream_at (s\<lparr>bp_unfinished := us\<rparr>) = stream_at s"
  "stream_at (s\<lparr>bp_sends := zs\<rparr>) = stream_at s" "stream_at (s\<lparr>bp_active := a\<rparr>) = stream_at s"
  by (auto simp: stream_at_def put_stream_def fun_eq_iff)

lemma stream_at_send_buffer [simp]: "stream_at (bp_send_buffer s t b) = stream_at s"
  by (simp add: bp_send_buffer_def)

lemma subseq_snoc_snoc: "subseq xs ys \<Longrightarrow> subseq (xs @ [b]) (ys @ [b])"
  by (simp add: list_emb_append_mono)

lemma count_list_remove1 [simp]:
  "count_list (remove1 x xs) y = (if x = y then count_list xs y - 1 else count_list xs y)"
  by (induction xs) auto

lemma subseq_left: "subseq (xs @ ys) zs \<Longrightarrow> subseq xs zs"
proof -
  have "subseq (xs @ []) (xs @ ys)" by (intro list_emb_append_mono) simp_all
  then show "subseq (xs @ ys) zs \<Longrightarrow> subseq xs zs" using subseq_order.order_trans by simp
qed

lemma bp_send_raw_buf_inv:
  assumes "bp_inv s"
  shows "bp_inv (bp_send_raw_buf s t b)"
proof -
  define ctx where "ctx = stream_at s t"
  have slots: "bp_slot_ok s tag" and latests: "bp_active s \<Longrightarrow> bp_latest_ok s tag" for tag
    using assms by (simp_all add: bp_inv_def)
  have slot: "bp_slot_ok s t" and latest: "bp_active s \<Longrightarrow> bp_latest_ok s t"
    using assms by (simp_all add: bp_inv_def)
  have cnt: "0 \<le> sc_in_flight ctx" using slot by (simp add: bp_slot_ok_def ctx_def)
  show ?thesis
  proof (cases "sc_in_flight ctx < 1")
    case True
    then have zero: "sc_in_flight ctx = 0" "sc_memorized_buf ctx = None"
      "count_list (bp_unfinished s) t = 0" "count_list (bp_posted s) t = 0"
      using slot cnt by (auto simp: bp_slot_ok_def ctx_def)
    have eq: "bp_send_raw_buf s t b = bp_send_buffer (put_stream (s\<lparr>bp_offered := bp_offered s @ [(t, b)]\<rparr>) t
        (ctx\<lparr>sc_in_flight := 1\<rparr>)) t b"
      using True zero(1) by (simp add: bp_send_raw_buf_def ctx_def Let_def)
    have "bp_slot_ok (bp_send_raw_buf s t b) tag" for tag
      using slots [of tag] zero unfolding eq by (auto simp: bp_slot_ok_def bp_send_buffer_def)
    moreover have "bp_latest_ok (bp_send_raw_buf s t b) tag" if "bp_active s" for tag
      using latests [OF that, of tag] that zero unfolding eq
      by (auto simp: bp_latest_ok_def bp_pending_def bp_send_buffer_def Let_def ctx_def intro: subseq_snoc_snoc)
    moreover have "bp_active (bp_send_raw_buf s t b) = bp_active s" unfolding eq by (simp add: bp_send_buffer_def)
    ultimately show ?thesis by (simp add: bp_inv_def)
  next
    case False
    define ctx' where "ctx' = (if sc_memorized_buf ctx \<noteq> None then ctx\<lparr>sc_dropped_bufs := sc_dropped_bufs ctx + 1\<rparr> else ctx)"
    have ctx': "sc_in_flight ctx' = sc_in_flight ctx" by (simp add: ctx'_def)
    have eq: "bp_send_raw_buf s t b = put_stream (s\<lparr>bp_offered := bp_offered s @ [(t, b)],
        bp_log := bp_log s @ [memorization_level (sc_dropped_bufs ctx')]\<rparr>) t (ctx'\<lparr>sc_memorized_buf := Some b\<rparr>)"
      using False by (simp add: bp_send_raw_buf_def ctx_def ctx'_def Let_def)
    have "bp_slot_ok (bp_send_raw_buf s t b) tag" for tag
      using slots [of tag] False unfolding eq by (auto simp: bp_slot_ok_def ctx' ctx_def)
    moreover have "bp_latest_ok (bp_send_raw_buf s t b) tag" if "bp_active s" for tag
    proof (cases "tag = t")
      case True
      have "subseq (of_stream t (bp_sends s)) (of_stream t (bp_offered s))"
        using latest [OF that] subseq_left by (auto simp: bp_latest_ok_def bp_pending_def Let_def)
      then show ?thesis
        using True unfolding eq by (simp add: bp_latest_ok_def bp_pending_def Let_def subseq_snoc_snoc)
    next
      case False
      then show ?thesis using latests [OF that, of tag] unfolding eq by (simp add: bp_latest_ok_def bp_pending_def Let_def)
    qed
    moreover have "bp_active (bp_send_raw_buf s t b) = bp_active s" unfolding eq by simp
    ultimately show ?thesis by (simp add: bp_inv_def)
  qed
qed

lemma send_finished_inv:
  assumes "bp_inv s" "bp_posted s = t # rest"
  shows "bp_inv (send_finished (s\<lparr>bp_posted := rest\<rparr>) t)"
proof -
  define ctx where "ctx = stream_at s t"
  have slots: "bp_slot_ok s tag" and latests: "bp_active s \<Longrightarrow> bp_latest_ok s tag" for tag
    using assms by (simp_all add: bp_inv_def)
  have slot: "bp_slot_ok s t" by (rule slots)
  then have one: "sc_in_flight ctx = 1" "count_list (bp_unfinished s) t = 0" "count_list rest t = 0"
    using assms(2) by (auto simp: bp_slot_ok_def ctx_def)
  show ?thesis
  proof (cases "sc_memorized_buf ctx")
    case None
    then have eq: "send_finished (s\<lparr>bp_posted := rest\<rparr>) t = put_stream (s\<lparr>bp_posted := rest\<rparr>) t (ctx\<lparr>sc_in_flight := 0\<rparr>)"
      using one by (simp add: send_finished_def ctx_def Let_def)
    have "bp_slot_ok (send_finished (s\<lparr>bp_posted := rest\<rparr>) t) tag" for tag
      using slots [of tag] assms(2) one None unfolding eq by (cases "tag = t") (auto simp: bp_slot_ok_def)
    moreover have "bp_latest_ok (send_finished (s\<lparr>bp_posted := rest\<rparr>) t) tag" if "bp_active s" for tag
      using latests [OF that, of tag] None unfolding eq
      by (auto simp: bp_latest_ok_def bp_pending_def Let_def ctx_def)
    moreover have "bp_active (send_finished (s\<lparr>bp_posted := rest\<rparr>) t) = bp_active s" unfolding eq by simp
    ultimately show ?thesis by (simp add: bp_inv_def)
  next
    case (Some b)
    then have eq: "send_finished (s\<lparr>bp_posted := rest\<rparr>) t = put_stream (bp_send_buffer (s\<lparr>bp_posted := rest\<rparr>) t b) t
        (ctx\<lparr>sc_memorized_buf := None, sc_dropped_bufs := 0\<rparr>)"
      by (simp add: send_finished_def ctx_def Let_def)
    have "bp_slot_ok (send_finished (s\<lparr>bp_posted := rest\<rparr>) t) tag" for tag
      using slots [of tag] assms(2) one unfolding eq by (cases "tag = t") (auto simp: bp_slot_ok_def bp_send_buffer_def)
    moreover have "bp_latest_ok (send_finished (s\<lparr>bp_posted := rest\<rparr>) t) tag" if "bp_active s" for tag
      using latests [OF that, of tag] that Some unfolding eq
      by (auto simp: bp_latest_ok_def bp_pending_def Let_def ctx_def bp_send_buffer_def)
    moreover have "bp_active (send_finished (s\<lparr>bp_posted := rest\<rparr>) t) = bp_active s"
      unfolding eq by (simp add: bp_send_buffer_def)
    ultimately show ?thesis by (simp add: bp_inv_def)
  qed
qed

lemma bp_send_complete_cb_inv:
  assumes "bp_inv s" "t \<in> set (bp_unfinished s)"
  shows "bp_inv (bp_send_complete_cb s t res)"
proof -
  have slots: "bp_slot_ok s tag" and latests: "bp_active s \<Longrightarrow> bp_latest_ok s tag" for tag
    using assms by (simp_all add: bp_inv_def)
  have pos: "0 < count_list (bp_unfinished s) t" using assms(2) by (metis count_list_0_iff neq0_conv)
  have "bp_slot_ok (bp_send_complete_cb s t res) tag" for tag
    using slots [of tag] pos by (auto simp: bp_slot_ok_def bp_send_complete_cb_def Let_def)
  moreover have "bp_latest_ok (bp_send_complete_cb s t res) tag" if "bp_active s" for tag
    using latests [OF that, of tag] by (auto simp: bp_latest_ok_def bp_pending_def bp_send_complete_cb_def Let_def)
  moreover have "bp_active (bp_send_complete_cb s t res) = bp_active s"
    by (simp add: bp_send_complete_cb_def Let_def)
  ultimately show ?thesis by (simp add: bp_inv_def)
qed

lemma bp_step_inv: "bp_step s s' \<Longrightarrow> bp_inv s \<Longrightarrow> bp_inv s'"
proof (elim bp_stepE)
  assume "bp_inv s" "s' = s\<lparr>bp_active := False\<rparr>"
  then show "bp_inv s'" by (simp add: bp_inv_def bp_slot_ok_def)
qed (auto intro: bp_send_raw_buf_inv bp_send_complete_cb_inv send_finished_inv)

lemma bp_new_inv: "bp_inv bp_new"
  by (simp add: bp_inv_def bp_new_def bp_slot_ok_def bp_latest_ok_def bp_pending_def stream_at_def
      empty_stream_context_def of_stream_def)

lemma bp_steps_inv: "bp_step\<^sup>*\<^sup>* bp_new s \<Longrightarrow> bp_inv s"
  by (induction rule: rtranclp_induct) (auto intro: bp_new_inv bp_step_inv)

section \<open>Properties\<close>

text \<open>
  C21. Back pressure: of a stream at most one buffer is with the connection at any time; what is sent is a
  selection of what was offered, in order; the latest buffer offered is never the one that is dropped: it
  is the last one sent, or it is memorized and sent next; and a stream that is idle has sent it.
\<close>

theorem latest_buffer_wins:
  fixes s :: "('t, 'b) bp" and tag :: 't
  assumes "bp_step\<^sup>*\<^sup>* bp_new s" "bp_active s"
  defines "sent \<equiv> of_stream tag (bp_sends s)" and "offered \<equiv> of_stream tag (bp_offered s)"
  shows "count_list (bp_unfinished s) tag \<le> 1 \<and> subseq sent offered \<and>
    (offered \<noteq> [] \<longrightarrow> (case sc_memorized_buf (stream_at s tag) of
       None \<Rightarrow> sent \<noteq> [] \<and> last sent = last offered | Some b \<Rightarrow> b = last offered)) \<and>
    (sc_in_flight (stream_at s tag) = 0 \<longrightarrow> offered = [] \<or> (sent \<noteq> [] \<and> last sent = last offered))"
proof -
  have slot: "bp_slot_ok s tag" and latest: "bp_latest_ok s tag"
    using bp_steps_inv [OF assms(1)] assms(2) by (simp_all add: bp_inv_def)
  have "subseq sent offered"
    using latest subseq_left by (auto simp: bp_latest_ok_def bp_pending_def sent_def offered_def Let_def)
  moreover have "count_list (bp_unfinished s) tag \<le> 1" using slot by (auto simp: bp_slot_ok_def)
  ultimately show ?thesis
    using latest slot
    by (auto simp: bp_latest_ok_def bp_pending_def bp_slot_ok_def sent_def offered_def Let_def split: option.splits)
qed

theorem latest_buffer_wins_witness:
  "\<exists>s. bp_step\<^sup>*\<^sup>* bp_new s \<and> of_stream 0 (bp_offered s) = [1, 2, 3 :: int] \<and> of_stream (0 :: nat) (bp_sends s) = [1, 3] \<and>
     count_list (bp_unfinished s) 0 \<le> 1"
proof -
  define s1 :: "(nat, int) bp" where "s1 = bp_send_raw_buf (bp_send_raw_buf (bp_send_raw_buf bp_new 0 1) 0 2) 0 3"
  define s2 where "s2 = bp_send_complete_cb s1 0 Send_success"
  define s3 where "s3 = send_finished (s2\<lparr>bp_posted := []\<rparr>) 0"
  have s1: "bp_step\<^sup>*\<^sup>* bp_new s1"
    unfolding s1_def by (meson bp_offer rtranclp.rtrancl_into_rtrancl rtranclp.rtrancl_refl)
  have u: "0 \<in> set (bp_unfinished s1)" and p: "bp_posted s2 = [0]"
    by (simp_all add: s1_def s2_def bp_send_raw_buf_def bp_send_buffer_def bp_new_def stream_at_def put_stream_def
        empty_stream_context_def bp_send_complete_cb_def)
  have s3: "bp_step\<^sup>*\<^sup>* bp_new s3"
    using s1 bp_completed [OF u s2_def] bp_run_posted [OF p s3_def] by (meson rtranclp.rtrancl_into_rtrancl)
  have "bp_active s3" "of_stream 0 (bp_offered s3) = [1, 2, 3]" "of_stream 0 (bp_sends s3) = [1, 3]"
    by (simp_all add: s1_def s2_def s3_def bp_send_raw_buf_def bp_send_buffer_def bp_new_def stream_at_def put_stream_def
        empty_stream_context_def bp_send_complete_cb_def send_finished_def of_stream_def)
  then show ?thesis using latest_buffer_wins [OF s3, of 0] s3 by auto
qed

end
