(* ===== verification/ConnectionIntake.thy ===== *)
theory ConnectionIntake
  imports ConnectionFacts
begin

text \<open>
  How bytes get into a connection: a send waits on the strand and is then accepted, in the order of the
  calls, or the connection has stopped accepting for good. \<open>entry_env\<close> is the contract of an input
  handler that sends nothing on its own connection, as the one of a protocol entry.
\<close>

section \<open>Bytes on their way in\<close>

fun work_bytes :: "'b buffer_driver \<Rightarrow> 'b strand_work \<Rightarrow> byte list" where
  "work_bytes d (W_send cb bufs) = concat (map (bd_make_asio_const_buffer d) bufs)"
| "work_bytes d _ = []"

fun is_send :: "'b strand_work \<Rightarrow> bool" where
  "is_send (W_send cb bufs) = True"
| "is_send _ = False"

lemma work_bytes_no_send [simp]: "\<not> is_send w \<Longrightarrow> work_bytes d w = []"
  by (cases w) simp_all

definition strand_bytes :: "'b buffer_driver \<Rightarrow> 'b conn \<Rightarrow> byte list" where
  "strand_bytes d c = concat (map (work_bytes d) (c_strand c))"

definition taken_in :: "'b conn \<Rightarrow> byte list" where
  "taken_in c = accepted_bytes (c_out c)"

text \<open>\<open>sent\<close> are the bytes of all sends ever made on the connection.\<close>

definition carries :: "'b buffer_driver \<Rightarrow> byte list \<Rightarrow> 'b conn \<Rightarrow> bool" where
  "carries d sent c \<longleftrightarrow> prefix (taken_in c) sent \<and>
     (c_schedule_for_write_is_enabled c \<longrightarrow> taken_in c @ strand_bytes d c = sent)"

text \<open>Nothing is accepted, nothing leaves the strand, and a connection that stopped stays stopped.\<close>

definition kept :: "'b conn \<Rightarrow> 'b conn \<Rightarrow> bool" where
  "kept a b \<longleftrightarrow> taken_in b = taken_in a \<and> c_strand b = c_strand a \<and>
     (c_schedule_for_write_is_enabled b \<longrightarrow> c_schedule_for_write_is_enabled a)"

lemma kept_refl [simp]: "kept a a"
  by (simp add: kept_def)

lemma kept_trans: "kept a b \<Longrightarrow> kept b c \<Longrightarrow> kept a c"
  by (simp add: kept_def)

lemma kept_intake: "intake b = intake a \<Longrightarrow> kept a b"
  by (simp add: kept_def intake_def taken_in_def)

lemma kept_same_core: "same_core a b \<Longrightarrow> kept a b"
  by (simp add: kept_def same_core_def taken_in_def)

lemma kept_fields [simp]:
  "kept a (b\<lparr>c_read_buffer := rb\<rparr>) = kept a b" "kept a (b\<lparr>c_pending_reads := n\<rparr>) = kept a b"
  "kept a (b\<lparr>c_read_is_enabled := r\<rparr>) = kept a b" "kept a (b\<lparr>c_input_handler := h\<rparr>) = kept a b"
  "kept a (b\<lparr>c_shutdown_handler := sh\<rparr>) = kept a b" "kept a (b\<lparr>c_watchdog := w\<rparr>) = kept a b"
  "kept a (b\<lparr>c_write_queue := q\<rparr>) = kept a b" "kept a (b\<lparr>c_wire := wr\<rparr>) = kept a b"
  "kept a (b\<lparr>c_async := y\<rparr>) = kept a b" "kept a (b\<lparr>c_socket_open := so\<rparr>) = kept a b"
  "kept a (b\<lparr>c_nwrites := k\<rparr>) = kept a b" "kept a (push_seq b ws) = kept a b" "kept a (set_back_seq b ws) = kept a b"
  by (simp_all add: kept_def taken_in_def push_seq_def set_back_seq_def)

lemma kept_observe [simp]: "(\<forall>cb bs. ob \<noteq> O_send_accepted cb bs) \<Longrightarrow> kept a (observe ob b) = kept a b"
  by (cases ob) (auto simp: kept_def taken_in_def observe_def)

lemma carries_kept: "carries d sent a \<Longrightarrow> kept a b \<Longrightarrow> carries d sent b"
  by (auto simp: carries_def kept_def strand_bytes_def)

section \<open>What each operation does to them\<close>

locale entry_env = quiet_env +
  assumes input_keeps: "e_input E h b c = Some (b', nb, c') \<Longrightarrow> kept c c'"

context quiet_env
begin

lemma shutdown_impl_kept: "shutdown_impl E reason c = Some c' \<Longrightarrow> kept c c'"
  using shutdown_impl_quiet [of reason c] by (auto simp: kept_def taken_in_def)

lemma handle_io_error_kept: "handle_io_error E ec c = Some c' \<Longrightarrow> kept c c'"
  by (auto simp: handle_io_error_def split: if_splits dest: shutdown_impl_kept)

lemma write_kept:
  "(initiate_write_if_necessary fuel E c = Some c' \<longrightarrow> kept c c') \<and> (after_write fuel E ec n c = Some c' \<longrightarrow> kept c c')"
  by (rule write_mono) (auto intro: kept_trans kept_intake handle_io_error_kept)

text \<open>A send is accepted as a whole, or not at all by a connection that stopped.\<close>

lemma send_work_taken:
  assumes "send_work E cb bufs c = Some c'"
  shows "c_strand c' = c_strand c" and "c_schedule_for_write_is_enabled c' \<Longrightarrow> c_schedule_for_write_is_enabled c"
    and "taken_in c' = taken_in c @
      (if c_schedule_for_write_is_enabled c then work_bytes (e_driver E) (W_send cb bufs) else [])"
proof -
  define c0 where "c0 = (if c_schedule_for_write_is_enabled c
      then observe (O_send_accepted cb (concat (map (bd_make_asio_const_buffer (e_driver E)) bufs))) c else c)"
  have "kept c0 c'"
    unfolding c0_def
    by (rule send_work_mono [OF _ _ _ assms]) (auto intro: kept_trans kept_intake handle_io_error_kept)
  then show "c_strand c' = c_strand c" "c_schedule_for_write_is_enabled c' \<Longrightarrow> c_schedule_for_write_is_enabled c"
      "taken_in c' = taken_in c @
        (if c_schedule_for_write_is_enabled c then work_bytes (e_driver E) (W_send cb bufs) else [])"
    by (auto simp: kept_def c0_def taken_in_def observe_def split: if_splits)
qed

lemma strand_work_taken:
  assumes "run_strand_work E w c = Some c'"
  shows "c_strand c' = c_strand c" and "c_schedule_for_write_is_enabled c' \<Longrightarrow> c_schedule_for_write_is_enabled c"
    and "taken_in c' = taken_in c @ (if c_schedule_for_write_is_enabled c then work_bytes (e_driver E) w else [])"
proof -
  have "kept c c'" if "\<not> is_send w"
    using assms that
    by (cases w) (auto simp: start_reading_work_def stop_reading_work_def reset_input_handler_impl_def
        reset_shutdown_handler_impl_def initiate_read_def update_socket_options_impl_def case_prod_beta Let_def
        handle_write_operation_timeout_impl_def dest: shutdown_impl_kept split: if_splits)
  then have "c_strand c' = c_strand c \<and> (c_schedule_for_write_is_enabled c' \<longrightarrow> c_schedule_for_write_is_enabled c) \<and>
      taken_in c' = taken_in c @ (if c_schedule_for_write_is_enabled c then work_bytes (e_driver E) w else [])"
    using assms send_work_taken by (cases w) (auto simp: kept_def)
  then show "c_strand c' = c_strand c" "c_schedule_for_write_is_enabled c' \<Longrightarrow> c_schedule_for_write_is_enabled c"
    "taken_in c' = taken_in c @ (if c_schedule_for_write_is_enabled c then work_bytes (e_driver E) w else [])"
    by blast+
qed

text \<open>Handing work to the strand is how bytes are sent; everything else only moves them on.\<close>

lemma dispatch_carries:
  assumes "carries (e_driver E) sent c" "asio_dispatch on_strand E w c = Some c'"
    and "on_strand \<Longrightarrow> strand_bytes (e_driver E) c = []"
  shows "carries (e_driver E) (sent @ work_bytes (e_driver E) w) c'"
    and "on_strand \<Longrightarrow> strand_bytes (e_driver E) c' = []"
proof -
  have "carries (e_driver E) (sent @ work_bytes (e_driver E) w) c' \<and> (on_strand \<longrightarrow> strand_bytes (e_driver E) c' = [])"
  proof (cases on_strand)
    case True
    then have r: "run_strand_work E w c = Some c'" using assms(2) by (simp add: asio_dispatch_def)
    have "strand_bytes (e_driver E) c' = strand_bytes (e_driver E) c"
      using strand_work_taken(1) [OF r] by (simp add: strand_bytes_def)
    then show ?thesis
      using assms(1,3) strand_work_taken(2,3) [OF r] True by (auto simp: carries_def intro: prefix_prefix)
  next
    case False
    then have "c' = asio_post w c" using assms(2) by (simp add: asio_dispatch_def)
    then show ?thesis
      using assms(1) False by (auto simp: carries_def strand_bytes_def asio_post_def taken_in_def intro: prefix_prefix)
  qed
  then show "carries (e_driver E) (sent @ work_bytes (e_driver E) w) c'"
    "on_strand \<Longrightarrow> strand_bytes (e_driver E) c' = []" by blast+
qed

end

text \<open>What happens to a connection by itself, or is asked of it, but is not a send.\<close>

fun no_send :: "'b conn_event \<Rightarrow> bool" where
  "no_send (Ev_call w) \<longleftrightarrow> \<not> is_send w"
| "no_send (Ev_aggressive_send cb bufs) \<longleftrightarrow> False"
| "no_send _ \<longleftrightarrow> True"

context entry_env
begin

lemma after_read_kept: "after_read E ec bytes c = Some c' \<Longrightarrow> kept c c'"
proof (cases "ec_failed ec")
  case False
  assume read: "after_read E ec bytes c = Some c'"
  obtain buffer b2 nb c2 c3 where
    "bd_reduce_size_input (e_driver E) (c_read_buffer c) (length bytes) = Some buffer"
    "length bytes \<le> sb_size (c_read_buffer c)" and
    c2: "c2 = observe (O_input (sb_view buffer)) ((observe (O_inc_bytes_rx_async (length bytes)) c)\<lparr>c_read_buffer := sb_default\<rparr>)" and
    inp: "e_input E (c_input_handler c) buffer c2 = Some (b2, nb, c3)" and
    c': "c' = (let c4 = c3\<lparr>c_read_buffer := next_buffer E b2 nb c3\<rparr> in if c_read_is_enabled c3 then initiate_read c4 else c4)"
    by (rule after_read_cases [OF read False])
  then show ?thesis using kept_trans [OF _ input_keeps [OF inp], of c] by (simp add: initiate_read_def Let_def)
qed (simp add: after_read_def handle_io_error_kept)

lemma step_carries:
  assumes "carries (e_driver E) sent c" "conn_step E ev c = Some c'" "no_send ev"
  shows "carries (e_driver E) sent c'"
    and "strand_bytes (e_driver E) c = [] \<Longrightarrow> strand_bytes (e_driver E) c' = []"
proof -
  have dispatch: "carries (e_driver E) sent (asio_post w x) \<and>
      (strand_bytes (e_driver E) x = [] \<longrightarrow> strand_bytes (e_driver E) (asio_post w x) = [])"
    if "carries (e_driver E) sent x" "\<not> is_send w" for w x
    using that by (simp add: carries_def strand_bytes_def asio_post_def taken_in_def)
  have kept: "carries (e_driver E) sent c' \<and> (strand_bytes (e_driver E) c = [] \<longrightarrow> strand_bytes (e_driver E) c' = [])"
    if "kept c c'"
    using that carries_kept [OF assms(1) that] by (auto simp: kept_def strand_bytes_def)
  have "carries (e_driver E) sent c' \<and> (strand_bytes (e_driver E) c = [] \<longrightarrow> strand_bytes (e_driver E) c' = [])"
  proof (cases ev)
    case (Ev_call w)
    then show ?thesis using assms dispatch by (auto simp: asio_dispatch_def)
  next
    case Ev_strand
    then obtain w ws where w: "c_strand c = w # ws" "run_strand_work E w (c\<lparr>c_strand := ws\<rparr>) = Some c'"
      using assms(2) by (auto split: list.splits)
    show ?thesis
      using assms(1) w(1) strand_work_taken [OF w(2)]
      by (auto simp: carries_def strand_bytes_def taken_in_def intro: prefixI)
  next
    case (Ev_write_completed ec n)
    then obtain bufs c2 where c2: "after_write (write_fuel (observe (O_async_write_finished n)
          (c\<lparr>c_wire := c_wire c @ take n (concat bufs), c_async := None\<rparr>))) E ec n
        (observe (O_async_write_finished n) (c\<lparr>c_wire := c_wire c @ take n (concat bufs), c_async := None\<rparr>)) = Some c2"
        "c' = observe (O_inc_bytes_tx_async n) c2"
      using assms(2) by (auto simp: on_async_write_completed_def Let_def split: option.splits bind_splits)
    have "kept c (observe (O_async_write_finished n) (c\<lparr>c_wire := c_wire c @ take n (concat bufs), c_async := None\<rparr>))"
      by simp
    from kept_trans [OF this write_kept [THEN conjunct2, rule_format, OF c2(1)]] have "kept c c'"
      by (simp add: c2(2))
    then show ?thesis using kept by blast
  next
    case (Ev_read_completed ec bytes)
    then have read: "after_read E ec bytes (c\<lparr>c_pending_reads := c_pending_reads c - 1, c_read_buffer := sb_write (c_read_buffer c) 0 bytes\<rparr>) = Some c'"
      using assms(2) by (auto simp: on_async_read_completed_def Let_def split: if_splits)
    have "kept c (c\<lparr>c_pending_reads := c_pending_reads c - 1, c_read_buffer := sb_write (c_read_buffer c) 0 bytes\<rparr>)"
      by simp
    from kept_trans [OF this after_read_kept [OF read]] have "kept c c'" .
    then show ?thesis using kept by blast
  next
    case Ev_timer_expires
    then show ?thesis using assms kept by auto
  next
    case Ev_timer_handler
    define x where "x = c\<lparr>c_watchdog := snd (wd_run_handler (c_watchdog c))\<rparr>"
    have "c' = x \<or> (\<exists>key. c' = asio_post (W_write_timeout key) x)"
      using assms(2) Ev_timer_handler
      by (auto simp: hadle_write_operation_timeout_def asio_dispatch_def Let_def x_def split: prod.splits option.splits)
    moreover have "carries (e_driver E) sent x" "strand_bytes (e_driver E) x = strand_bytes (e_driver E) c"
      using assms(1) by (simp_all add: x_def carries_def strand_bytes_def taken_in_def)
    ultimately show ?thesis using dispatch [of x] by auto
  qed (use assms in simp_all)
  then show "carries (e_driver E) sent c'"
    "strand_bytes (e_driver E) c = [] \<Longrightarrow> strand_bytes (e_driver E) c' = []" by blast+
qed

end

lemma ctor_carries: "carries d [] (connection_ctor E cfg inp shut)" "strand_bytes d (connection_ctor E cfg inp shut) = []"
  by (simp_all add: carries_def strand_bytes_def taken_in_def connection_ctor_def)

lemma quiet_env_input:
  assumes "quiet_env E"
    and "\<And>h b c b' nb c'. f h b c = Some (b', nb, c') \<Longrightarrow>
      \<exists>ws. run_works (E\<lparr>e_input := f\<rparr>) ws c = Some c' \<and> (\<forall>w\<in>set ws. work_ok w)"
  shows "quiet_env (E\<lparr>e_input := f\<rparr>)"
  using quiet_env_handlers [OF assms(1), of f "e_shutdown_cb E"] quiet_env.shutdown_cb_closes [OF assms(1)] assms(2)
  by simp

lemma plain_env_entry:
  assumes "buffer_driver_laws d" "0 < n"
  shows "entry_env (plain_env n room d)"
  using plain_env_quiet [OF assms] by (intro entry_env.intro entry_env_axioms.intro) (auto simp: plain_env_def)

interpretation simple_link: entry_env "plain_env (Suc n) room simple_buffer_driver"
  by (rule plain_env_entry) (simp_all add: simple_drv.buffer_driver_laws_axioms)

end
