(* ===== verification/Session.thy ===== *)
theory Session
  imports EntryProps ConnectionIntake
begin

text \<open>
  An entry on its connection, and the entry of the peer: what the user of one entry sends, the whole way
  to the handler of the other. The sending entry's calls are made on the connection as
  \<open>entry_base_t\<close> makes them (\<open>perform\<close>); the two ends of the socket are joined by TCP, which hands the
  peer the bytes the operating system took, in order and in pieces of any size. The connection on the
  receiving side passes the pieces on unchanged, see \<open>read_delivers_bytes\<close>.
\<close>

section \<open>The calls of an entry on its connection\<close>

definition out_bufs :: "'b conn_env \<Rightarrow> byte list list \<Rightarrow> 'b list" where
  "out_bufs E bufs = map (\<lambda>bs. bd_to_output (e_driver E) (sb_of_bytes bs)) bufs"

text \<open>
  \<open>on_strand\<close> says whether the entry runs on the strand of its connection; the entries of
  \<open>std_entry_shortcuts_factory\<close> have a strand of their own.
\<close>

fun perform :: "bool \<Rightarrow> 'b conn_env \<Rightarrow> 'm entry_event \<Rightarrow> 'b conn \<Rightarrow> 'b conn option" where
  "perform on_strand E Ee_start_reading c = start_reading on_strand E c"
| "perform on_strand E (Ee_send Op_schedule_send bufs) c = schedule_send True on_strand E (out_bufs E bufs) c"
| "perform on_strand E (Ee_send (Op_schedule_send_with_cb cb) bufs) c =
     schedule_send_with_cb True on_strand E (Some cb) (out_bufs E bufs) c"
| "perform on_strand E (Ee_send (Op_schedule_send_vec_with_cb cb) bufs) c =
     schedule_send_vec_with_cb True on_strand E (Some cb) (out_bufs E bufs) c"
| "perform on_strand E Ee_connection_shutdown c = shutdown_conn on_strand E c"
| "perform on_strand E _ c = Some c"

fun performs :: "bool \<Rightarrow> 'b conn_env \<Rightarrow> 'm entry_event list \<Rightarrow> 'b conn \<Rightarrow> 'b conn option" where
  "performs on_strand E [] c = Some c"
| "performs on_strand E (ev # evs) c = do { c \<leftarrow> perform on_strand E ev c; performs on_strand E evs c }"

text \<open>A send with a callback has data.\<close>

fun event_ok :: "'m entry_event \<Rightarrow> bool" where
  "event_ok (Ee_send op bufs) \<longleftrightarrow> bufs \<noteq> []"
| "event_ok _ \<longleftrightarrow> True"

section \<open>What an entry does\<close>

type_synonym 'm sent_message = "u16 \<times> 'm \<times> byte list"

text \<open>
  The calls of the user and the events of the timer and the connection, with the messages the user has
  sent by them; a closed entry sends nothing.
\<close>

inductive entry_does :: "'m message_api \<Rightarrow> 'm entry \<Rightarrow> 'm sent_message list \<Rightarrow> 'm entry \<Rightarrow> bool" for mapi where
  ed_send: "entry_send mapi e mid m = Some e' \<Longrightarrow>
    entry_does mapi e (if en_connection_is_active e then [(mid, m, [])] else []) e'"
| ed_send_attached: "entry_send_attached mapi e mid m att = Some e' \<Longrightarrow>
    entry_does mapi e (if en_connection_is_active e then [(mid, m, att)] else []) e'"
| ed_send_with_cb: "entry_send_with_cb mapi e cb mid m = Some e' \<Longrightarrow>
    entry_does mapi e (if en_connection_is_active e then [(mid, m, [])] else []) e'"
| ed_send_attached_with_cb: "entry_send_attached_with_cb mapi e cb mid m att = Some e' \<Longrightarrow>
    entry_does mapi e (if en_connection_is_active e then [(mid, m, att)] else []) e'"
| ed_heartbeat_timer: "on_check_heartbeat now e = Some e' \<Longrightarrow> entry_does mapi e [] e'"
| ed_close: "close_work e = Some e' \<Longrightarrow> entry_does mapi e [] e'"
| ed_connection_shutdown: "handle_shutdown e reason = Some e' \<Longrightarrow> entry_does mapi e [] e'"

inductive_cases entry_doesE: "entry_does mapi e ms e'"

section \<open>Two entries and the bytes between them\<close>

text \<open>
  \<open>ss_taken\<close> is how many of the bytes in \<open>c_wire\<close> the peer has read; \<open>ss_sent\<close> is the history of the
  messages the user of the sending entry has sent.
\<close>

record ('m, 'b) session =
  ss_sender :: "'m entry"
  ss_conn :: "'b conn"
  ss_taken :: nat
  ss_receiver :: "'m entry"
  ss_sent :: "'m sent_message list"

record ('m, 'b) session_env =
  se_conn :: "'b conn_env"
  se_on_strand :: bool
  se_sender_api :: "'m entry_api"
  se_receiver_api :: "'m entry_api"
  se_mapi :: "'m message_api"
  se_receiver_cfg :: entry_cfg
  se_max_read :: nat

definition new_events :: "'m entry \<Rightarrow> 'm entry \<Rightarrow> 'm entry_event list" where
  "new_events e e' = drop (length (en_out e)) (en_out e')"

inductive session_reachable :: "('m, 'b) session_env \<Rightarrow> ('m, 'b) session \<Rightarrow> bool" for S where
  sr_start: "sender = fresh_entry cfg sh cap now \<Longrightarrow> 0 < cap' \<Longrightarrow>
    performs (se_on_strand S) (se_conn S) (en_out sender) (connection_ctor (se_conn S) ccfg inp shut) = Some c \<Longrightarrow>
    session_reachable S \<lparr>ss_sender = sender, ss_conn = c, ss_taken = 0,
      ss_receiver = fresh_entry (se_receiver_cfg S) sh' cap' now', ss_sent = []\<rparr>"
| sr_sender: "session_reachable S s \<Longrightarrow> entry_does (se_mapi S) (ss_sender s) ms e' \<Longrightarrow>
    performs (se_on_strand S) (se_conn S) (new_events (ss_sender s) e') (ss_conn s) = Some c' \<Longrightarrow>
    session_reachable S (s\<lparr>ss_sender := e', ss_conn := c', ss_sent := ss_sent s @ ms\<rparr>)"
| sr_sender_input: "session_reachable S s \<Longrightarrow> handle_input (se_sender_api S) now (ss_sender s) buf = Some e' \<Longrightarrow>
    performs (se_on_strand S) (se_conn S) (new_events (ss_sender s) e') (ss_conn s) = Some c' \<Longrightarrow>
    session_reachable S (s\<lparr>ss_sender := e', ss_conn := c'\<rparr>)"
| sr_connection: "session_reachable S s \<Longrightarrow> ev_ok ev (ss_conn s) \<Longrightarrow> no_send ev \<Longrightarrow>
    conn_step (se_conn S) ev (ss_conn s) = Some c' \<Longrightarrow> session_reachable S (s\<lparr>ss_conn := c'\<rparr>)"
| sr_read: "session_reachable S s \<Longrightarrow> sb_wf buf \<Longrightarrow> sb_size buf \<le> se_max_read S \<Longrightarrow>
    prefix (sb_view buf) (drop (ss_taken s) (c_wire (ss_conn s))) \<Longrightarrow>
    handle_input (se_receiver_api S) now (ss_receiver s) buf = Some r' \<Longrightarrow>
    session_reachable S (s\<lparr>ss_taken := ss_taken s + sb_size buf, ss_receiver := r'\<rparr>)"
| sr_receiver: "session_reachable S s \<Longrightarrow> entry_does (se_mapi S) (ss_receiver s) ms r' \<Longrightarrow>
    session_reachable S (s\<lparr>ss_receiver := r'\<rparr>)"

text \<open>The messages that reached the handler of an entry.\<close>

fun event_message :: "'m entry_event \<Rightarrow> 'm sent_message list" where
  "event_message (Ee_message mid c) = [(mid, mc_message c, mc_attached_buffer c)]"
| "event_message _ = []"

definition delivered :: "'m entry \<Rightarrow> 'm sent_message list" where
  "delivered e = concat (map event_message (en_out e))"

fun pkg_message :: "'m wire_pkg \<Rightarrow> 'm sent_message list" where
  "pkg_message (Wp_message mid m att) = [(mid, m, att)]"
| "pkg_message _ = []"

lemma event_message_wire [simp]: "concat (map event_message (wire_events p)) = pkg_message p"
  by (cases p) simp_all

text \<open>A message the receiver has to accept.\<close>

definition message_fits :: "('m, 'b) session_env \<Rightarrow> (u16 \<Rightarrow> byte list \<Rightarrow> 'm option) \<Rightarrow> nat \<Rightarrow> 'm sent_message \<Rightarrow> bool" where
  "message_fits S decode L x \<longleftrightarrow> (case x of (mid, m, att) \<Rightarrow> message_ok (se_mapi S) m \<and>
     wire_ok (se_receiver_api S) decode (se_mapi S) (se_receiver_cfg S) (Wp_message mid m att) \<and>
     length (wire_image (se_mapi S) (Wp_message mid m att)) \<le> L)"

section \<open>What an entry puts on its connection\<close>

text \<open>The new events of an entry send exactly the packages \<open>qs\<close>.\<close>

definition says :: "'m message_api \<Rightarrow> 'm wire_pkg list \<Rightarrow> 'm entry \<Rightarrow> 'm entry \<Rightarrow> bool" where
  "says mapi qs e e' \<longleftrightarrow> (\<exists>new. en_out e' = en_out e @ new \<and>
     concat (map event_bytes new) = concat (map (wire_image mapi) qs) \<and> (\<forall>ev\<in>set new. event_ok ev))"

lemma says_emit:
  "concat (map event_bytes new) = concat (map (wire_image mapi) qs) \<Longrightarrow> \<forall>ev\<in>set new. event_ok ev \<Longrightarrow>
   en_out e' = en_out e @ new \<Longrightarrow> says mapi qs e e'"
  by (auto simp: says_def)

lemma says_trans: "says mapi qs a b \<Longrightarrow> says mapi qs' b c \<Longrightarrow> says mapi (qs @ qs') a c"
  unfolding says_def by (elim exE conjE) (rule says_emit [unfolded says_def], auto)

lemma says_same: "en_out e' = en_out e \<Longrightarrow> says mapi [] e e'"
  by (rule says_emit [of "[]"]) simp_all

text \<open>An entry that only answers heartbeats, and one that becomes active again: there is none.\<close>

definition answers :: "'m entry \<Rightarrow> 'm entry \<Rightarrow> bool" where
  "answers e e' \<longleftrightarrow> (\<exists>k. \<forall>mapi. says mapi (replicate k Wp_heartbeat_reply) e e') \<and>
     (en_connection_is_active e' \<longrightarrow> en_connection_is_active e)"

lemma answers_trans:
  assumes "answers a b" "answers b c"
  shows "answers a c"
proof -
  obtain j k where "says mapi (replicate j Wp_heartbeat_reply) a b" "says mapi (replicate k Wp_heartbeat_reply) b c" for mapi
    using assms by (auto simp: answers_def)
  then have "says mapi (replicate (j + k) Wp_heartbeat_reply) a c" for mapi
    using says_trans [of mapi _ a b _ c] by (simp add: replicate_add)
  with assms show ?thesis by (auto simp: answers_def)
qed

lemma answers_quiet:
  "\<exists>new. en_out e' = en_out e @ new \<and> concat (map event_bytes new) = [] \<and> (\<forall>ev\<in>set new. event_ok ev) \<Longrightarrow>
   (en_connection_is_active e' \<longrightarrow> en_connection_is_active e) \<Longrightarrow> answers e e'"
  unfolding answers_def by (auto intro!: exI [of _ 0] says_emit)

lemma answers_silent:
  "en_out e' = en_out e \<Longrightarrow> en_connection_is_active e' = en_connection_is_active e \<Longrightarrow> answers e e'"
  by (rule answers_quiet) simp_all

lemma shutdown_and_terminate_answers:
  assumes "shutdown_and_terminate e ctx = Some e'"
  shows "answers e e'"
  by (rule answers_quiet) (use assms in \<open>auto simp: shutdown_and_terminate_def terminate_def Let_def
      split: if_splits shutdown_handler_variant.splits\<close>)

lemma handle_shutdown_answers:
  assumes "handle_shutdown e reason = Some e'"
  shows "answers e e'"
  by (rule answers_quiet) (use assms in \<open>auto simp: handle_shutdown_def terminate_def Let_def
      split: if_splits shutdown_handler_variant.splits\<close>)

lemma answers_input [simp]: "answers (e\<lparr>en_pkg_input := s\<rparr>) e' = answers e e'"
  by (simp add: answers_def says_def)

lemma handle_incoming_message_answers:
  assumes "handle_incoming_message api e h = Some (r, e')"
  shows "answers e e'"
proof (cases "\<exists>evs. en_out e' = en_out e @ evs \<and> (\<forall>ev\<in>set evs. event_bytes ev = [] \<and> event_ok ev) \<and>
    en_connection_is_active e' = en_connection_is_active e")
  case True
  then show ?thesis by (intro answers_quiet) auto
next
  case False
  then show ?thesis
    using assms shutdown_and_terminate_answers [of "e\<lparr>en_pkg_input := _\<rparr>" _ e'] shutdown_and_terminate_answers [of e _ e']
    by (auto simp: handle_incoming_message_def Let_def bind_eq_Some_conv split: if_splits option.splits)
qed

lemma handle_single_package_answers:
  assumes "handle_single_package api e = Some (r, e')"
  shows "answers e e'"
proof -
  have request: "answers e e'" if "handle_heartbeat_request_pkg e h = Some (r, e')" for h
  proof (cases "en_out e' = en_out e @ [Ee_send Op_schedule_send [pkg_header_bytes (pkg_header_make pkg_content_heartbeat_reply 0 0 0)]]")
    case True
    have "en_connection_is_active e' \<longrightarrow> en_connection_is_active e"
      using that by (auto simp: handle_heartbeat_request_pkg_def Let_def bind_eq_Some_conv shutdown_and_terminate_def
          split: if_splits)
    with True show ?thesis
      unfolding answers_def by (auto intro!: exI [of _ "Suc 0"] says_emit)
  next
    case False
    with that show ?thesis
      by (auto simp: handle_heartbeat_request_pkg_def Let_def bind_eq_Some_conv
          intro: answers_silent shutdown_and_terminate_answers split: if_splits)
  qed
  have message: "answers e e'" if "handle_message_pkg api e h = Some (r, e')" for h
    using that handle_incoming_message_answers [of api "e\<lparr>en_pkg_input := _\<rparr>" h r e']
    by (auto simp: handle_message_pkg_def bind_eq_Some_conv intro: answers_silent shutdown_and_terminate_answers
        split: if_splits)
  have reply: "answers e e'" if "handle_heartbeat_reply_pkg e h = Some (r, e')" for h
    using that by (auto simp: handle_heartbeat_reply_pkg_def bind_eq_Some_conv
        intro: answers_silent shutdown_and_terminate_answers split: if_splits)
  from assms show ?thesis
    by (auto simp: handle_single_package_def handle_unknown_pkg_content_type_def bind_eq_Some_conv
        intro: answers_silent shutdown_and_terminate_answers request message reply split: if_splits)
qed

lemma handle_input_answers:
  assumes "handle_input api now e buf = Some e'"
  shows "answers e e'"
proof -
  obtain s res e1 where s: "run_input_stream_loop api (e\<lparr>en_pkg_input := s\<rparr>) = Some (res, e1)"
      "(case res of Returned _ \<Rightarrow> Some (update_last_input_at now e1)
        | Threw what \<Rightarrow> shutdown_and_terminate e1 (shutdown_context_msg Esr_exception_handling_input what)) = Some e'"
    using assms by (auto simp: handle_input_def bind_eq_Some_conv)
  have "answers e e1"
    using run_input_stream_loop_mono [OF s(1), of answers] handle_single_package_answers answers_trans by auto
  moreover have "answers e1 e'"
    using s(2) by (cases res) (auto simp: update_last_input_at_def intro: answers_silent shutdown_and_terminate_answers)
  ultimately show ?thesis by (rule answers_trans)
qed

text \<open>A step of an entry without input: what it sends, and what it leaves alone.\<close>

definition frame :: "'m entry \<Rightarrow> 'm entry \<Rightarrow> bool" where
  "frame e e' \<longleftrightarrow> en_pkg_input e' = en_pkg_input e \<and> en_cfg e' = en_cfg e \<and> delivered e' = delivered e \<and>
     (en_connection_is_active e' \<longrightarrow> en_connection_is_active e)"

lemma delivered_emit [simp]: "delivered (emit evs e) = delivered e @ concat (map event_message evs)"
  by (simp add: delivered_def)

lemma delivered_cong: "en_out e' = en_out e \<Longrightarrow> delivered e' = delivered e"
  by (simp add: delivered_def)

lemma shutdown_and_terminate_frame: "shutdown_and_terminate e ctx = Some e' \<Longrightarrow> frame e e'"
  by (auto simp: shutdown_and_terminate_def terminate_def frame_def delivered_def Let_def
      split: if_splits shutdown_handler_variant.splits)

lemma handle_shutdown_frame: "handle_shutdown e reason = Some e' \<Longrightarrow> frame e e'"
  by (auto simp: handle_shutdown_def terminate_def frame_def delivered_def Let_def
      split: if_splits shutdown_handler_variant.splits)

lemma raw_bufs_frame:
  "frame e (schedule_send_raw_bufs e bufs)" "frame e (schedule_send_raw_bufs_with_cb e cb bufs)"
  by (simp_all add: schedule_send_raw_bufs_def schedule_send_raw_bufs_with_cb_def frame_def)

lemma on_check_heartbeat_frame: "on_check_heartbeat now e = Some e' \<Longrightarrow> frame e e'"
  by (auto simp: on_check_heartbeat_def send_heartbeat_request_def schedule_next_heartbeat_check_def Let_def
      frame_def delivered_def dest: shutdown_and_terminate_frame split: if_splits)

lemma entry_does_frame: "entry_does mapi e ms e' \<Longrightarrow> frame e e'"
  by (elim entry_doesE)
    (auto simp: entry_send_def entry_send_attached_def entry_send_with_cb_def entry_send_attached_with_cb_def
      raw_bufs_frame close_work_def bind_eq_Some_conv
      dest: on_check_heartbeat_frame shutdown_and_terminate_frame handle_shutdown_frame)

lemma answers_says: "answers e e' \<Longrightarrow> \<exists>qs. says mapi qs e e' \<and> concat (map pkg_message qs) = []"
proof -
  assume "answers e e'"
  then obtain k where "says mapi (replicate k Wp_heartbeat_reply) e e'" by (auto simp: answers_def)
  then show ?thesis by (intro exI [of _ "replicate k Wp_heartbeat_reply"]) simp
qed

lemma heartbeat_request_says:
  assumes "on_check_heartbeat now e = Some e'"
  shows "\<exists>qs. says mapi qs e e' \<and> concat (map pkg_message qs) = []"
proof -
  let ?req = "Ee_send Op_schedule_send [pkg_header_bytes (pkg_header_make pkg_content_heartbeat_request 0 0 0)]"
  consider "en_out e' = en_out e" | t where "en_out e' = en_out e @ [Ee_timer_expires_after t]"
    | t where "en_out e' = en_out e @ [?req, Ee_timer_expires_after t]"
    | "shutdown_and_terminate e (shutdown_context_of Esr_hearbeat_reply_timeout) = Some e'"
    using assms
    by (auto simp: on_check_heartbeat_def send_heartbeat_request_def schedule_next_heartbeat_check_def Let_def
        split: if_splits)
  then show ?thesis
  proof cases
    case 1
    then show ?thesis using says_same by (intro exI [of _ "[]"]) auto
  next
    case (2 t)
    then have "says mapi [] e e'" by (intro says_emit [of "[Ee_timer_expires_after t]"]) simp_all
    then show ?thesis by (intro exI [of _ "[]"]) simp
  next
    case (3 t)
    then have "says mapi [Wp_heartbeat_request] e e'"
      by (intro says_emit [of "[?req, Ee_timer_expires_after t]"]) simp_all
    then show ?thesis by (intro exI [of _ "[Wp_heartbeat_request]"]) simp
  next
    case 4
    then show ?thesis using shutdown_and_terminate_answers answers_says by blast
  qed
qed

text \<open>The four ways to send a message differ in the operation of the connection and the list of buffers.\<close>

lemma raw_send_says:
  assumes "image_bytes mapi mid m (length att) = Some buf" "bufs = [buf] \<and> att = [] \<or> bufs = [buf, att]"
    and "e' = (if en_connection_is_active e then emit [Ee_send op bufs] e else e)"
    and "en_connection_is_active e \<Longrightarrow> message_ok mapi m \<and> length (serialize mapi m) < 2 ^ 32"
  shows "\<exists>qs. says mapi qs e e' \<and>
    concat (map pkg_message qs) = (if en_connection_is_active e then [(mid, m, att)] else [])"
proof (cases "en_connection_is_active e")
  case True
  then have "buf = pkg_header_bytes (message_header mapi mid m att) @ serialize mapi m"
    using assms(1,4) image_bytes_eq [of mapi m mid "length att"] by (simp add: message_header_def)
  then have "says mapi [Wp_message mid m att] e e'"
    using assms(2,3) True by (intro says_emit [of "[Ee_send op bufs]"]) auto
  then show ?thesis using True by (intro exI [of _ "[Wp_message mid m att]"]) simp
next
  case False
  then show ?thesis using says_same [of e' e mapi] assms(3) by (intro exI [of _ "[]"]) simp
qed

lemma entry_does_says:
  assumes "entry_does mapi e ms e'"
    and "\<forall>x\<in>set ms. case x of (mid, m, att) \<Rightarrow> message_ok mapi m \<and> length (serialize mapi m) < 2 ^ 32"
  shows "\<exists>qs. says mapi qs e e' \<and> concat (map pkg_message qs) = ms"
  using assms(1)
proof cases
  case (ed_send mid m)
  then obtain buf where "image_bytes mapi mid m (length ([] :: byte list)) = Some buf"
      "e' = (if en_connection_is_active e then emit [Ee_send Op_schedule_send [buf]] e else e)"
    by (auto simp: entry_send_def schedule_send_raw_bufs_def bind_eq_Some_conv)
  from raw_send_says [OF this(1) _ this(2)] show ?thesis using assms(2) ed_send by simp
next
  case (ed_send_attached mid m att)
  then obtain buf where "image_bytes mapi mid m (length att) = Some buf"
      "e' = (if en_connection_is_active e then emit [Ee_send Op_schedule_send [buf, att]] e else e)"
    by (auto simp: entry_send_attached_def schedule_send_raw_bufs_def bind_eq_Some_conv)
  from raw_send_says [OF this(1) _ this(2)] show ?thesis using assms(2) ed_send_attached by simp
next
  case (ed_send_with_cb cb mid m)
  then obtain buf where "image_bytes mapi mid m (length ([] :: byte list)) = Some buf"
      "e' = (if en_connection_is_active e then emit [Ee_send (Op_schedule_send_with_cb cb) [buf]] e else e)"
    by (auto simp: entry_send_with_cb_def schedule_send_raw_bufs_with_cb_def bind_eq_Some_conv)
  from raw_send_says [OF this(1) _ this(2)] show ?thesis using assms(2) ed_send_with_cb by simp
next
  case (ed_send_attached_with_cb cb mid m att)
  then obtain buf where "image_bytes mapi mid m (length att) = Some buf"
      "e' = (if en_connection_is_active e then emit [Ee_send (Op_schedule_send_with_cb cb) [buf, att]] e else e)"
    by (auto simp: entry_send_attached_with_cb_def schedule_send_raw_bufs_with_cb_def bind_eq_Some_conv)
  from raw_send_says [OF this(1) _ this(2)] show ?thesis using assms(2) ed_send_attached_with_cb by simp
next
  case (ed_heartbeat_timer now)
  then show ?thesis using heartbeat_request_says by auto
next
  case ed_close
  then have "answers e e'" using shutdown_and_terminate_answers by (simp add: close_work_def)
  from answers_says [OF this] ed_close show ?thesis by simp
next
  case (ed_connection_shutdown reason)
  from answers_says [OF handle_shutdown_answers [OF this(2)]] ed_connection_shutdown show ?thesis by simp
qed

section \<open>The calls reach the connection\<close>

context entry_env
begin

lemma out_bufs_bytes: "concat (map (bd_make_asio_const_buffer (e_driver E)) (out_bufs E bufs)) = concat bufs"
  by (simp add: out_bufs_def comp_def view_to_output)

lemma perform_dispatches:
  assumes "perform on_strand E ev c = Some c'" "event_ok ev"
  shows "c' = c \<and> event_bytes ev = [] \<or>
    (\<exists>w. asio_dispatch on_strand E w c = Some c' \<and> work_bytes (e_driver E) w = event_bytes ev \<and> work_ok w)"
proof -
  note sends = schedule_send_def schedule_send_impl_def schedule_send_with_cb_def schedule_send_impl_with_cb_def
    schedule_send_vec_with_cb_def schedule_send_vec_impl_with_cb_def
  have empty: "out_bufs E bufs = [] \<longleftrightarrow> bufs = []" for bufs by (simp add: out_bufs_def)
  show ?thesis
  proof (cases ev)
    case Ee_start_reading
    then show ?thesis using assms by (intro disjI2 exI [of _ W_start_reading]) (simp add: start_reading_def)
  next
    case (Ee_send op bufs)
    show ?thesis
    proof (cases op)
      case Op_schedule_send
      then show ?thesis
        using assms Ee_send
        by (intro disjI2 exI [of _ "W_send None (out_bufs E bufs)"]) (simp add: sends out_bufs_bytes)
    next
      case (Op_schedule_send_with_cb cb)
      then show ?thesis
        using assms Ee_send
        by (intro disjI2 exI [of _ "W_send (Some cb) (out_bufs E bufs)"]) (simp add: sends out_bufs_bytes empty)
    next
      case (Op_schedule_send_vec_with_cb cb)
      then show ?thesis
        using assms Ee_send
        by (intro disjI2 exI [of _ "W_send (Some cb) (out_bufs E bufs)"]) (simp add: sends out_bufs_bytes empty)
    qed
  next
    case Ee_connection_shutdown
    then show ?thesis using assms by (intro disjI2 exI [of _ W_shutdown]) (simp add: shutdown_conn_def)
  qed (use assms in auto)
qed

definition link_inv :: "bool \<Rightarrow> byte list \<Rightarrow> 'a conn \<Rightarrow> bool" where
  "link_inv on_strand sent c \<longleftrightarrow> conn_inv E c \<and> carries (e_driver E) sent c \<and>
     (on_strand \<longrightarrow> strand_bytes (e_driver E) c = [])"

lemma dispatch_inv:
  assumes "conn_inv E c" "work_ok w" "asio_dispatch on_strand E w c = Some c'"
  shows "conn_inv E c'"
proof (cases on_strand)
  case True
  then show ?thesis using assms strand_work_inv by (simp add: asio_dispatch_def)
next
  case False
  then show ?thesis
    using assms conn_inv_data_path [OF _ _ assms(1), of c'] conn_inv_works [OF assms(1)]
    by (auto simp: asio_dispatch_def asio_post_def)
qed

lemma performs_link:
  assumes "performs on_strand E evs c = Some c'" "\<forall>ev\<in>set evs. event_ok ev" "link_inv on_strand sent c"
  shows "link_inv on_strand (sent @ concat (map event_bytes evs)) c'"
  using assms
proof (induction evs arbitrary: c sent)
  case (Cons ev evs)
  then obtain c1 where c1: "perform on_strand E ev c = Some c1" "performs on_strand E evs c1 = Some c'"
    by (auto split: bind_splits)
  have "link_inv on_strand (sent @ event_bytes ev) c1"
    using perform_dispatches [OF c1(1)] Cons.prems(2,3) dispatch_inv dispatch_carries
    unfolding link_inv_def by fastforce
  then show ?case using Cons.IH [OF c1(2), of "sent @ event_bytes ev"] Cons.prems(2) by simp
qed simp

lemma step_link:
  assumes "link_inv on_strand sent c" "ev_ok ev c" "no_send ev" "conn_step E ev c = Some c'"
  shows "link_inv on_strand sent c'"
  using assms(1) conn_step_inv [OF _ assms(2,4)] step_carries [OF _ assms(4,3)] by (auto simp: link_inv_def)

lemma ctor_link: "link_inv on_strand [] (connection_ctor E cfg inp shut)"
  by (simp add: link_inv_def ctor_inv ctor_carries)

lemma link_inv_wire: "link_inv on_strand sent c \<Longrightarrow> prefix (c_wire c) sent"
  using conn_inv_prefix [of E c] by (auto simp: link_inv_def carries_def taken_in_def intro: prefix_order.trans)

text \<open>Everything is on the wire when the connection works and has nothing left to do.\<close>

lemma link_inv_all_sent:
  assumes "link_inv on_strand sent c" "c_schedule_for_write_is_enabled c" "c_async c = None" "c_strand c = []"
  shows "c_wire c = sent"
  using assms by (auto simp: link_inv_def carries_def taken_in_def strand_bytes_def conn_inv_def conn_ok_def
      conn_failed_def conn_idle_def conn_writing_def conn_stream_def)

end

section \<open>The invariant of a session\<close>

text \<open>
  \<open>ps\<close> are the packages the sender has sent. The receiver, as long as it is active, has handled the
  complete ones among the bytes it took, and holds the rest.
\<close>

definition received ::
  "('m, 'b) session_env \<Rightarrow> 'm wire_pkg list \<Rightarrow> byte list \<Rightarrow> 'm entry \<Rightarrow> bool" where
  "received S ps bytes r \<longleftrightarrow> (\<exists>k rest. input_ready r rest \<and> en_cfg r = se_receiver_cfg S \<and> k \<le> length ps \<and>
     delivered r = concat (map pkg_message (take k ps)) \<and>
     bytes = concat (map (wire_image (se_mapi S)) (take k ps)) @ rest \<and>
     (case drop k ps of [] \<Rightarrow> rest = [] | p # _ \<Rightarrow> length rest < length (wire_image (se_mapi S) p)))"

definition session_inv :: "('m, 'b) session_env \<Rightarrow> ('m, 'b) session \<Rightarrow> bool" where
  "session_inv S s \<longleftrightarrow> (\<exists>ps. sent_bytes (ss_sender s) = concat (map (wire_image (se_mapi S)) ps) \<and>
     concat (map pkg_message ps) = ss_sent s \<and>
     entry_env.link_inv (se_conn S) (se_on_strand S) (sent_bytes (ss_sender s)) (ss_conn s) \<and>
     ss_taken s \<le> length (sent_bytes (ss_sender s)) \<and>
     (en_connection_is_active (ss_receiver s) \<longrightarrow>
       received S ps (take (ss_taken s) (sent_bytes (ss_sender s))) (ss_receiver s)))"

lemma received_more:
  assumes "received S ps bytes r"
  shows "received S (ps @ qs) bytes r"
proof -
  from assms obtain k rest where k: "input_ready r rest" "en_cfg r = se_receiver_cfg S" "k \<le> length ps"
      "delivered r = concat (map pkg_message (take k ps))"
      "bytes = concat (map (wire_image (se_mapi S)) (take k ps)) @ rest"
      "case drop k ps of [] \<Rightarrow> rest = [] | p # _ \<Rightarrow> length rest < length (wire_image (se_mapi S) p)"
    unfolding received_def by blast
  have "case drop k (ps @ qs) of [] \<Rightarrow> rest = [] | p # _ \<Rightarrow> length rest < length (wire_image (se_mapi S) p)"
    using k(3,6) wire_image_nonempty [of "se_mapi S"] by (auto split: list.splits)
  with k show ?thesis unfolding received_def by (intro exI [of _ k] exI [of _ rest]) simp
qed

lemma received_frame: "received S ps bytes r \<Longrightarrow> frame r r' \<Longrightarrow> received S ps bytes r'"
  unfolding received_def frame_def input_ready_def by (elim exE conjE) (intro exI conjI, simp_all)

lemma says_sent_bytes:
  "says mapi qs e e' \<Longrightarrow> sent_bytes e' = sent_bytes e @ concat (map (wire_image mapi) qs)"
  "says mapi qs e e' \<Longrightarrow> concat (map event_bytes (new_events e e')) = concat (map (wire_image mapi) qs)"
  "says mapi qs e e' \<Longrightarrow> \<forall>ev\<in>set (new_events e e'). event_ok ev"
  by (auto simp: says_def sent_bytes_def new_events_def)

lemma sender_step_inv:
  assumes "entry_env (se_conn S)" "session_inv S s" "says (se_mapi S) qs (ss_sender s) e'"
    and "performs (se_on_strand S) (se_conn S) (new_events (ss_sender s) e') (ss_conn s) = Some c'"
  shows "session_inv S (s\<lparr>ss_sender := e', ss_conn := c', ss_sent := ss_sent s @ concat (map pkg_message qs)\<rparr>)"
proof -
  obtain ps where ps: "sent_bytes (ss_sender s) = concat (map (wire_image (se_mapi S)) ps)"
      "concat (map pkg_message ps) = ss_sent s"
      "entry_env.link_inv (se_conn S) (se_on_strand S) (sent_bytes (ss_sender s)) (ss_conn s)"
      "ss_taken s \<le> length (sent_bytes (ss_sender s))"
      "en_connection_is_active (ss_receiver s) \<longrightarrow>
        received S ps (take (ss_taken s) (sent_bytes (ss_sender s))) (ss_receiver s)"
    using assms(2) unfolding session_inv_def by blast
  note new = says_sent_bytes [OF assms(3)]
  have "entry_env.link_inv (se_conn S) (se_on_strand S) (sent_bytes e') c'"
    using entry_env.performs_link [OF assms(1,4) new(3) ps(3)] new(1,2) by simp
  then show ?thesis
    using ps received_more new(1) unfolding session_inv_def by (intro exI [of _ "ps @ qs"]) auto
qed

lemma delivered_wire_events [simp]:
  "concat (map event_message (concat (map wire_events ps))) = concat (map pkg_message ps)"
  by (induction ps) simp_all

text \<open>Reading one buffer more.\<close>

lemma received_step:
  assumes "message_parser (ea_parse (se_receiver_api S)) decode"
    and "\<forall>x\<in>set (concat (map pkg_message ps)). message_fits S decode L x" and "12 \<le> L" "L + se_max_read S < 2 ^ 31"
    and "received S ps bytes r" "en_connection_is_active r"
    and "prefix (bytes @ sb_view buf) (concat (map (wire_image (se_mapi S)) ps))"
    and "sb_wf buf" "sb_size buf \<le> se_max_read S" "handle_input (se_receiver_api S) now r buf = Some r'"
  shows "received S ps (bytes @ sb_view buf) r'"
proof -
  obtain k rest where k: "input_ready r rest" "en_cfg r = se_receiver_cfg S" "k \<le> length ps"
      "delivered r = concat (map pkg_message (take k ps))"
      "bytes = concat (map (wire_image (se_mapi S)) (take k ps)) @ rest"
      "case drop k ps of [] \<Rightarrow> rest = [] | p # _ \<Rightarrow> length rest < length (wire_image (se_mapi S) p)"
    using assms(5) unfolding received_def by blast
  obtain tail where tail: "concat (map (wire_image (se_mapi S)) ps) = bytes @ sb_view buf @ tail"
    using assms(7) by (auto simp: prefix_def)
  have split: "concat (map (wire_image (se_mapi S)) ps) =
      concat (map (wire_image (se_mapi S)) (take k ps)) @ concat (map (wire_image (se_mapi S)) (drop k ps))"
    by (metis append_take_drop_id concat_append map_append)
  have "\<exists>j e' rest'. entry_feed (se_receiver_api S) [(now, buf)] r = Some e' \<and> en_connection_is_active e' \<and>
      en_cfg e' = en_cfg r \<and> en_out e' = en_out r @ concat (map wire_events (take j (drop k ps))) \<and>
      input_ready e' rest' \<and> j \<le> length (drop k ps) \<and>
      rest @ fed_bytes [(now, buf)] = concat (map (wire_image (se_mapi S)) (take j (drop k ps))) @ rest' \<and>
      (case drop j (drop k ps) of [] \<Rightarrow> rest' = [] | p # _ \<Rightarrow> length rest' < length (wire_image (se_mapi S) p))"
  proof (rule message_parser.feed_consumes [OF assms(1) k(1)])
    show "rest @ fed_bytes [(now, buf)] @ tail = concat (map (wire_image (se_mapi S)) (drop k ps))"
      using tail split k(5) by simp
    show "wire_ok (se_receiver_api S) decode (se_mapi S) (en_cfg r) p \<and> length (wire_image (se_mapi S) p) \<le> L"
      if "p \<in> set (drop k ps)" for p
    proof -
      have "p \<in> set ps" using that by (rule in_set_dropD)
      then have "\<forall>x\<in>set (pkg_message p). message_fits S decode L x" using assms(2) by auto
      then show ?thesis using assms(3) k(2) by (cases p) (auto simp: message_fits_def sizeof_pkg_header_def)
    qed
  qed (use assms k in auto)
  then obtain j rest' where j: "en_cfg r' = en_cfg r" "input_ready r' rest'" "j \<le> length (drop k ps)"
      "en_out r' = en_out r @ concat (map wire_events (take j (drop k ps)))"
      "rest @ sb_view buf = concat (map (wire_image (se_mapi S)) (take j (drop k ps))) @ rest'"
      "case drop j (drop k ps) of [] \<Rightarrow> rest' = [] | p # _ \<Rightarrow> length rest' < length (wire_image (se_mapi S) p)"
    using assms(10) by auto
  have "delivered r' = delivered r @ concat (map pkg_message (take j (drop k ps)))"
    using j(4) by (simp add: delivered_def)
  moreover have take: "take (k + j) ps = take k ps @ take j (drop k ps)" by (rule take_add)
  moreover have "drop j (drop k ps) = drop (k + j) ps" by (simp add: add.commute)
  ultimately show ?thesis
    using j k unfolding received_def
    by (intro exI [of _ "k + j"] exI [of _ rest'] conjI) simp_all
qed

lemma read_step_inv:
  assumes "entry_env (se_conn S)" "session_inv S s" "message_parser (ea_parse (se_receiver_api S)) decode"
    and "\<forall>x\<in>set (ss_sent s). message_fits S decode L x" "12 \<le> L" "L + se_max_read S < 2 ^ 31"
    and "sb_wf buf" "sb_size buf \<le> se_max_read S" "prefix (sb_view buf) (drop (ss_taken s) (c_wire (ss_conn s)))"
    and "handle_input (se_receiver_api S) now (ss_receiver s) buf = Some r'"
  shows "session_inv S (s\<lparr>ss_taken := ss_taken s + sb_size buf, ss_receiver := r'\<rparr>)"
proof -
  let ?sent = "sent_bytes (ss_sender s)"
  obtain ps where ps: "?sent = concat (map (wire_image (se_mapi S)) ps)" "concat (map pkg_message ps) = ss_sent s"
      "entry_env.link_inv (se_conn S) (se_on_strand S) ?sent (ss_conn s)" "ss_taken s \<le> length ?sent"
      "en_connection_is_active (ss_receiver s) \<longrightarrow> received S ps (take (ss_taken s) ?sent) (ss_receiver s)"
    using assms(2) unfolding session_inv_def by blast
  have "prefix (c_wire (ss_conn s)) ?sent" by (rule entry_env.link_inv_wire [OF assms(1) ps(3)])
  then obtain more where "?sent = c_wire (ss_conn s) @ more" by (auto simp: prefix_def)
  then have "prefix (sb_view buf) (drop (ss_taken s) ?sent)"
    using assms(9) by (auto simp: prefix_def)
  then obtain z where z: "drop (ss_taken s) ?sent = sb_view buf @ z" by (auto simp: prefix_def)
  have len: "length (sb_view buf) = sb_size buf" using assms(7) by (rule sb_view_length)
  have taken: "take (ss_taken s + sb_size buf) ?sent = take (ss_taken s) ?sent @ sb_view buf"
    unfolding take_add z by (simp add: len)
  have "ss_taken s + sb_size buf \<le> length ?sent"
    using arg_cong [OF z, of length] len ps(4) by simp
  moreover have "received S ps (take (ss_taken s) ?sent @ sb_view buf) r'" if "en_connection_is_active r'"
  proof (rule received_step [OF assms(3) _ assms(5,6) _ _ _ assms(7,8,10)])
    show act: "en_connection_is_active (ss_receiver s)"
      using handle_input_answers [OF assms(10)] that by (simp add: answers_def)
    with ps(5) show "received S ps (take (ss_taken s) ?sent) (ss_receiver s)" by blast
    show "prefix (take (ss_taken s) ?sent @ sb_view buf) (concat (map (wire_image (se_mapi S)) ps))"
      using ps(1) taken by (metis take_is_prefix)
    show "\<forall>x\<in>set (concat (map pkg_message ps)). message_fits S decode L x" using assms(4) ps(2) by simp
  qed
  ultimately show ?thesis using ps taken unfolding session_inv_def by (intro exI [of _ ps]) simp
qed

lemma start_inv:
  fixes sender :: "'m entry"
  assumes "entry_env (se_conn S)" "sender = fresh_entry cfg sh cap now" "0 < cap'"
    and "performs (se_on_strand S) (se_conn S) (en_out sender) (connection_ctor (se_conn S) ccfg inp shut) = Some c"
  shows "session_inv S \<lparr>ss_sender = sender, ss_conn = c, ss_taken = 0,
    ss_receiver = fresh_entry (se_receiver_cfg S) sh' cap' now', ss_sent = []\<rparr>"
proof -
  have ok: "\<forall>ev\<in>set (en_out sender). event_ok ev" "sent_bytes sender = []"
    by (simp_all add: assms(2) fresh_entry_sent)
      (simp add: init_underlying_connection_def entry_ctor_def update_last_input_at_def
        schedule_next_heartbeat_check_def Let_def)
  have "entry_env.link_inv (se_conn S) (se_on_strand S) (sent_bytes sender) c"
    using entry_env.performs_link [OF assms(1,4) ok(1) entry_env.ctor_link [OF assms(1)]] by (simp add: sent_bytes_def)
  moreover have "received S [] [] (fresh_entry (se_receiver_cfg S) sh' cap' now')"
    using fresh_entry_ready [OF assms(3)] unfolding received_def
    by (intro exI [of _ 0] exI [of _ "[]"])
      (simp add: delivered_def init_underlying_connection_def entry_ctor_def update_last_input_at_def
        schedule_next_heartbeat_check_def Let_def)
  ultimately show ?thesis using ok(2) unfolding session_inv_def by (intro exI [of _ "[]"]) simp
qed

lemma session_reachable_inv:
  assumes "entry_env (se_conn S)" "message_parser (ea_parse (se_receiver_api S)) decode"
    and "12 \<le> L" "L + se_max_read S < 2 ^ 31" "session_reachable S s"
    and "\<forall>x\<in>set (ss_sent s). message_fits S decode L x"
  shows "session_inv S s"
  using assms(5,6)
proof (induction rule: session_reachable.induct)
  case (sr_start sender cfg sh cap now cap' ccfg inp shut c sh' now')
  then show ?case using start_inv [OF assms(1)] by blast
next
  case (sr_sender s ms e' c')
  then have fits: "message_fits S decode L x" if "x \<in> set ms" for x using that by auto
  have "\<forall>x\<in>set ms. case x of (mid, m, att) \<Rightarrow> message_ok (se_mapi S) m \<and> length (serialize (se_mapi S) m) < 2 ^ 32"
    using fits assms(4) by (fastforce simp: message_fits_def)
  then obtain qs where "says (se_mapi S) qs (ss_sender s) e'" "concat (map pkg_message qs) = ms"
    using entry_does_says [OF sr_sender(2)] by blast
  then show ?case using sender_step_inv [OF assms(1) _ _ sr_sender(3)] sr_sender.IH sr_sender.prems by fastforce
next
  case (sr_sender_input s now buf e' c')
  obtain qs where qs: "says (se_mapi S) qs (ss_sender s) e'" "concat (map pkg_message qs) = []"
    using answers_says handle_input_answers sr_sender_input(2) by blast
  show ?case
    using sender_step_inv [OF assms(1) _ qs(1) sr_sender_input(3)] sr_sender_input.IH sr_sender_input.prems qs(2) by simp
next
  case (sr_connection s ev c')
  note step = entry_env.step_link [OF assms(1) _ sr_connection(2-4)]
  show ?case using sr_connection.IH sr_connection.prems step unfolding session_inv_def by fastforce
next
  case (sr_read s buf now r')
  then show ?case using read_step_inv [OF assms(1) _ assms(2) _ assms(3,4)] by simp
next
  case (sr_receiver s ms r')
  have fr: "frame (ss_receiver s) r'" using entry_does_frame sr_receiver(2) by blast
  show ?case
    using sr_receiver.IH sr_receiver.prems received_frame [OF _ fr] fr
    unfolding session_inv_def by (fastforce simp: frame_def)
qed

section \<open>From one user to the other\<close>

text \<open>
  C1. From one user to the other: the messages that have reached the handler of the receiving entry are at
  every moment the first ones of the messages the user of the sending entry has sent, in the same order,
  each once, with the attached bytes - through the entry, the strand, the write queue of the connection
  with its aggressive, gathering and asynchronous writes, partial writes, timeouts and shutdowns, any
  cutting of the bytes on the way, the ring of buffers and the loop over the input - as long as the
  receiving entry was not closed.
\<close>

theorem messages_arrive_in_order:
  assumes "entry_env (se_conn S)" "message_parser (ea_parse (se_receiver_api S)) decode"
    and "12 \<le> L" "L + se_max_read S < 2 ^ 31" "session_reachable S s"
    and "\<forall>x\<in>set (ss_sent s). message_fits S decode L x" "en_connection_is_active (ss_receiver s)"
  shows "prefix (delivered (ss_receiver s)) (ss_sent s)"
proof -
  have "session_inv S s" by (rule session_reachable_inv [OF assms(1-6)])
  then obtain ps k where "concat (map pkg_message ps) = ss_sent s"
      "delivered (ss_receiver s) = concat (map pkg_message (take k ps))"
    using assms(7) by (auto simp: session_inv_def received_def)
  then show ?thesis
    by (metis append_take_drop_id concat_append map_append prefixI)
qed

text \<open>
  C2. Nothing stays behind: when the connection of the sender works and is idle, and the peer has read
  what is on the wire, every message the user sent has reached the handler of the receiving entry.
\<close>

theorem idle_session_delivered_all:
  assumes "entry_env (se_conn S)" "message_parser (ea_parse (se_receiver_api S)) decode"
    and "12 \<le> L" "L + se_max_read S < 2 ^ 31" "session_reachable S s"
    and "\<forall>x\<in>set (ss_sent s). message_fits S decode L x" "en_connection_is_active (ss_receiver s)"
    and "c_schedule_for_write_is_enabled (ss_conn s)" "c_async (ss_conn s) = None" "c_strand (ss_conn s) = []"
    and "ss_taken s = length (c_wire (ss_conn s))"
  shows "delivered (ss_receiver s) = ss_sent s"
proof -
  have "session_inv S s" by (rule session_reachable_inv [OF assms(1-6)])
  then obtain ps where ps: "sent_bytes (ss_sender s) = concat (map (wire_image (se_mapi S)) ps)"
      "concat (map pkg_message ps) = ss_sent s"
      "entry_env.link_inv (se_conn S) (se_on_strand S) (sent_bytes (ss_sender s)) (ss_conn s)"
      "received S ps (take (ss_taken s) (sent_bytes (ss_sender s))) (ss_receiver s)"
    using assms(7) unfolding session_inv_def by blast
  have "c_wire (ss_conn s) = sent_bytes (ss_sender s)"
    by (rule entry_env.link_inv_all_sent [OF assms(1) ps(3) assms(8-10)])
  then have "received S ps (concat (map (wire_image (se_mapi S)) ps)) (ss_receiver s)"
    using ps(1,4) assms(11) by simp
  then obtain k where "delivered (ss_receiver s) = concat (map pkg_message (take k ps))" "take k ps = ps"
    unfolding received_def using nothing_left by blast
  with ps(2) show ?thesis by simp
qed

section \<open>A concrete session\<close>

text \<open>One message of two bytes over a socket with room; the entry runs on the strand of its connection.\<close>

definition demo_session :: "(byte list, simple_buffer) session_env" where
  "demo_session = \<lparr>se_conn = plain_env 64 (\<lambda>_. 100) simple_buffer_driver, se_on_strand = True, se_sender_api = sample_api,
     se_receiver_api = sample_api, se_mapi = sample_mapi, se_receiver_cfg = default_entry_cfg, se_max_read = 100\<rparr>"

definition demo_sender :: "byte list entry" where
  "demo_sender = fresh_entry default_entry_cfg Sh_handler 8 0"

definition demo_image :: "byte list" where
  "demo_image = [0, 3, 7, 0, 2, 0, 0, 0, 0, 0, 0, 0, 1, 2]"

definition demo_calls :: "byte list entry_event list" where
  "demo_calls = [Ee_send Op_schedule_send [demo_image]]"

lemma demo_image_eq: "wire_image sample_mapi (Wp_message 7 [1, 2] []) = demo_image"
  by code_simp

lemma demo_out: "en_out demo_sender = [Ee_start_reading, Ee_timer_expires_after (msec 10000)]"
  by (simp add: demo_sender_def init_underlying_connection_def entry_ctor_def update_last_input_at_def
      schedule_next_heartbeat_check_def get_initiate_heartbeat_timeout_def default_entry_cfg_def default_heartbeat_params_def)

lemma demo_send: "entry_send sample_mapi demo_sender 7 [1, 2] = Some (emit demo_calls demo_sender)"
  using image_bytes_eq [of sample_mapi "[1, 2]" 7 0] demo_image_eq
  by (simp add: demo_calls_def entry_send_def schedule_send_raw_bufs_def demo_sender_def message_header_def)
    (simp add: sample_mapi_def message_ok_def)

definition demo_link :: "simple_buffer conn" where
  "demo_link = the (performs True (se_conn demo_session) (en_out demo_sender)
     (connection_ctor (se_conn demo_session) (default_connection_cfg\<lparr>m_input_buffer_size := 4\<rparr>) 0 None))"

definition demo_link' :: "simple_buffer conn" where
  "demo_link' = the (performs True (se_conn demo_session) demo_calls demo_link)"

lemmas session_eval = demo_calls_def demo_session_def demo_out start_reading_def start_reading_work_def initiate_read_def
  schedule_send_def schedule_send_impl_def out_bufs_def conn_eval

lemma demo_link_eq: "performs True (se_conn demo_session) (en_out demo_sender)
     (connection_ctor (se_conn demo_session) (default_connection_cfg\<lparr>m_input_buffer_size := 4\<rparr>) 0 None) = Some demo_link"
  by (simp add: demo_link_def session_eval)

lemma demo_link'_eq: "performs True (se_conn demo_session) demo_calls demo_link = Some demo_link'"
  "c_wire demo_link' = demo_image" "c_schedule_for_write_is_enabled demo_link'" "c_async demo_link' = None" "c_strand demo_link' = []"
  by (simp_all add: demo_link'_def demo_link_def session_eval demo_image_def)

definition demo_start :: "(byte list, simple_buffer) session" where
  "demo_start = \<lparr>ss_sender = demo_sender, ss_conn = demo_link, ss_taken = 0,
     ss_receiver = fresh_entry default_entry_cfg Sh_handler 8 0, ss_sent = []\<rparr>"

definition demo_sent :: "(byte list, simple_buffer) session" where
  "demo_sent = demo_start\<lparr>ss_sender := emit demo_calls demo_sender, ss_conn := demo_link', ss_sent := [(7, [1, 2], [])]\<rparr>"

lemma demo_session_simps [simp]:
  "se_on_strand demo_session" "se_receiver_cfg demo_session = default_entry_cfg" "se_mapi demo_session = sample_mapi"
  "se_receiver_api demo_session = sample_api" "se_max_read demo_session = 100"
  by (simp_all add: demo_session_def)

lemma demo_session_env: "entry_env (se_conn demo_session)"
    "message_parser (ea_parse (se_receiver_api demo_session)) (\<lambda>mid. Some)"
    "12 \<le> (14 :: nat)" "14 + se_max_read demo_session < 2 ^ 31"
  using plain_env_entry [OF simple_drv.buffer_driver_laws_axioms, of 64] sample_parser
  by (simp_all add: demo_session_def)

lemma demo_sent_reachable: "session_reachable demo_session demo_sent"
proof -
  have "session_reachable demo_session demo_start"
    using sr_start [where S = demo_session and sender = demo_sender and cap' = 8 and sh' = Sh_handler and now' = 0,
        OF demo_sender_def _ _] demo_link_eq
    by (simp add: demo_start_def)
  moreover have "entry_does sample_mapi demo_sender [(7, [1, 2], [])] (emit demo_calls demo_sender)"
    using ed_send [OF demo_send] by (simp add: demo_sender_def)
  moreover have "new_events demo_sender (emit demo_calls demo_sender) = demo_calls"
    by (simp add: new_events_def)
  ultimately show ?thesis
    using sr_sender [of demo_session demo_start] demo_link'_eq(1) by (simp add: demo_start_def demo_sent_def)
qed

lemma demo_fits: "\<forall>x\<in>set (ss_sent demo_sent). message_fits demo_session (\<lambda>mid. Some) 14 x"
  by (simp add: demo_sent_def message_fits_def sample_api_def sample_mapi_def message_ok_def sizeof_pkg_header_def
      default_entry_cfg_def)

text \<open>The peer reads the fourteen bytes at once.\<close>

lemma demo_read:
  obtains s where "session_reachable demo_session s" "ss_sent s = [(7, [1, 2], [])]" "ss_conn s = demo_link'"
    "en_connection_is_active (ss_receiver s)" "ss_taken s = length (c_wire demo_link')"
proof -
  let ?r = "fresh_entry default_entry_cfg Sh_handler 8 0 :: byte list entry"
  let ?buf = "sb_of_bytes demo_image"
  have "\<exists>k e rest. entry_feed sample_api [(5, ?buf)] ?r = Some e \<and> en_connection_is_active e \<and> en_cfg e = en_cfg ?r \<and>
      en_out e = en_out ?r @ concat (map wire_events (take k [Wp_message 7 [1, 2] []])) \<and> input_ready e rest \<and>
      k \<le> length [Wp_message 7 [1, 2 :: byte] []] \<and>
      [] @ fed_bytes [(5, ?buf)] = concat (map (wire_image sample_mapi) (take k [Wp_message 7 [1, 2] []])) @ rest \<and>
      (case drop k [Wp_message 7 [1, 2] []] of [] \<Rightarrow> rest = [] | p # _ \<Rightarrow> length rest < length (wire_image sample_mapi p))"
  proof (rule message_parser.feed_consumes [OF sample_parser fresh_entry_ready, where L = 14 and M = 14 and tail = "[]"])
    show "wire_ok sample_api (\<lambda>mid. Some) sample_mapi (en_cfg ?r) p \<and> length (wire_image sample_mapi p) \<le> 14"
      if "p \<in> set [Wp_message 7 [1, 2] []]" for p
      using that by (simp add: sample_api_def sample_mapi_def sizeof_pkg_header_def default_entry_cfg_def)
    show "sb_wf (snd b) \<and> sb_size (snd b) \<le> 14" if "b \<in> set [(5, ?buf)]" for b :: "int \<times> simple_buffer"
      using that by (simp add: demo_image_def)
  qed (use demo_image_eq in \<open>simp_all add: demo_image_def\<close>)
  then obtain e where e: "handle_input sample_api 5 ?r ?buf = Some e" "en_connection_is_active e"
    by (auto split: bind_splits)
  have "session_reachable demo_session (demo_sent\<lparr>ss_taken := ss_taken demo_sent + sb_size ?buf, ss_receiver := e\<rparr>)"
    by (rule sr_read [OF demo_sent_reachable, where now = 5])
      (use e(1) in \<open>simp_all add: demo_sent_def demo_start_def demo_link'_eq(2) demo_image_def\<close>)
  then show thesis
    using that e(2) by (simp add: demo_sent_def demo_start_def demo_link'_eq(2))
qed

theorem messages_arrive_in_order_witness:
  "prefix (delivered (ss_receiver demo_sent)) [(7, [1, 2 :: byte], [])]"
proof -
  have "prefix (delivered (ss_receiver demo_sent)) (ss_sent demo_sent)"
    by (rule messages_arrive_in_order [OF demo_session_env demo_sent_reachable demo_fits])
      (simp add: demo_sent_def demo_start_def)
  then show ?thesis by (simp add: demo_sent_def)
qed

theorem idle_session_delivered_all_witness:
  "\<exists>s. session_reachable demo_session s \<and> delivered (ss_receiver s) = [(7, [1, 2], [])]"
proof -
  obtain s where s: "session_reachable demo_session s" "ss_sent s = [(7, [1, 2], [])]" "ss_conn s = demo_link'"
      "en_connection_is_active (ss_receiver s)" "ss_taken s = length (c_wire demo_link')"
    by (rule demo_read)
  have "delivered (ss_receiver s) = ss_sent s"
    by (rule idle_session_delivered_all [OF demo_session_env s(1)])
      (use s demo_fits in \<open>simp_all add: demo_link'_eq demo_sent_def\<close>)
  with s(1,2) show ?thesis by auto
qed

end
