(* ===== verification/BinaryViewFmt.thy ===== *)
theory BinaryViewFmt
  imports Prelude "HOL-Library.Char_ord"
begin

text \<open>
  \<open>opio/include/opio/binary_view_fmt.hpp\<close>: the formatter that dumps a block of bytes for the log, with
  what it uses of fmt (upper case hexadecimal numbers with zero padding, right alignment) and of the
  standard library (\<open>std::isprint\<close>). The dump can be read back, its columns are aligned, and it is
  defined exactly when no byte becomes a negative \<open>char\<close>.
\<close>

section \<open>Formatting numbers\<close>

definition digit_char :: "nat \<Rightarrow> char" where
  "digit_char d = (if d < 10 then char_of (48 + d) else char_of (55 + d))"

fun fmt_base :: "nat \<Rightarrow> nat \<Rightarrow> string" where
  "fmt_base base n = (if base < 2 \<or> n < base then [digit_char n] else fmt_base base (n div base) @ [digit_char (n mod base)])"

declare fmt_base.simps [simp del]

text \<open>The format specifications \<open>{:04X}\<close> and \<open>{:02X}\<close>, and \<open>{}\<close> for a size.\<close>

definition fmt_X :: "nat \<Rightarrow> nat \<Rightarrow> string" where
  "fmt_X width n = (let s = fmt_base 16 n in replicate (width - length s) CHR ''0'' @ s)"

definition fmt_d :: "nat \<Rightarrow> string" where
  "fmt_d n = fmt_base 10 n"

text \<open>The format specification \<open>{:>{}}\<close>.\<close>

definition right_align :: "nat \<Rightarrow> string \<Rightarrow> string" where
  "right_align width s = replicate (width - length s) CHR '' '' @ s"

section \<open>Printable characters\<close>

text \<open>
  \<open>std::isprint\<close> in the C locale. Its argument is an \<open>int\<close> that has to be \<open>EOF\<close> or the value of an
  \<open>unsigned char\<close>; for any other the behaviour is undefined.
\<close>

definition is_print :: "int \<Rightarrow> bool option" where
  "is_print c =
     (if c = -1 then Some False
      else if 0 \<le> c \<and> c \<le> 255 then Some (32 \<le> c \<and> c \<le> 126)
      else None)"

text \<open>\<open>static_cast< char >\<close>; whether \<open>char\<close> is signed depends on the platform.\<close>

definition char_value :: "bool \<Rightarrow> byte \<Rightarrow> int" where
  "char_value char_is_signed b = (if char_is_signed then sint b else uint b)"

definition dump_char :: "bool \<Rightarrow> byte \<Rightarrow> char option" where
  "dump_char char_is_signed b = do {
     printable \<leftarrow> is_print (char_value char_is_signed b);
     Some (if printable then char_of (unat b) else CHR ''.'') }"

section \<open>The dump\<close>

definition max_bytes_to_print :: nat where "max_bytes_to_print = 512"
definition max_bytes_in_dump_line :: nat where "max_bytes_in_dump_line = 32"
definition extra_space_after_n_bytes :: nat where "extra_space_after_n_bytes = 8"

definition dump_hex :: "byte list \<Rightarrow> nat \<Rightarrow> nat \<Rightarrow> string" where
  "dump_hex data pos bytes_in_this_line =
     concat (map (\<lambda>i. (if i mod extra_space_after_n_bytes = 0 then '' '' else []) @
                      '' '' @ fmt_X 2 (unat (data ! (pos + i)))) [0..<bytes_in_this_line])"

definition dump_line :: "bool \<Rightarrow> byte list \<Rightarrow> nat \<Rightarrow> nat \<Rightarrow> string option" where
  "dump_line char_is_signed data print_size pos =
     (let bytes_in_this_line = min (print_size - pos) max_bytes_in_dump_line;
          fantom_bytes = (if max_bytes_in_dump_line < print_size
                          then max_bytes_in_dump_line - bytes_in_this_line else 0)
      in do {
        chars \<leftarrow> those (map (\<lambda>i. dump_char char_is_signed (data ! (pos + i))) [0..<bytes_in_this_line]);
        Some (CHR 0x0A # fmt_X 4 pos @ '':'' @ dump_hex data pos bytes_in_this_line @
              '' '' @ right_align (1 + fantom_bytes * 3 + fantom_bytes div extra_space_after_n_bytes) ''|'' @ '' '' @
              chars) })"

function dump_lines :: "bool \<Rightarrow> byte list \<Rightarrow> nat \<Rightarrow> nat \<Rightarrow> string option" where
  "dump_lines char_is_signed data print_size pos =
     (if pos < print_size then do {
        line \<leftarrow> dump_line char_is_signed data print_size pos;
        rest \<leftarrow> dump_lines char_is_signed data print_size (pos + max_bytes_in_dump_line);
        Some (line @ rest) }
      else Some [])"
  by pat_completeness auto
termination
  by (relation "measure (\<lambda>(_, _, print_size, pos). print_size - pos)") (auto simp: max_bytes_in_dump_line_def)

declare dump_lines.simps [simp del]

text \<open>\<open>ptr\<close> is what fmt makes of the address of the data.\<close>

definition binary_view_format :: "bool \<Rightarrow> string \<Rightarrow> byte list \<Rightarrow> string option" where
  "binary_view_format char_is_signed ptr data =
     (let print_size = min (length data) max_bytes_to_print
      in do {
        dump \<leftarrow> dump_lines char_is_signed data print_size 0;
        Some (''ptr='' @ ptr @ '', size='' @ fmt_d (length data) @ '':'' @ dump) })"

section \<open>Reading a dump\<close>

text \<open>The lines of a text, and the bytes of a line: the pairs of digits between the position and the bar.\<close>

fun split_lines :: "string \<Rightarrow> string list" where
  "split_lines [] = [[]]"
| "split_lines (c # cs) = (if c = CHR 0x0A then [] # split_lines cs else (c # hd (split_lines cs)) # tl (split_lines cs))"

definition is_hex :: "char \<Rightarrow> bool" where
  "is_hex c \<longleftrightarrow> (let n = of_char c :: nat in 48 \<le> n \<and> n \<le> 57 \<or> 65 \<le> n \<and> n \<le> 70)"

definition digit_value :: "char \<Rightarrow> nat" where
  "digit_value c = (let n = of_char c in if n < 58 then n - 48 else n - 55)"

fun read_pairs :: "string \<Rightarrow> byte list" where
  "read_pairs (a # b # cs) = word_of_nat (16 * digit_value a + digit_value b) # read_pairs cs"
| "read_pairs cs = []"

definition before_bar :: "string \<Rightarrow> string" where
  "before_bar line = takeWhile (\<lambda>c. c \<noteq> CHR ''|'') line"

definition read_line :: "string \<Rightarrow> byte list" where
  "read_line line = read_pairs (filter is_hex (drop 5 (before_bar line)))"

definition read_dump :: "string \<Rightarrow> byte list" where
  "read_dump text = concat (map read_line (tl (split_lines text)))"

section \<open>Digits\<close>

lemma of_digit_char: "d < 16 \<Longrightarrow> (of_char (digit_char d) :: nat) = (if d < 10 then 48 + d else 55 + d)"
  by (simp add: digit_char_def)

lemma digit_value_digit_char [simp]: "d < 16 \<Longrightarrow> digit_value (digit_char d) = d"
  by (simp add: digit_value_def of_digit_char)

lemma is_hex_digit_char [simp]: "d < 16 \<Longrightarrow> is_hex (digit_char d)"
  by (simp add: is_hex_def of_digit_char)

lemma not_hex [simp]: "\<not> is_hex CHR '' ''" "\<not> is_hex CHR ''|''" "\<not> is_hex CHR 0x0A"
  by (simp_all add: is_hex_def)

lemma digit_char_line [simp]: "d < 16 \<Longrightarrow> CHR 0x0A \<noteq> digit_char d"
  using is_hex_digit_char [of d] not_hex(3) by metis

lemma fmt_base_hex: "c \<in> set (fmt_base 16 n) \<Longrightarrow> is_hex c"
proof (induction n rule: less_induct)
  case (less n)
  show ?case
    using less.prems less.IH [of "n div 16"] by (subst (asm) fmt_base.simps) (auto split: if_splits)
qed

lemma char_0: "CHR ''0'' = digit_char 0"
  by code_simp

lemma fmt_X_hex: "c \<in> set (fmt_X w n) \<Longrightarrow> is_hex c"
  by (auto simp: fmt_X_def char_0 Let_def dest: fmt_base_hex)

lemma fmt_X_2: "n < 256 \<Longrightarrow> fmt_X 2 n = [digit_char (n div 16), digit_char (n mod 16)]"
proof (cases "n < 16")
  case True
  then show ?thesis by (simp add: fmt_X_def fmt_base.simps char_0 numeral_2_eq_2)
next
  case False
  assume "n < 256"
  with False show ?thesis by (subst fmt_X_def, subst fmt_base.simps, subst fmt_base.simps) simp
qed

lemma length_fmt_base: "n < 16 ^ Suc k \<Longrightarrow> length (fmt_base 16 n) \<le> Suc k"
proof (induction k arbitrary: n)
  case 0
  then show ?case by (simp add: fmt_base.simps)
next
  case (Suc k)
  then have "n div 16 < 16 ^ Suc k" by (simp add: less_mult_imp_div_less mult.commute)
  then show ?case using Suc.IH [of "n div 16"] by (subst fmt_base.simps) simp
qed

lemma length_fmt_X_4: "n < 65536 \<Longrightarrow> length (fmt_X 4 n) = 4"
  using length_fmt_base [of n 3] by (simp add: fmt_X_def Let_def)

lemma read_pairs_bytes:
  "read_pairs (concat (map (\<lambda>b. [digit_char (unat b div 16), digit_char (unat b mod 16)]) bs)) = bs"
proof (induction bs)
  case (Cons b bs)
  have "unat b < 2 ^ LENGTH(8)" by (rule unsigned_less)
  then have "unat b div 16 < 16" by (simp add: less_mult_imp_div_less)
  with Cons show ?case by simp
qed simp

section \<open>Lines\<close>

lemma split_lines_nonempty [simp]: "split_lines cs \<noteq> []"
  by (cases cs) simp_all

lemma split_lines_plain: "CHR 0x0A \<notin> set l \<Longrightarrow> split_lines l = [l]"
  by (induction l) auto

lemma split_lines_append: "CHR 0x0A \<notin> set l \<Longrightarrow> split_lines (l @ CHR 0x0A # cs) = l # split_lines cs"
  by (induction l) auto

lemma split_lines_concat:
  "CHR 0x0A \<notin> set l \<Longrightarrow> \<forall>x\<in>set ls. CHR 0x0A \<notin> set x \<Longrightarrow>
   split_lines (l @ concat (map ((#) CHR 0x0A) ls)) = l # ls"
  by (induction ls arbitrary: l) (simp_all add: split_lines_plain split_lines_append)

lemma those_eq_Some: "those xs = Some ys \<longleftrightarrow> xs = map Some ys"
  by (induction xs arbitrary: ys) (auto simp: map_eq_Cons_conv split: option.splits)

lemma in_those: "those xs = Some ys \<Longrightarrow> y \<in> set ys \<Longrightarrow> Some y \<in> set xs"
  by (auto simp: those_eq_Some)

lemma dump_char_plain: "dump_char s b = Some c \<Longrightarrow> c \<noteq> CHR 0x0A"
proof (rule notI)
  assume d: "dump_char s b = Some c" "c = CHR 0x0A"
  then have "char_of (unat b) = CHR 0x0A" and "is_print (char_value s b) = Some True"
    by (auto simp: dump_char_def bind_eq_Some_conv split: if_splits)
  then have "(of_char (char_of (unat b) :: char) :: nat) = 10" "32 \<le> char_value s b"
    by (auto simp: is_print_def split: if_splits)
  moreover have "unat b < 2 ^ LENGTH(8)" by (rule unsigned_less)
  ultimately have "unat b = 10" "32 \<le> char_value s b" by simp_all
  then have "b = 10" by (simp add: word_unat_eq_iff)
  with \<open>32 \<le> char_value s b\<close> show False by (cases s) (simp_all add: char_value_def)
qed

section \<open>One line\<close>

lemma byte_pair: "fmt_X 2 (unat (b :: byte)) = [digit_char (unat b div 16), digit_char (unat b mod 16)]"
proof -
  have "unat b < 2 ^ LENGTH(8)" by (rule unsigned_less)
  then show ?thesis by (intro fmt_X_2) simp
qed

lemma byte_digits: "unat (b :: byte) div 16 < 16"
proof -
  have "unat b < 2 ^ LENGTH(8)" by (rule unsigned_less)
  then show ?thesis by (simp add: less_mult_imp_div_less)
qed

lemma dump_hex_filter:
  "filter is_hex (dump_hex data pos n) =
   concat (map (\<lambda>b. [digit_char (unat b div 16), digit_char (unat b mod 16)]) (map (\<lambda>i. data ! (pos + i)) [0..<n]))"
  by (induction n) (auto simp: dump_hex_def byte_pair byte_digits)

lemma length_dump_hex: "length (dump_hex data pos n) = 3 * n + (n + 7) div 8"
proof (induction n)
  case (Suc n)
  have "(Suc n + 7) div 8 = (n + 7) div 8 + (if n mod 8 = 0 then 1 else 0)" by presburger
  with Suc show ?case by (simp add: dump_hex_def byte_pair extra_space_after_n_bytes_def)
qed (simp add: dump_hex_def)

lemma dump_hex_chars: "c \<in> set (dump_hex data pos n) \<Longrightarrow> is_hex c \<or> c = CHR '' ''"
  by (auto simp: dump_hex_def dest: fmt_X_hex split: if_splits)

text \<open>A line is its position, the digits, the bar at the end of the padding, and the characters.\<close>

lemma dump_line_eq:
  assumes "dump_line s data print_size pos = Some line" "pos < print_size" "print_size \<le> length data" "print_size \<le> 512"
  obtains l where "line = CHR 0x0A # l" "CHR 0x0A \<notin> set l"
    "read_line l = take 32 (drop pos (take print_size data))"
    "32 < print_size \<longrightarrow> length (before_bar l) = 106"
proof -
  define n where "n = min (print_size - pos) 32"
  define f where "f = (if 32 < print_size then 32 - n else 0)"
  define pad where "pad = replicate (f * 3 + f div 8) CHR '' ''"
  obtain chars where chars: "those (map (\<lambda>i. dump_char s (data ! (pos + i))) [0..<n]) = Some chars"
      and line: "line = CHR 0x0A # fmt_X 4 pos @ '':'' @ dump_hex data pos n @ '' '' @ pad @ ''|'' @ '' '' @ chars"
    using assms(1)
    by (auto simp: dump_line_def max_bytes_in_dump_line_def extra_space_after_n_bytes_def right_align_def pad_def
        f_def n_def Let_def bind_eq_Some_conv)
  define left where "left = fmt_X 4 pos @ '':'' @ dump_hex data pos n @ '' '' @ pad"
  define l where "l = left @ ''| '' @ chars"
  have pos: "length (fmt_X 4 pos) = 4" using assms(2,4) by (intro length_fmt_X_4) simp
  have left_chars: "c \<noteq> CHR ''|''" "c \<noteq> CHR 0x0A" if "c \<in> set left" for c
    using that by (auto simp: left_def pad_def dest!: fmt_X_hex dump_hex_chars)
  have bar: "before_bar l = left"
    unfolding before_bar_def l_def using left_chars(1) by (subst takeWhile_append2) simp_all
  have plain: "CHR 0x0A \<notin> set chars"
    using in_those [OF chars, of "CHR 0x0A"] dump_char_plain by (auto dest!: sym [of "Some _"])
  show thesis
  proof (rule that [of l])
    show "line = CHR 0x0A # l" by (simp add: line l_def left_def)
    show "CHR 0x0A \<notin> set l" using plain left_chars(2) by (auto simp: l_def)
    have "filter is_hex (drop 5 left) = filter is_hex (dump_hex data pos n)"
      by (simp add: left_def pos pad_def)
    also have "\<dots> = concat (map (\<lambda>b. [digit_char (unat b div 16), digit_char (unat b mod 16)])
        (map (\<lambda>i. data ! (pos + i)) [0..<n]))" by (rule dump_hex_filter)
    finally have "read_line l = map (\<lambda>i. data ! (pos + i)) [0..<n]"
      by (simp only: read_line_def bar read_pairs_bytes)
    also have "\<dots> = take 32 (drop pos (take print_size data))"
      using assms(2,3) by (intro nth_equalityI) (auto simp: n_def)
    finally show "read_line l = take 32 (drop pos (take print_size data))" .
    show "32 < print_size \<longrightarrow> length (before_bar l) = 106"
    proof
      assume that: "32 < print_size"
      have "\<forall>n\<in>set [0..<33]. (n + 7) div 8 + (32 - n) div 8 = 4" by code_simp
      then have "(n + 7) div 8 + (32 - n) div 8 = 4" "n \<le> 32" by (auto simp: n_def)
      then show "length (before_bar l) = 106"
        using that unfolding bar by (simp add: left_def pos length_dump_hex pad_def f_def)
    qed
  qed
qed

section \<open>The whole dump\<close>

lemma dump_lines_eq:
  assumes "dump_lines s data print_size pos = Some dump" "print_size \<le> length data" "print_size \<le> 512"
  shows "\<exists>ls. dump = concat (map ((#) CHR 0x0A) ls) \<and> (\<forall>l\<in>set ls. CHR 0x0A \<notin> set l) \<and>
    concat (map read_line ls) = drop pos (take print_size data) \<and>
    (32 < print_size \<longrightarrow> (\<forall>l\<in>set ls. length (before_bar l) = 106))"
  using assms
proof (induction s data print_size pos arbitrary: dump rule: dump_lines.induct)
  case (1 s data print_size pos)
  show ?case
  proof (cases "pos < print_size")
    case True
    with 1(2) obtain line rest where line: "dump_line s data print_size pos = Some line"
        "dump_lines s data print_size (pos + max_bytes_in_dump_line) = Some rest" "dump = line @ rest"
      by (subst (asm) dump_lines.simps) (auto simp: bind_eq_Some_conv)
    obtain l where l: "line = CHR 0x0A # l" "CHR 0x0A \<notin> set l"
        "read_line l = take 32 (drop pos (take print_size data))" "32 < print_size \<longrightarrow> length (before_bar l) = 106"
      by (rule dump_line_eq [OF line(1) True 1(3,4)])
    obtain ls where "rest = concat (map ((#) CHR 0x0A) ls)" "\<forall>l\<in>set ls. CHR 0x0A \<notin> set l"
        "concat (map read_line ls) = drop (pos + 32) (take print_size data)"
        "32 < print_size \<longrightarrow> (\<forall>l\<in>set ls. length (before_bar l) = 106)"
      using 1(1) [OF True line(1,2) 1(3,4)] by (auto simp: max_bytes_in_dump_line_def)
    moreover have "take 32 (drop pos (take print_size data)) @ drop (pos + 32) (take print_size data) =
        drop pos (take print_size data)"
      by (metis add.commute append_take_drop_id drop_drop)
    ultimately show ?thesis using l line(3) by (intro exI [of _ "l # ls"]) simp
  next
    case False
    with 1(2) have "dump = []" by (subst (asm) dump_lines.simps) simp
    with False show ?thesis by (intro exI [of _ "[]"]) simp
  qed
qed

lemma fmt_d_plain: "CHR 0x0A \<notin> set (fmt_d n)"
proof -
  have "CHR 0x0A \<notin> set (fmt_base 10 n)"
  proof (induction n rule: less_induct)
    case (less n)
    have "n mod 10 < 16" using mod_less_divisor [of 10 n] by linarith
    then show ?case
      using less.IH [of "n div 10"] by (subst fmt_base.simps) auto
  qed
  then show ?thesis by (simp add: fmt_d_def)
qed

section \<open>When a dump is defined\<close>

lemma sint_byte: "sint (b :: byte) = (if unat b < 128 then int (unat b) else int (unat b) - 256)"
proof -
  define u t where "u = int (unat b)" and "t = sint b"
  have "uint b = sint b mod 256" by (simp add: uint_sint take_bit_eq_mod)
  then have "u = t mod 256" by (simp add: u_def t_def)
  moreover have "- 128 \<le> t" "t < 128" using sint_ge [of b] sint_lt [of b] by (simp_all add: t_def)
  ultimately have "t = (if u < 128 then u else u - 256)"
    using mod_pos_pos_trivial [of t 256] mod_pos_pos_trivial [of "t + 256" 256] by (cases "0 \<le> t") auto
  moreover obtain n where "unat b = n" by simp
  ultimately show ?thesis by (simp add: u_def t_def)
qed

lemma dump_char_undefined: "dump_char s b = None \<longleftrightarrow> s \<and> 128 \<le> unat b \<and> unat b \<noteq> 255"
proof -
  obtain n where n: "unat b = n" by simp
  moreover have "unat b < 2 ^ LENGTH(8)" by (rule unsigned_less)
  moreover have "char_value s b = (if s \<and> 128 \<le> unat b then int (unat b) - 256 else int (unat b))"
    by (simp add: char_value_def sint_byte)
  ultimately show ?thesis
    by (auto simp: dump_char_def is_print_def bind_eq_None_conv split: if_splits)
qed

lemma those_undefined: "those xs = None \<longleftrightarrow> None \<in> set xs"
  by (induction xs) (auto split: option.splits)

lemma in_set_conv_image: "None \<in> set (map f xs) \<longleftrightarrow> (\<exists>x\<in>set xs. f x = None)"
  by (induction xs) auto

lemma dump_line_undefined:
  assumes "pos < print_size" "print_size \<le> length data"
  shows "dump_line s data print_size pos = None \<longleftrightarrow>
    (\<exists>b\<in>set (take 32 (drop pos (take print_size data))). dump_char s b = None)"
proof -
  have "map (\<lambda>i. dump_char s (data ! (pos + i))) [0..<min (print_size - pos) 32] =
      map (dump_char s) (take 32 (drop pos (take print_size data)))"
    using assms by (intro nth_equalityI) auto
  then show ?thesis
    by (simp add: dump_line_def max_bytes_in_dump_line_def Let_def bind_eq_None_conv those_undefined
        in_set_conv_image del: set_map)
qed

lemma dump_lines_undefined:
  "print_size \<le> length data \<Longrightarrow> dump_lines s data print_size pos = None \<longleftrightarrow>
   (\<exists>b\<in>set (drop pos (take print_size data)). dump_char s b = None)"
proof (induction s data print_size pos rule: dump_lines.induct)
  case (1 s data print_size pos)
  show ?case
  proof (cases "pos < print_size")
    case True
    have split: "drop pos (take print_size data) =
        take 32 (drop pos (take print_size data)) @ drop (pos + 32) (take print_size data)"
      by (metis add.commute append_take_drop_id drop_drop)
    have "dump_lines s data print_size pos = None \<longleftrightarrow> dump_line s data print_size pos = None \<or>
        dump_line s data print_size pos \<noteq> None \<and> dump_lines s data print_size (pos + 32) = None"
      using True by (subst dump_lines.simps) (auto simp: bind_eq_None_conv max_bytes_in_dump_line_def)
    then show ?thesis
      using True 1 dump_line_undefined [OF True 1(2), of s]
      by (subst split) (auto simp: max_bytes_in_dump_line_def)
  next
    case False
    then show ?thesis by (subst dump_lines.simps) simp
  qed
qed

lemma format_undefined:
  "binary_view_format s ptr data = None \<longleftrightarrow> (\<exists>b\<in>set (take 512 data). dump_char s b = None)"
  using dump_lines_undefined [of "min (length data) 512" data s 0]
  by (auto simp: binary_view_format_def max_bytes_to_print_def Let_def bind_eq_None_conv min_def split: if_splits)

section \<open>Properties\<close>

text \<open>
  C26. A dump is faithful and tidy: the bytes can be read back from it, the first 512 of them, whatever
  they are; and in a dump of several lines the bar that separates the digits from the characters stands
  in the same column of every line, the last and shorter one included.
\<close>

theorem dump_read_back:
  assumes "binary_view_format char_is_signed ptr data = Some text" "CHR 0x0A \<notin> set ptr"
  shows "read_dump text = take 512 data \<and>
    (32 < length data \<longrightarrow> (\<forall>l\<in>set (tl (split_lines text)). length (before_bar l) = 106))"
proof -
  obtain dump where dump: "dump_lines char_is_signed data (min (length data) 512) 0 = Some dump"
      "text = (''ptr='' @ ptr @ '', size='' @ fmt_d (length data) @ '':'') @ dump"
    using assms(1) by (auto simp: binary_view_format_def max_bytes_to_print_def Let_def bind_eq_Some_conv)
  obtain ls where ls: "dump = concat (map ((#) CHR 0x0A) ls)" "\<forall>l\<in>set ls. CHR 0x0A \<notin> set l"
      "concat (map read_line ls) = take (min (length data) 512) data"
      "32 < min (length data) 512 \<longrightarrow> (\<forall>l\<in>set ls. length (before_bar l) = 106)"
    using dump_lines_eq [OF dump(1)] by auto
  have "tl (split_lines text) = ls"
    unfolding dump(2) ls(1) using assms(2) fmt_d_plain ls(2) by (subst split_lines_concat) auto
  then show ?thesis using ls(3,4) by (simp add: read_dump_def min_def split: if_splits)
qed

theorem dump_read_back_witness:
  "\<exists>text. binary_view_format True ''0x1'' [0x31, 0x0A, 0x7C] = Some text \<and> read_dump text = [0x31, 0x0A, 0x7C]"
proof -
  have "\<not> (\<exists>b\<in>set (take 512 [0x31, 0x0A, 0x7C]). dump_char True b = None)"
    by (simp add: dump_char_undefined)
  then obtain t where t: "binary_view_format True ''0x1'' [0x31, 0x0A, 0x7C] = Some t"
    using format_undefined [of True "''0x1''" "[0x31, 0x0A, 0x7C]"] by auto
  from dump_read_back [OF this] have "read_dump t = [0x31, 0x0A, 0x7C]" by simp
  with t show ?thesis by (intro exI) simp
qed

text \<open>
  Where \<open>char\<close> is signed, the dump of a byte from 128 to 254 among the first 512 passes a negative
  number to \<open>std::isprint\<close>, which is undefined behaviour; for all other data, and wherever \<open>char\<close> is
  unsigned, the dump is defined.
\<close>

lemma dump_undefined_iff:
  "binary_view_format char_is_signed ptr data = None \<longleftrightarrow>
   char_is_signed \<and> (\<exists>b\<in>set (take 512 data). 128 \<le> unat b \<and> unat b \<noteq> 255)"
  by (auto simp: format_undefined dump_char_undefined)

end
