(* ===== verification/BufferFmt.thy ===== *)
theory BufferFmt
  imports BinaryViewFmt HeterogeneousBuffer
begin

text \<open>
  The formatter of \<open>buffer_fmt_integrator_t\<close> in \<open>net/buffer.hpp\<close>, which dumps a buffer for the log, and
  \<open>buf_fmt_integrator\<close> for the kinds of buffers. Its output is that of the formatter of
  \<open>binary_view_fmt_t\<close>, except that the bytes go to \<open>std::isprint\<close> as \<open>unsigned char\<close>, so a dump of a
  buffer is defined for all data.
\<close>

section \<open>The integrator\<close>

text \<open>The bytes, and what fmt makes of their address.\<close>

record buffer_fmt_integrator =
  bf_ptr :: string
  bf_buf :: "byte list"

definition buf_fmt_integrator :: "string \<Rightarrow> byte list \<Rightarrow> buffer_fmt_integrator" where
  "buf_fmt_integrator data bytes = \<lparr>bf_ptr = data, bf_buf = bytes\<rparr>"

definition buf_fmt_integrator_simple :: "string \<Rightarrow> simple_buffer \<Rightarrow> buffer_fmt_integrator" where
  "buf_fmt_integrator_simple data buf = buf_fmt_integrator data (sb_view buf)"

text \<open>For a heterogeneous buffer, the entity afterwards too.\<close>

definition buf_fmt_integrator_hetero :: "string \<Rightarrow> hbuf \<Rightarrow> buffer_fmt_integrator \<times> hbuf" where
  "buf_fmt_integrator_hetero data buf =
     (let (b, buf) = hb_make_asio_const_buffer buf in (buf_fmt_integrator data b, buf))"

section \<open>The formatter\<close>

text \<open>\<open>parse\<close>: the format specification has to be empty. The rest of the format string is left.\<close>

definition buffer_fmt_parse :: "string \<Rightarrow> string + string" where
  "buffer_fmt_parse ctx =
     (case ctx of
        [] \<Rightarrow> Inr ctx
      | c # cs \<Rightarrow> if c \<noteq> CHR ''}'' then Inl ''invalid format'' else Inr ctx)"

text \<open>The two loops over the bytes of a line, and the loop over the lines, each appending to \<open>out\<close>.\<close>

fun buffer_hex_loop :: "byte list \<Rightarrow> nat \<Rightarrow> nat list \<Rightarrow> string \<Rightarrow> string" where
  "buffer_hex_loop data pos [] out = out"
| "buffer_hex_loop data pos (i # is) out =
     (let out = (if i mod extra_space_after_n_bytes = 0 then out @ '' '' else out);
          out = out @ '' '' @ fmt_X 2 (unat (data ! (pos + i)))
      in buffer_hex_loop data pos is out)"

definition isprint_uchar :: "byte \<Rightarrow> bool" where
  "isprint_uchar b = (is_print (uint b) = Some True)"

fun buffer_char_loop :: "byte list \<Rightarrow> nat \<Rightarrow> nat list \<Rightarrow> string \<Rightarrow> string" where
  "buffer_char_loop data pos [] out = out"
| "buffer_char_loop data pos (i # is) out =
     (let out = (if isprint_uchar (data ! (pos + i)) then out @ [char_of (unat (data ! (pos + i)))] else out @ ''.'')
      in buffer_char_loop data pos is out)"

function buffer_line_loop :: "byte list \<Rightarrow> nat \<Rightarrow> nat \<Rightarrow> string \<Rightarrow> string" where
  "buffer_line_loop data print_size pos out =
     (if pos < print_size then
        (let out = out @ CHR 0x0A # fmt_X 4 pos @ '':'';
             bytes_in_this_line = min (print_size - pos) max_bytes_in_dump_line;
             fantom_bytes = (if max_bytes_in_dump_line < print_size
                             then max_bytes_in_dump_line - bytes_in_this_line else 0);
             out = buffer_hex_loop data pos [0..<bytes_in_this_line] out;
             out = out @ '' '' @
               right_align (1 + fantom_bytes * 3 + fantom_bytes div extra_space_after_n_bytes) ''|'' @ '' '';
             out = buffer_char_loop data pos [0..<bytes_in_this_line] out
         in buffer_line_loop data print_size (pos + max_bytes_in_dump_line) out)
      else out)"
  by pat_completeness auto
termination
  by (relation "measure (\<lambda>(_, print_size, pos, _). print_size - pos)") (auto simp: max_bytes_in_dump_line_def)

declare buffer_line_loop.simps [simp del]

definition buffer_format :: "buffer_fmt_integrator \<Rightarrow> string" where
  "buffer_format buf =
     (let print_size = min (length (bf_buf buf)) max_bytes_to_print;
          out = ''ptr='' @ bf_ptr buf @ '', size='' @ fmt_d (length (bf_buf buf)) @ '':''
      in buffer_line_loop (bf_buf buf) print_size 0 out)"

section \<open>The two formatters agree\<close>

lemma buffer_hex_loop_eq:
  "buffer_hex_loop data pos is out =
   out @ concat (map (\<lambda>i. (if i mod extra_space_after_n_bytes = 0 then '' '' else []) @
                      '' '' @ fmt_X 2 (unat (data ! (pos + i)))) is)"
  by (induction "is" arbitrary: out) (simp_all add: Let_def)

lemma dump_char_unsigned: "dump_char False b = Some (if isprint_uchar b then char_of (unat b) else CHR ''.'')"
proof -
  have "uint b < 2 ^ LENGTH(8)" by (rule uint_bounded)
  then have "is_print (uint b) = Some (32 \<le> uint b \<and> uint b \<le> 126)"
    using uint_ge_0 [of b] by (simp add: is_print_def)
  then show ?thesis by (simp add: dump_char_def isprint_uchar_def char_value_def)
qed

lemma buffer_char_loop_eq:
  "those (map (\<lambda>i. dump_char False (data ! (pos + i))) is) = Some cs \<Longrightarrow> buffer_char_loop data pos is out = out @ cs"
  by (induction "is" arbitrary: cs out) (auto simp: dump_char_unsigned Let_def split: option.splits)

lemma buffer_line_loop_eq:
  "dump_lines False data print_size pos = Some dump \<Longrightarrow> buffer_line_loop data print_size pos out = out @ dump"
proof (induction data print_size pos out arbitrary: dump rule: buffer_line_loop.induct)
  case (1 data print_size pos out)
  show ?case
  proof (cases "pos < print_size")
    case True
    with 1(2) obtain line rest where line: "dump_line False data print_size pos = Some line"
        "dump_lines False data print_size (pos + max_bytes_in_dump_line) = Some rest" "dump = line @ rest"
      by (subst (asm) dump_lines.simps) (auto simp: bind_eq_Some_conv)
    then obtain cs where cs: "those (map (\<lambda>i. dump_char False (data ! (pos + i)))
        [0..<min (print_size - pos) max_bytes_in_dump_line]) = Some cs"
      by (auto simp: dump_line_def Let_def bind_eq_Some_conv)
    have "buffer_line_loop data print_size pos out =
        buffer_line_loop data print_size (pos + max_bytes_in_dump_line) (out @ line)"
      using True line(1) cs
      by (subst buffer_line_loop.simps)
        (simp add: dump_line_def Let_def buffer_hex_loop_eq buffer_char_loop_eq [OF cs] dump_hex_def)
    also have "\<dots> = (out @ line) @ rest"
      using 1(1) [OF True refl refl refl refl refl refl line(2)] line(1) cs True
      by (simp add: dump_line_def Let_def buffer_hex_loop_eq buffer_char_loop_eq [OF cs] dump_hex_def)
    finally show ?thesis by (simp add: line(3))
  next
    case False
    with 1(2) show ?thesis
      by (subst buffer_line_loop.simps, subst (asm) dump_lines.simps) simp
  qed
qed

text \<open>The dump of a buffer is the dump of its bytes as a binary view where \<open>char\<close> is unsigned.\<close>

lemma buffer_format_eq: "binary_view_format False (bf_ptr buf) (bf_buf buf) = Some (buffer_format buf)"
proof -
  have "binary_view_format False (bf_ptr buf) (bf_buf buf) \<noteq> None"
    by (simp add: format_undefined dump_char_undefined)
  then obtain dump where "dump_lines False (bf_buf buf) (min (length (bf_buf buf)) max_bytes_to_print) 0 = Some dump"
    by (auto simp: binary_view_format_def Let_def bind_eq_Some_conv)
  then show ?thesis
    by (simp add: binary_view_format_def buffer_format_def Let_def buffer_line_loop_eq)
qed

text \<open>Where both are defined, also on platforms with a signed \<open>char\<close>, the texts are the same.\<close>

lemma buffer_format_agrees:
  assumes "binary_view_format char_is_signed (bf_ptr buf) (bf_buf buf) = Some text"
    and "\<forall>b\<in>set (bf_buf buf). unat b < 128"
  shows "text = buffer_format buf"
proof -
  have "dump_char char_is_signed b = dump_char False b" if "unat b < 128" for b
    using that by (auto simp: dump_char_def char_value_def sint_byte)
  then have same: "map (\<lambda>i. dump_char char_is_signed (bf_buf buf ! (pos + i))) [0..<min (n - pos) max_bytes_in_dump_line] =
      map (\<lambda>i. dump_char False (bf_buf buf ! (pos + i))) [0..<min (n - pos) max_bytes_in_dump_line]"
    if "n \<le> length (bf_buf buf)" for n pos
    using assms(2) that by auto
  have line: "dump_line char_is_signed (bf_buf buf) n pos = dump_line False (bf_buf buf) n pos"
    if "n \<le> length (bf_buf buf)" for n pos
    by (simp only: dump_line_def Let_def same [OF that])
  have "dump_lines char_is_signed (bf_buf buf) n pos = dump_lines False (bf_buf buf) n pos"
    if "n \<le> length (bf_buf buf)" for n pos
    using that
  proof (induction "n - pos" arbitrary: pos rule: less_induct)
    case less
    then have "pos < n \<Longrightarrow> dump_lines char_is_signed (bf_buf buf) n (pos + max_bytes_in_dump_line) =
        dump_lines False (bf_buf buf) n (pos + max_bytes_in_dump_line)"
      by (simp add: max_bytes_in_dump_line_def)
    then show ?case by (subst (1 2) dump_lines.simps) (simp add: line [OF less(2)])
  qed
  then have "binary_view_format char_is_signed (bf_ptr buf) (bf_buf buf) = binary_view_format False (bf_ptr buf) (bf_buf buf)"
    by (simp add: binary_view_format_def Let_def)
  then show ?thesis using assms(1) buffer_format_eq by simp
qed

text \<open>
  Dumping a heterogeneous buffer shows what it would send, and leaves it as it is unless its content is
  adjustable: then the dump adjusts it, as sending does.
\<close>

lemma hetero_dump_adjusts:
  "bf_buf (fst (buf_fmt_integrator_hetero data buf)) = hetero_make_asio_const_buffer buf \<and>
   (snd (buf_fmt_integrator_hetero data buf) = buf \<or>
    (\<exists>b adj. buf = AdjustableSimple b adj \<and>
       snd (buf_fmt_integrator_hetero data buf) = AdjustableSimple (sb_write b 0 (adj (sb_view b))) adj) \<or>
    (\<exists>bs adj. buf = AdjustableOther bs adj \<and> snd (buf_fmt_integrator_hetero data buf) = AdjustableOther (adj bs) adj))"
  by (cases buf) (simp_all add: buf_fmt_integrator_hetero_def buf_fmt_integrator_def hetero_make_asio_const_buffer_def Let_def)

section \<open>Property\<close>

text \<open>
  C25. The text logged for a buffer, which its own three loops build, is what the formatter of a binary view
  makes of the same bytes: for all bytes where \<open>char\<close> is unsigned, and for bytes below 128 where it is signed.
\<close>

theorem buffer_dump_is_view_dump:
  "binary_view_format False (bf_ptr buf) (bf_buf buf) = Some (buffer_format buf) \<and>
   ((\<forall>b\<in>set (bf_buf buf). unat b < 128) \<longrightarrow>
      binary_view_format True (bf_ptr buf) (bf_buf buf) = Some (buffer_format buf))"
proof -
  have "binary_view_format True (bf_ptr buf) (bf_buf buf) = Some (buffer_format buf)"
    if ascii: "\<forall>b\<in>set (bf_buf buf). unat b < 128"
  proof -
    have "\<not> (\<exists>b\<in>set (take 512 (bf_buf buf)). dump_char True b = None)"
      using ascii by (fastforce simp: dump_char_undefined dest: in_set_takeD)
    then obtain t where "binary_view_format True (bf_ptr buf) (bf_buf buf) = Some t"
      using format_undefined [of True "bf_ptr buf" "bf_buf buf"] by auto
    then show ?thesis using buffer_format_agrees [OF _ ascii] by simp
  qed
  then show ?thesis using buffer_format_eq by simp
qed

theorem buffer_dump_is_view_dump_witness:
  "binary_view_format True ''0x1'' [0x31, 0x0A] =
   Some (buffer_format (buf_fmt_integrator_simple ''0x1'' (sb_of_bytes [0x31, 0x0A])))"
  using buffer_dump_is_view_dump [of "buf_fmt_integrator_simple ''0x1'' (sb_of_bytes [0x31, 0x0A])"]
  by (simp add: buf_fmt_integrator_simple_def buf_fmt_integrator_def)

end
