(* ===== verification/EchoServer.thy ===== *)
theory EchoServer
  imports ConnectionIntake
begin

text \<open>
  \<open>input_ctx_t\<close> of \<open>net/tcp/connection.hpp\<close>, what an input handler gets, and the program
  \<open>net/examples/tcp/echo_server.cpp\<close> with it: a connection whose input handler sends what it gets. The two
  directions of a connection together: what goes out is what came in.
\<close>

section \<open>Input handlers\<close>

record input_ctx =
  ic_buffer :: simple_buffer
  ic_next_read_buffer :: "simple_buffer option"

definition input_ctx_new :: "simple_buffer \<Rightarrow> input_ctx" where
  "input_ctx_new buf = \<lparr>ic_buffer = buf, ic_next_read_buffer = None\<rparr>"

definition ctx_next_read_buffer :: "simple_buffer \<Rightarrow> input_ctx \<Rightarrow> input_ctx" where
  "ctx_next_read_buffer buf ctx = ctx\<lparr>ic_next_read_buffer := Some buf\<rparr>"

text \<open>A function on the context and its connection as an input handler of the connection.\<close>

definition call_input_handler ::
  "(input_ctx \<Rightarrow> 'b conn \<Rightarrow> (input_ctx \<times> 'b conn) option) \<Rightarrow>
   nat \<Rightarrow> simple_buffer \<Rightarrow> 'b conn \<Rightarrow> (simple_buffer \<times> simple_buffer option \<times> 'b conn) option" where
  "call_input_handler handler h buf c = do {
     (ctx, c) \<leftarrow> handler (input_ctx_new buf) c;
     Some (ic_buffer ctx, ic_next_read_buffer ctx, c) }"

section \<open>The program\<close>

text \<open>
  The handler sends the buffer on, and leaves the context with the buffer moved from. The connection has
  the executor of the io context for its strand, on which all handlers run.
\<close>

definition echo_handler :: "'b conn_env \<Rightarrow> input_ctx \<Rightarrow> 'b conn \<Rightarrow> (input_ctx \<times> 'b conn) option" where
  "echo_handler E ctx c = do {
     let (buf, left) = sb_move_construct (ic_buffer ctx);
     c \<leftarrow> schedule_send True True E [bd_to_output (e_driver E) buf] c;
     Some (ctx\<lparr>ic_buffer := left\<rparr>, c) }"

definition echo_env :: "'b conn_env \<Rightarrow> 'b conn_env" where
  "echo_env E = E\<lparr>e_input := call_input_handler (echo_handler E)\<rparr>"

text \<open>What is done with an accepted socket, with the counter of the ids.\<close>

definition echo_on_accept :: "'b conn_env \<Rightarrow> u64 \<Rightarrow> (u64 \<times> 'b conn \<times> u64) option" where
  "echo_on_accept E id_counter = do {
     c \<leftarrow> start_reading True (echo_env E) (connection_ctor (echo_env E) default_connection_cfg 0 None);
     Some (id_counter, c, id_counter + 1) }"

text \<open>
  The options of the command line, each with the text given for it, if any; CLI11 converts the texts
  (\<open>to_u16\<close>) and stores them in the order in which the options were added. Both options are bound to the
  port.
\<close>

definition echo_options :: "(string \<Rightarrow> u16 option) \<Rightarrow> string option \<Rightarrow> string option \<Rightarrow> (string \<times> u16) option" where
  "echo_options to_u16 port_option address_option = do {
     let port = 3344;
     let addr = ''127.0.0.1'';
     port \<leftarrow> (case port_option of None \<Rightarrow> Some port | Some arg \<Rightarrow> to_u16 arg);
     port \<leftarrow> (case address_option of None \<Rightarrow> Some port | Some arg \<Rightarrow> to_u16 arg);
     let addr = (if addr = ''localhost'' then ''127.0.0.1''
                 else if addr = ''ip6-localhost'' then ''::1'' else addr);
     Some (addr, port) }"

lemma address_option_sets_the_port:
  "echo_options to_u16 port_option address_option = Some (addr, port) \<Longrightarrow>
   addr = ''127.0.0.1'' \<and> (\<forall>arg. address_option = Some arg \<longrightarrow> to_u16 arg = Some port)"
  by (auto simp: echo_options_def bind_eq_Some_conv split: option.splits)

section \<open>An echo connection\<close>

text \<open>What happens to a connection nobody else calls.\<close>

fun own_event :: "'b conn_event \<Rightarrow> bool" where
  "own_event (Ev_call w) \<longleftrightarrow> False"
| "own_event (Ev_aggressive_send cb bufs) \<longleftrightarrow> False"
| "own_event (Ev_read_completed ec bytes) \<longleftrightarrow> ec_failed ec"
| "own_event _ \<longleftrightarrow> True"

text \<open>
  An echo connection with the bytes it has read so far. Asio aborts a read only after the connection has
  shut the socket down.
\<close>

inductive echo_reachable :: "'b conn_env \<Rightarrow> byte list \<Rightarrow> 'b conn \<Rightarrow> bool" for E where
  er_accept: "echo_on_accept E i = Some (i', c, i'') \<Longrightarrow> echo_reachable E [] c"
| er_read: "echo_reachable E got c \<Longrightarrow> length bytes \<le> sb_size (c_read_buffer c) \<Longrightarrow>
    conn_step (echo_env E) (Ev_read_completed Ec_success bytes) c = Some c' \<Longrightarrow> echo_reachable E (got @ bytes) c'"
| er_other: "echo_reachable E got c \<Longrightarrow> own_event ev \<Longrightarrow> ev_ok ev c \<Longrightarrow>
    (\<And>bytes. ev = Ev_read_completed Ec_operation_aborted bytes \<Longrightarrow> \<not> c_schedule_for_write_is_enabled c) \<Longrightarrow>
    conn_step (echo_env E) ev c = Some c' \<Longrightarrow> echo_reachable E got c'"

section \<open>The handler is one the connection stands\<close>

text \<open>Sending does not look at the input handler.\<close>

lemma send_cb_ignores_input:
  "run_send_completion_callback (E\<lparr>e_input := f\<rparr>) = run_send_completion_callback E"
  by (simp add: run_send_completion_callback_def fun_eq_iff cong: option.case_cong)

lemma send_cbs_ignore_input:
  "run_send_completion_callbacks (E\<lparr>e_input := f\<rparr>) res cbs = run_send_completion_callbacks E res cbs"
  by (induction cbs) (rule ext, simp add: send_cb_ignores_input)+

lemma io_error_ignores_input: "handle_io_error (E\<lparr>e_input := f\<rparr>) = handle_io_error E"
  by (simp add: handle_io_error_def shutdown_impl_def fun_eq_iff Let_def cong: option.case_cong if_cong)

lemma socket_write_ignores_input: "socket_write (E\<lparr>e_input := f\<rparr>) = socket_write E"
  by (simp add: socket_write_def fun_eq_iff)

lemma write_ignores_input:
  "initiate_write_if_necessary fuel (E\<lparr>e_input := f\<rparr>) = initiate_write_if_necessary fuel E \<and>
   after_write fuel (E\<lparr>e_input := f\<rparr>) = after_write fuel E"
proof (induction fuel)
  case (Suc fuel)
  then show ?case
    by (simp add: fun_eq_iff [of "initiate_write_if_necessary (Suc fuel) _"] fun_eq_iff [of "after_write (Suc fuel) _"]
        io_error_ignores_input send_cbs_ignore_input socket_write_ignores_input Let_def cong: if_cong)
qed (simp add: fun_eq_iff)

lemma append_all_ignores_input:
  "append_all_try_aggressive (E\<lparr>e_input := f\<rparr>) bufs = append_all_try_aggressive E bufs"
proof -
  have "append_outgoing_buffer_try_aggressive_write (E\<lparr>e_input := f\<rparr>) b st =
      append_outgoing_buffer_try_aggressive_write E b st" for b st
    by (simp add: append_outgoing_buffer_try_aggressive_write_def append_outgoing_buffer_def
        socket_write_ignores_input Let_def cong: if_cong)
  then show ?thesis by (induction bufs) (rule ext, simp)+
qed

lemma send_work_ignores_input: "send_work (E\<lparr>e_input := f\<rparr>) cb bufs c = send_work E cb bufs c"
  by (simp add: send_work_def send_bufs_def append_all_ignores_input write_ignores_input
      send_cb_ignores_input Let_def cong: option.case_cong if_cong)

lemma echo_handler_input:
  "e_input (echo_env E) h buf c = do {
     c \<leftarrow> send_work (echo_env E) None [bd_to_output (e_driver E) buf] c;
     Some (sb_default, None, c) }"
  by (simp add: echo_env_def call_input_handler_def echo_handler_def input_ctx_new_def schedule_send_def
      schedule_send_impl_def asio_dispatch_def sb_move_construct_eq send_work_ignores_input bind_assoc)

lemma echo_env_quiet:
  assumes "quiet_env E"
  shows "quiet_env (echo_env E)"
proof -
  have "\<exists>ws. run_works (echo_env E) ws c = Some c' \<and> (\<forall>w\<in>set ws. work_ok w)"
    if "e_input (echo_env E) h b c = Some (b', nb, c')" for h b c b' nb c'
    by (rule exI [of _ "[W_send None [bd_to_output (e_driver E) b]]"])
      (use that in \<open>auto simp: echo_handler_input bind_eq_Some_conv\<close>)
  then show ?thesis
    unfolding echo_env_def by (intro quiet_env_input [OF assms]) simp
qed

section \<open>What is kept\<close>

text \<open>What the connection does aside from reading: it accepts nothing and leaves the reading side alone.\<close>

definition aside :: "'b conn \<Rightarrow> 'b conn \<Rightarrow> bool" where
  "aside a b \<longleftrightarrow> kept a b \<and> c_read_buffer b = c_read_buffer a \<and> c_pending_reads b = c_pending_reads a \<and>
     (c_schedule_for_write_is_enabled b \<longrightarrow> c_read_is_enabled b = c_read_is_enabled a)"

lemma aside_trans: "aside a b \<Longrightarrow> aside b c \<Longrightarrow> aside a c"
  by (auto simp: aside_def kept_def)

lemma aside_intake: "intake b = intake a \<Longrightarrow> aside a b"
  by (simp add: aside_def kept_def intake_def taken_in_def)

lemma aside_fields [simp]:
  "aside a (b\<lparr>c_watchdog := w\<rparr>) = aside a b" "aside a (b\<lparr>c_wire := wr\<rparr>) = aside a b"
  "aside a (b\<lparr>c_async := y\<rparr>) = aside a b"
  by (simp_all add: aside_def)

lemma aside_observe [simp]: "(\<forall>cb bs. ob \<noteq> O_send_accepted cb bs) \<Longrightarrow> aside a (observe ob b) = aside a b"
  by (simp add: aside_def)

lemma aside_refl [simp]: "aside a a"
  by (simp add: aside_def)

context quiet_env
begin

lemma shutdown_impl_aside: "shutdown_impl E reason c = Some c' \<Longrightarrow> aside c c'"
  by (rule shutdown_impl_cases [of c reason])
    (use shutdown_impl_kept [of reason c c'] in \<open>auto simp: aside_def shutdown_begin_simps observe_def\<close>)

lemma handle_io_error_aside: "handle_io_error E ec c = Some c' \<Longrightarrow> aside c c'"
  by (auto simp: handle_io_error_def split: if_splits dest: shutdown_impl_aside)

lemma write_aside:
  "(initiate_write_if_necessary fuel E c = Some c' \<longrightarrow> aside c c') \<and> (after_write fuel E ec n c = Some c' \<longrightarrow> aside c c')"
  by (rule write_mono) (auto intro: aside_trans aside_intake handle_io_error_aside)

lemma send_work_aside:
  assumes "send_work E cb bufs c = Some c'"
  shows "aside (if c_schedule_for_write_is_enabled c
    then observe (O_send_accepted cb (concat (map (bd_make_asio_const_buffer (e_driver E)) bufs))) c else c) c'"
  by (rule send_work_mono [OF _ _ _ assms]) (auto intro: aside_trans aside_intake handle_io_error_aside)

text \<open>Only a read that succeeded touches the read buffer.\<close>

lemma strand_work_read_buffer: "run_strand_work E w c = Some c' \<Longrightarrow> c_read_buffer c' = c_read_buffer c"
proof (cases w)
  case (W_send cb bufs)
  then show "run_strand_work E w c = Some c' \<Longrightarrow> ?thesis"
    using send_work_aside [of cb bufs c c'] by (simp add: aside_def split: if_splits)
qed (auto simp: start_reading_work_def stop_reading_work_def reset_input_handler_impl_def
    reset_shutdown_handler_impl_def initiate_read_def update_socket_options_impl_def case_prod_beta Let_def
    handle_write_operation_timeout_impl_def aside_def dest!: shutdown_impl_aside split: if_splits)

lemma own_event_read_buffer:
  assumes "conn_step E ev c = Some c'" "own_event ev" "sb_wf (c_read_buffer c)"
    and "\<And>ec bytes. ev = Ev_read_completed ec bytes \<Longrightarrow> length bytes \<le> sb_size (c_read_buffer c)"
  shows "sb_wf (c_read_buffer c')"
proof (cases ev)
  case Ev_strand
  then show ?thesis using assms(1,3) strand_work_read_buffer by (fastforce split: list.splits)
next
  case (Ev_write_completed ec n)
  then obtain x c2 where "after_write (write_fuel x) E ec n x = Some c2" "c_read_buffer x = c_read_buffer c"
      "c_read_buffer c' = c_read_buffer c2"
    using assms(1) by (auto simp: on_async_write_completed_def observe_def Let_def split: option.splits bind_splits)
  then show ?thesis using write_aside [THEN conjunct2, rule_format] assms(3) by (metis aside_def)
next
  case (Ev_read_completed ec bytes)
  then obtain x where "handle_io_error E ec x = Some c'" "c_read_buffer x = sb_write (c_read_buffer c) 0 bytes"
    using assms(1,2) by (auto simp: on_async_read_completed_def after_read_def Let_def split: if_splits)
  moreover have "sb_wf (sb_write (c_read_buffer c) 0 bytes)"
    using assms(3,4) Ev_read_completed by (simp add: sb_write_def sb_wf_def)
  ultimately show ?thesis using handle_io_error_aside by (metis aside_def)
qed (use assms in \<open>auto simp: hadle_write_operation_timeout_def asio_dispatch_def asio_post_def Let_def
    split: prod.splits option.splits\<close>)

text \<open>An error on a connection that may send ends it.\<close>

lemma io_error_stops:
  assumes "conn_inv E c" "handle_io_error E ec c = Some c'" "ec = Ec_operation_aborted \<Longrightarrow> \<not> c_schedule_for_write_is_enabled c"
  shows "\<not> c_schedule_for_write_is_enabled c'"
proof (cases "ec = Ec_operation_aborted")
  case False
  have "c_schedule_for_write_is_enabled c \<Longrightarrow> \<not> c_shutdown_was_called c \<and> c_socket_open c"
    using assms(1) by (auto simp: conn_inv_def conn_ok_def conn_core_def)
  then show ?thesis
    using False assms(2) shutdown_impl_quiet [of "if ec = Ec_eof then Eof else Io_error" c]
    by (auto simp: handle_io_error_def)
qed (use assms(2,3) in \<open>simp add: handle_io_error_def\<close>)

end

definition echo_inv :: "'b conn_env \<Rightarrow> byte list \<Rightarrow> 'b conn \<Rightarrow> bool" where
  "echo_inv E got c \<longleftrightarrow> conn_inv E c \<and> (\<forall>w\<in>set (c_strand c). \<exists>key. w = W_write_timeout key) \<and>
     prefix (taken_in c) got \<and> sb_wf (c_read_buffer c) \<and>
     (c_schedule_for_write_is_enabled c \<longrightarrow> taken_in c = got \<and> c_pending_reads c = 1 \<and> c_read_is_enabled c)"

lemma echo_inv_aside:
  assumes "echo_inv E got a" "aside a b" "conn_inv E b"
  shows "echo_inv E got b"
  using assms by (auto simp: echo_inv_def aside_def kept_def)

lemma echo_accept_inv:
  assumes "quiet_env E" "echo_on_accept E i = Some (i', c, i'')"
  shows "echo_inv (echo_env E) [] c"
proof -
  let ?c0 = "connection_ctor (echo_env E) default_connection_cfg 0 None"
  have quiet: "quiet_env (echo_env E)" by (rule echo_env_quiet [OF assms(1)])
  then have laws: "buffer_driver_laws (e_driver (echo_env E))" by (simp add: quiet_env_def)
  have c: "run_strand_work (echo_env E) W_start_reading ?c0 = Some c"
    using assms(2) by (auto simp: echo_on_accept_def start_reading_def asio_dispatch_def bind_eq_Some_conv)
  have "conn_inv (echo_env E) c"
    by (rule quiet_env.strand_work_inv [OF quiet quiet_env.ctor_inv [OF quiet] _ c]) simp
  then show ?thesis
    using c buffer_driver_laws.allocate_input [OF laws]
    by (auto simp: echo_inv_def start_reading_work_def connection_ctor_def initiate_read_def taken_in_def observe_def Let_def)
qed

text \<open>A read that succeeds is echoed.\<close>

lemma echo_read:
  assumes quiet: "quiet_env E" and inv: "echo_inv (echo_env E) got c"
    and len: "length bytes \<le> sb_size (c_read_buffer c)" and pending: "0 < c_pending_reads c"
  shows "conn_step (echo_env E) (Ev_read_completed Ec_success bytes) c = Some c' \<Longrightarrow> echo_inv (echo_env E) (got @ bytes) c'"
    and "c_schedule_for_write_is_enabled c \<Longrightarrow> \<exists>c'. conn_step (echo_env E) (Ev_read_completed Ec_success bytes) c = Some c'"
proof -
  let ?E = "echo_env E"
  have q: "quiet_env ?E" by (rule echo_env_quiet [OF quiet])
  then have laws: "buffer_driver_laws (e_driver ?E)" by (simp add: quiet_env_def)
  have driver: "e_driver ?E = e_driver E" by (simp add: echo_env_def)
  define c2 where "c2 = c\<lparr>c_pending_reads := c_pending_reads c - 1, c_read_buffer := sb_default,
      c_out := c_out c @ [O_inc_bytes_rx_async (length bytes), O_input bytes]\<rparr>"
  have "sb_wf (c_read_buffer c)" using inv by (simp add: echo_inv_def)
  then obtain buf where buf: "sb_wf buf" "sb_view buf = bytes"
    "on_async_read_completed ?E Ec_success bytes c = do {
       (left, nb, c3) \<leftarrow> e_input ?E (c_input_handler c) buf c2;
       Some (let c4 = c3\<lparr>c_read_buffer := next_buffer ?E left nb c3\<rparr> in if c_read_is_enabled c3 then initiate_read c4 else c4) }"
    unfolding c2_def by (rule read_completed_eq [OF laws _ len pending])
  define out where "out = bd_to_output (e_driver E) buf"
  have out: "bd_make_asio_const_buffer (e_driver E) out = bytes"
    using buffer_driver_laws.view_to_output [OF laws buf(1)] buf(2) by (simp add: out_def driver)
  have step: "conn_step ?E (Ev_read_completed Ec_success bytes) c = do {
       c3 \<leftarrow> send_work ?E None [out] c2;
       Some (let c4 = c3\<lparr>c_read_buffer := next_buffer ?E sb_default None c3\<rparr>
             in if c_read_is_enabled c3 then initiate_read c4 else c4) }"
    by (simp add: buf(3) echo_handler_input bind_assoc out_def Let_def)
  have c2: "c_schedule_for_write_is_enabled c2 = c_schedule_for_write_is_enabled c" "taken_in c2 = taken_in c"
      "c_strand c2 = c_strand c" "c_read_is_enabled c2 = c_read_is_enabled c"
      "c_pending_reads c2 = c_pending_reads c - 1"
    by (simp_all add: c2_def taken_in_def)
  have "data_path c2 = data_path c" by (simp add: c2_def data_path_def)
  then have inv2: "conn_inv ?E c2"
    using conn_inv_data_path [of c2 c ?E] inv c2(3) conn_inv_works [of ?E c] by (simp add: echo_inv_def)
  show "echo_inv ?E (got @ bytes) c'" if c': "conn_step ?E (Ev_read_completed Ec_success bytes) c = Some c'"
  proof -
    obtain c3 where c3: "send_work ?E None [out] c2 = Some c3"
        "c' = (let c4 = c3\<lparr>c_read_buffer := next_buffer ?E sb_default None c3\<rparr>
               in if c_read_is_enabled c3 then initiate_read c4 else c4)"
      using c' unfolding step by (auto simp: bind_eq_Some_conv)
    have "conn_inv ?E c'"
      by (rule quiet_env.conn_step_inv [OF q _ _ c']) (use inv len in \<open>simp_all add: echo_inv_def\<close>)
    moreover have "sb_wf (next_buffer ?E sb_default None c3)"
      using buffer_driver_laws.reallocate_input [OF laws] by (simp add: next_buffer_def)
    ultimately show ?thesis
      using quiet_env.send_work_aside [OF q c3(1)] inv pending c2 out
      by (auto simp: c3(2) echo_inv_def aside_def kept_def driver taken_in_def initiate_read_def observe_def Let_def
          split: if_splits intro: prefix_prefix)
  qed
  show "\<exists>c'. conn_step ?E (Ev_read_completed Ec_success bytes) c = Some c'" if enabled: "c_schedule_for_write_is_enabled c"
  proof -
    have "send_bufs ?E None [out] c2 \<noteq> None"
      using quiet_env.send_bufs_ok [OF q inv2, of None "[out]"] enabled c2(1) by (auto split: option.splits)
    then obtain c3 where "send_work ?E None [out] c2 = Some c3"
      using enabled c2(1) by (auto simp: send_work_def)
    then show ?thesis unfolding step by simp
  qed
qed

text \<open>Everything else leaves the account as it is.\<close>

lemma echo_other:
  assumes quiet: "quiet_env E" and inv: "echo_inv (echo_env E) got c" and own: "own_event ev" and ok: "ev_ok ev c"
    and aborted: "\<And>bytes. ev = Ev_read_completed Ec_operation_aborted bytes \<Longrightarrow> \<not> c_schedule_for_write_is_enabled c"
    and step: "conn_step (echo_env E) ev c = Some c'"
  shows "echo_inv (echo_env E) got c'"
proof -
  let ?E = "echo_env E"
  have q: "quiet_env ?E" by (rule echo_env_quiet [OF quiet])
  have ci: "conn_inv ?E c" using inv by (simp add: echo_inv_def)
  have ci': "conn_inv ?E c'" by (rule quiet_env.conn_step_inv [OF q ci ok step])
  show ?thesis
  proof (cases ev)
    case Ev_strand
    then obtain w ws where w: "c_strand c = w # ws" "run_strand_work ?E w (c\<lparr>c_strand := ws\<rparr>) = Some c'"
      using step by (auto split: list.splits)
    then obtain key where "w = W_write_timeout key" using inv by (auto simp: echo_inv_def)
    then have "aside (c\<lparr>c_strand := ws\<rparr>) c'"
      using w(2) quiet_env.shutdown_impl_aside [OF q] by (auto simp: handle_write_operation_timeout_impl_def split: if_splits)
    then show ?thesis
      using inv w(1) ci' by (auto simp: echo_inv_def aside_def kept_def taken_in_def)
  next
    case (Ev_write_completed ec n)
    then obtain bufs c2 where c2: "after_write (write_fuel (observe (O_async_write_finished n)
          (c\<lparr>c_wire := c_wire c @ take n (concat bufs), c_async := None\<rparr>))) ?E ec n
        (observe (O_async_write_finished n) (c\<lparr>c_wire := c_wire c @ take n (concat bufs), c_async := None\<rparr>)) = Some c2"
        "c' = observe (O_inc_bytes_tx_async n) c2"
      using step by (auto simp: on_async_write_completed_def Let_def split: option.splits bind_splits)
    have "aside c (observe (O_async_write_finished n) (c\<lparr>c_wire := c_wire c @ take n (concat bufs), c_async := None\<rparr>))"
      by simp
    from aside_trans [OF this quiet_env.write_aside [OF q, THEN conjunct2, rule_format, OF c2(1)]]
    show ?thesis using echo_inv_aside [OF inv _ ci'] by (simp add: c2(2))
  next
    case (Ev_read_completed ec bytes)
    define c1 where "c1 = c\<lparr>c_pending_reads := c_pending_reads c - 1, c_read_buffer := sb_write (c_read_buffer c) 0 bytes\<rparr>"
    have io: "handle_io_error ?E ec c1 = Some c'"
      using step own Ev_read_completed
      by (auto simp: on_async_read_completed_def after_read_def c1_def Let_def split: if_splits)
    have "conn_inv ?E c1"
      using conn_inv_data_path [of c1 c ?E] conn_inv_works [OF ci] ci by (simp add: c1_def)
    then have "\<not> c_schedule_for_write_is_enabled c'"
      using quiet_env.io_error_stops [OF q _ io] aborted [of bytes] Ev_read_completed by (auto simp: c1_def)
    moreover have "sb_wf (c_read_buffer c1)"
      using inv ok Ev_read_completed by (simp add: c1_def echo_inv_def sb_write_def sb_wf_def)
    ultimately show ?thesis
      using quiet_env.handle_io_error_aside [OF q io] inv ci'
      by (auto simp: echo_inv_def aside_def kept_def c1_def taken_in_def)
  next
    case Ev_timer_expires
    then show ?thesis using step inv ci' by (auto simp: echo_inv_def taken_in_def)
  next
    case Ev_timer_handler
    then show ?thesis
      using step inv ci'
      by (auto simp: hadle_write_operation_timeout_def asio_dispatch_def asio_post_def echo_inv_def taken_in_def Let_def
          split: prod.splits option.splits)
  qed (use own in simp_all)
qed

lemma echo_reachable_inv: "quiet_env E \<Longrightarrow> echo_reachable E got c \<Longrightarrow> echo_inv (echo_env E) got c"
proof (rotate_tac 1, induction rule: echo_reachable.induct)
  case (er_accept i i' c i'')
  then show ?case using echo_accept_inv by blast
next
  case (er_read got c bytes c')
  then have "0 < c_pending_reads c" by (auto simp: on_async_read_completed_def split: if_splits)
  with er_read show ?case using echo_read(1) by blast
next
  case (er_other got c ev c')
  then show ?case using echo_other by blast
qed

section \<open>Property\<close>

text \<open>
  C18. An echo server echoes: what the operating system has taken from the connection is at every moment a
  prefix of what was read from it. As long as the connection is not ended there is exactly one read in
  progress, whatever was read is handled without a failed assertion, and when no write is in progress
  everything read was sent back.
\<close>

theorem echo_returns_input:
  assumes "quiet_env E" "echo_reachable E got c"
  shows "prefix (c_wire c) got \<and>
    (c_schedule_for_write_is_enabled c \<longrightarrow> c_pending_reads c = 1 \<and> (c_async c = None \<longrightarrow> c_wire c = got) \<and>
       (\<forall>bytes. length bytes \<le> sb_size (c_read_buffer c) \<longrightarrow>
          (\<exists>c'. conn_step (echo_env E) (Ev_read_completed Ec_success bytes) c = Some c' \<and> echo_reachable E (got @ bytes) c')))"
proof -
  have inv: "echo_inv (echo_env E) got c" by (rule echo_reachable_inv [OF assms])
  then have "prefix (c_wire c) (taken_in c)"
    using conn_inv_prefix [of "echo_env E" c] by (simp add: echo_inv_def taken_in_def)
  moreover have "c_wire c = taken_in c" if "c_schedule_for_write_is_enabled c" "c_async c = None"
    using inv that by (auto simp: echo_inv_def conn_inv_def conn_ok_def conn_failed_def conn_idle_def conn_writing_def
        conn_stream_def taken_in_def)
  moreover have "\<exists>c'. conn_step (echo_env E) (Ev_read_completed Ec_success bytes) c = Some c' \<and> echo_reachable E (got @ bytes) c'"
    if "c_schedule_for_write_is_enabled c" "length bytes \<le> sb_size (c_read_buffer c)" for bytes
    using echo_read(2) [OF assms(1) inv that(2)] that(1) inv er_read [OF assms(2) that(2)]
    by (auto simp: echo_inv_def)
  ultimately show ?thesis
    using inv by (auto simp: echo_inv_def intro: prefix_order.trans)
qed

definition demo_echo_env :: "simple_buffer conn_env" where
  "demo_echo_env = plain_env 64 (\<lambda>_. 100) simple_buffer_driver"

lemma demo_echo_env_quiet: "quiet_env demo_echo_env"
  unfolding demo_echo_env_def by (rule plain_env_quiet) (simp_all add: simple_drv.buffer_driver_laws_axioms)

lemma demo_echo_accept:
  "\<exists>c. echo_on_accept demo_echo_env 7 = Some (7, c, 8) \<and> c_schedule_for_write_is_enabled c \<and> 3 \<le> sb_size (c_read_buffer c)"
  by (simp add: echo_on_accept_def start_reading_def asio_dispatch_def start_reading_work_def initiate_read_def observe_def
      connection_ctor_def echo_env_def demo_echo_env_def plain_env_def default_connection_cfg_def simple_buffer_driver_def
      simple_allocate_input_def sb_new_def Let_def)

theorem echo_returns_input_witness:
  "\<exists>c. echo_reachable demo_echo_env [1, 2, 3] c \<and> prefix (c_wire c) [1, 2, 3]"
proof -
  obtain c0 where c0: "echo_reachable demo_echo_env [] c0" "c_schedule_for_write_is_enabled c0"
      "3 \<le> sb_size (c_read_buffer c0)"
    using demo_echo_accept er_accept by blast
  have "length bytes \<le> sb_size (c_read_buffer c0) \<Longrightarrow> \<exists>c. echo_reachable demo_echo_env ([] @ bytes) c" for bytes
    using echo_returns_input [OF demo_echo_env_quiet c0(1)] c0(2) by blast
  from this [of "[1, 2, 3]"] c0(3) obtain c where "echo_reachable demo_echo_env [1, 2, 3] c" by auto
  then show ?thesis
    using echo_returns_input [OF demo_echo_env_quiet] by auto
qed

end
