(* ===== verification/MsgTypes.thy ===== *)
theory MsgTypes
  imports Prelude
begin

text \<open>
  \<open>proto_entry/templates/entry.tmpl.hpp\<close>, the look-up tables between the message types of a protocol and
  the values of its enumeration. The template is run for a protocol, two lists of messages; a definition
  here is the loop of the template, with its counters as state, and returns what the loop writes. The
  tables are inverse to each other; the position of an incoming message is its index in the list of
  incoming values. The other two indices are not what their names promise, see the last section.
\<close>

section \<open>Protocols and tables\<close>

record proto_msg =
  pm_type :: string
  pm_enum_id :: string

record protocol =
  pr_incoming :: "proto_msg list"
  pr_outgoing :: "proto_msg list"

record msg_type_lut =
  ml_type :: string
  ml_enum_value :: string
  ml_protocol_index :: int
  ml_protocol_index_in :: int
  ml_protocol_index_out :: int
  ml_class_name_short :: string
  ml_enum_name_short :: string

text \<open>The counters of the template.\<close>

record lut_counters =
  idx_all :: nat
  idx_incoming :: nat
  idx_outgoing :: nat

text \<open>\<open>re.findall(r'([^:]*)$', name)[0]\<close>: what follows the last colon.\<close>

definition short_name :: "string \<Rightarrow> string" where
  "short_name name = rev (takeWhile (\<lambda>c. c \<noteq> CHR '':'') (rev name))"

definition msg_types_count_incoming :: "protocol \<Rightarrow> nat" where
  "msg_types_count_incoming p = length (pr_incoming p)"

definition msg_types_count_outgoing :: "protocol \<Rightarrow> nat" where
  "msg_types_count_outgoing p = length (pr_outgoing p)"

definition msg_types_count :: "protocol \<Rightarrow> nat" where
  "msg_types_count p = msg_types_count_incoming p + msg_types_count_outgoing p"

definition incoming_fields :: "protocol \<Rightarrow> string list" where
  "incoming_fields p = map pm_enum_id (pr_incoming p)"

definition outgoing_fields :: "protocol \<Rightarrow> string list" where
  "outgoing_fields p = map pm_enum_id (pr_outgoing p)"

text \<open>The loop over the incoming messages: a specialization, and then the counters.\<close>

fun lut_of_incoming :: "string list \<Rightarrow> lut_counters \<Rightarrow> proto_msg list \<Rightarrow> msg_type_lut list \<times> lut_counters" where
  "lut_of_incoming outgoing_ids k [] = ([], k)"
| "lut_of_incoming outgoing_ids k (msg # msgs) =
     (let (index_out, k') =
            (if pm_enum_id msg \<in> set outgoing_ids
             then (int (idx_outgoing k), k\<lparr>idx_outgoing := idx_outgoing k + 1\<rparr>)
             else (-1, k));
          lut = \<lparr>ml_type = pm_type msg, ml_enum_value = pm_enum_id msg, ml_protocol_index = int (idx_all k),
                 ml_protocol_index_in = int (idx_incoming k), ml_protocol_index_out = index_out,
                 ml_class_name_short = short_name (pm_type msg), ml_enum_name_short = short_name (pm_enum_id msg)\<rparr>;
          k'' = k'\<lparr>idx_all := idx_all k' + 1, idx_incoming := idx_incoming k' + 1\<rparr>;
          (luts, k''') = lut_of_incoming outgoing_ids k'' msgs
      in (lut # luts, k'''))"

text \<open>
  The loop over the outgoing messages, for those that are not incoming too. It counts \<open>idx_all\<close> before
  and after the strings.
\<close>

fun lut_of_outgoing :: "string list \<Rightarrow> lut_counters \<Rightarrow> proto_msg list \<Rightarrow> msg_type_lut list \<times> lut_counters" where
  "lut_of_outgoing incoming_ids k [] = ([], k)"
| "lut_of_outgoing incoming_ids k (msg # msgs) =
     (if pm_enum_id msg \<notin> set incoming_ids
      then let lut = \<lparr>ml_type = pm_type msg, ml_enum_value = pm_enum_id msg, ml_protocol_index = int (idx_all k),
                      ml_protocol_index_in = -1, ml_protocol_index_out = int (idx_outgoing k),
                      ml_class_name_short = short_name (pm_type msg), ml_enum_name_short = short_name (pm_enum_id msg)\<rparr>;
               k' = k\<lparr>idx_all := idx_all k + 1, idx_outgoing := idx_outgoing k + 1\<rparr>;
               k'' = k'\<lparr>idx_all := idx_all k' + 1, idx_incoming := idx_incoming k' + 1\<rparr>;
               (luts, k''') = lut_of_outgoing incoming_ids k'' msgs
           in (lut # luts, k''')
      else lut_of_outgoing incoming_ids k msgs)"

definition msg_type_luts :: "protocol \<Rightarrow> msg_type_lut list" where
  "msg_type_luts p =
     (let (luts_in, k) = lut_of_incoming (outgoing_fields p) \<lparr>idx_all = 0, idx_incoming = 0, idx_outgoing = 0\<rparr> (pr_incoming p);
          (luts_out, _) = lut_of_outgoing (incoming_fields p) k (pr_outgoing p)
      in luts_in @ luts_out)"

definition incoming_enums_list :: "protocol \<Rightarrow> string list" where
  "incoming_enums_list p = map pm_enum_id (pr_incoming p)"

definition outgoing_enums_list :: "protocol \<Rightarrow> string list" where
  "outgoing_enums_list p = map pm_enum_id (pr_outgoing p)"

text \<open>The specializations of \<open>enum_value_lut_t\<close>, in the order written.\<close>

definition enum_value_luts :: "protocol \<Rightarrow> (string \<times> string) list" where
  "enum_value_luts p =
     map (\<lambda>msg. (pm_enum_id msg, pm_type msg)) (filter (\<lambda>msg. pm_enum_id msg \<notin> set (outgoing_fields p)) (pr_incoming p)) @
     map (\<lambda>msg. (pm_enum_id msg, pm_type msg)) (pr_outgoing p)"

text \<open>
  The specialization for a type or a value. Without one, or with two of them, the program is rejected by
  the compiler.
\<close>

definition the_only :: "('a \<Rightarrow> bool) \<Rightarrow> 'a list \<Rightarrow> 'a option" where
  "the_only P xs = (case filter P xs of [x] \<Rightarrow> Some x | _ \<Rightarrow> None)"

definition lut_of_type :: "protocol \<Rightarrow> string \<Rightarrow> msg_type_lut option" where
  "lut_of_type p t = the_only (\<lambda>l. ml_type l = t) (msg_type_luts p)"

definition type_of_enum :: "protocol \<Rightarrow> string \<Rightarrow> string option" where
  "type_of_enum p e = map_option snd (the_only (\<lambda>l. fst l = e) (enum_value_luts p))"

text \<open>
  A protocol the generator accepts: every value identifies one message, each list names a message once,
  and no two messages share a type.
\<close>

definition well_formed :: "protocol \<Rightarrow> bool" where
  "well_formed p \<longleftrightarrow>
     distinct (incoming_fields p) \<and> distinct (outgoing_fields p) \<and>
     (\<forall>x\<in>set (pr_incoming p @ pr_outgoing p). \<forall>y\<in>set (pr_incoming p @ pr_outgoing p).
        pm_type x = pm_type y \<longleftrightarrow> pm_enum_id x = pm_enum_id y)"

section \<open>What the loops write\<close>

text \<open>The values in the order in which the template numbers the outgoing messages.\<close>

definition outgoing_order :: "protocol \<Rightarrow> string list" where
  "outgoing_order p = filter (\<lambda>e. e \<in> set (outgoing_fields p)) (incoming_fields p) @
     filter (\<lambda>e. e \<notin> set (incoming_fields p)) (outgoing_fields p)"

lemma upt_Cons_Suc: "[k..<Suc (k + n)] = k # [Suc k..<Suc (k + n)]"
  by (simp add: upt_conv_Cons)

lemma upt_0_Suc: "map f [0..<Suc n] = f 0 # map (\<lambda>i. f (Suc i)) [0..<n]"
  by (rule map_upt_Suc)

lemma lut_of_incoming_counters:
  "snd (lut_of_incoming ids k msgs) = k\<lparr>idx_all := idx_all k + length msgs, idx_incoming := idx_incoming k + length msgs,
     idx_outgoing := idx_outgoing k + length (filter (\<lambda>e. e \<in> set ids) (map pm_enum_id msgs))\<rparr>"
  by (induction msgs arbitrary: k) (simp_all add: Let_def case_prod_unfold)

lemma lut_of_incoming_luts:
  defines "luts ids k msgs \<equiv> fst (lut_of_incoming ids k msgs)"
  shows "map ml_protocol_index (luts ids k msgs) = map int [idx_all k..<idx_all k + length msgs]"
    and "map (\<lambda>l. (ml_type l, ml_enum_value l)) (luts ids k msgs) = map (\<lambda>m. (pm_type m, pm_enum_id m)) msgs"
    and "map (\<lambda>l. (ml_protocol_index_in l, ml_enum_value l)) (luts ids k msgs) =
      zip (map int [idx_incoming k..<idx_incoming k + length msgs]) (map pm_enum_id msgs)"
    and "map (\<lambda>l. (ml_protocol_index_out l, ml_enum_value l)) (filter (\<lambda>l. ml_protocol_index_out l \<noteq> -1) (luts ids k msgs)) =
      (let es = filter (\<lambda>e. e \<in> set ids) (map pm_enum_id msgs)
       in zip (map int [idx_outgoing k..<idx_outgoing k + length es]) es)"
  unfolding luts_def
  by (induction msgs arbitrary: k) (simp_all add: Let_def case_prod_unfold upt_Cons_Suc del: upt_Suc)

lemma lut_of_outgoing_luts:
  defines "luts ids k msgs \<equiv> fst (lut_of_outgoing ids k msgs)"
    and "new ids msgs \<equiv> filter (\<lambda>m. pm_enum_id m \<notin> set ids) msgs"
  shows "map ml_protocol_index (luts ids k msgs) = map (\<lambda>i. int (idx_all k + 2 * i)) [0..<length (new ids msgs)]"
    and "map (\<lambda>l. (ml_type l, ml_enum_value l)) (luts ids k msgs) = map (\<lambda>m. (pm_type m, pm_enum_id m)) (new ids msgs)"
    and "filter (\<lambda>l. ml_protocol_index_in l \<noteq> -1) (luts ids k msgs) = []"
    and "map (\<lambda>l. (ml_protocol_index_out l, ml_enum_value l)) (filter (\<lambda>l. ml_protocol_index_out l \<noteq> -1) (luts ids k msgs)) =
      zip (map int [idx_outgoing k..<idx_outgoing k + length (new ids msgs)]) (map pm_enum_id (new ids msgs))"
  unfolding luts_def new_def
  by (induction msgs arbitrary: k)
    (simp_all add: Let_def case_prod_unfold upt_Cons_Suc upt_0_Suc del: upt_Suc)

lemma msg_type_luts_eq:
  "msg_type_luts p =
   (let k = \<lparr>idx_all = 0, idx_incoming = 0, idx_outgoing = 0\<rparr>;
        k' = \<lparr>idx_all = length (pr_incoming p), idx_incoming = length (pr_incoming p),
              idx_outgoing = length (filter (\<lambda>e. e \<in> set (outgoing_fields p)) (incoming_fields p))\<rparr>
    in fst (lut_of_incoming (outgoing_fields p) k (pr_incoming p)) @
       fst (lut_of_outgoing (incoming_fields p) k' (pr_outgoing p)))"
  by (simp add: msg_type_luts_def Let_def case_prod_unfold lut_of_incoming_counters incoming_fields_def)

definition outgoing_only :: "protocol \<Rightarrow> proto_msg list" where
  "outgoing_only p = filter (\<lambda>m. pm_enum_id m \<notin> set (incoming_fields p)) (pr_outgoing p)"

lemma luts_types:
  "map (\<lambda>l. (ml_type l, ml_enum_value l)) (msg_type_luts p) =
   map (\<lambda>m. (pm_type m, pm_enum_id m)) (pr_incoming p @ outgoing_only p)"
  by (simp add: msg_type_luts_eq Let_def lut_of_incoming_luts lut_of_outgoing_luts outgoing_only_def)

lemma luts_all:
  "map ml_protocol_index (msg_type_luts p) =
   map int ([0..<msg_types_count_incoming p] @ map (\<lambda>i. msg_types_count_incoming p + 2 * i) [0..<length (outgoing_only p)])"
  by (simp add: msg_type_luts_eq Let_def lut_of_incoming_luts lut_of_outgoing_luts outgoing_only_def
      msg_types_count_incoming_def)

lemma luts_in:
  "map (\<lambda>l. (ml_protocol_index_in l, ml_enum_value l)) (filter (\<lambda>l. ml_protocol_index_in l \<noteq> -1) (msg_type_luts p)) =
   zip (map int [0..<msg_types_count_incoming p]) (incoming_enums_list p)"
proof -
  define k :: lut_counters where "k = \<lparr>idx_all = 0, idx_incoming = 0, idx_outgoing = 0\<rparr>"
  define luts where "luts = fst (lut_of_incoming (outgoing_fields p) k (pr_incoming p))"
  have luts: "map (\<lambda>l. (ml_protocol_index_in l, ml_enum_value l)) luts =
      zip (map int [0..<length (pr_incoming p)]) (map pm_enum_id (pr_incoming p))"
    using lut_of_incoming_luts(3) [of "outgoing_fields p" k "pr_incoming p"] by (simp add: luts_def k_def)
  have "ml_protocol_index_in l \<noteq> -1" if "l \<in> set luts" for l
  proof -
    have "(ml_protocol_index_in l, ml_enum_value l) \<in> set (map (\<lambda>l. (ml_protocol_index_in l, ml_enum_value l)) luts)"
      using that by simp
    then show ?thesis unfolding luts by (auto dest!: set_zip_leftD)
  qed
  then have "filter (\<lambda>l. ml_protocol_index_in l \<noteq> -1) luts = luts" by (simp add: filter_id_conv)
  then show ?thesis
    using luts by (simp add: msg_type_luts_eq Let_def lut_of_outgoing_luts(3) luts_def k_def
        msg_types_count_incoming_def incoming_enums_list_def)
qed

lemma luts_out:
  "map (\<lambda>l. (ml_protocol_index_out l, ml_enum_value l)) (filter (\<lambda>l. ml_protocol_index_out l \<noteq> -1) (msg_type_luts p)) =
   zip (map int [0..<length (outgoing_order p)]) (outgoing_order p)"
proof -
  define both where "both = filter (\<lambda>e. e \<in> set (outgoing_fields p)) (incoming_fields p)"
  define only where "only = map pm_enum_id (outgoing_only p)"
  have "outgoing_order p = both @ only"
    by (simp add: outgoing_order_def both_def only_def outgoing_only_def outgoing_fields_def filter_map comp_def)
  moreover have "[0..<length (both @ only)] = [0..<length both] @ [length both..<length both + length only]"
    using upt_add_eq_append [of 0 "length both" "length only"] by simp
  ultimately show ?thesis
    by (simp add: msg_type_luts_eq Let_def lut_of_incoming_luts(4) lut_of_outgoing_luts(4) both_def only_def
        incoming_fields_def outgoing_only_def)
qed

section \<open>Properties\<close>

lemma the_only_distinct:
  assumes "distinct (map f xs)"
  shows "the_only (\<lambda>x. f x = k) xs = Some x \<longleftrightarrow> x \<in> set xs \<and> f x = k"
  using assms
proof (induction xs)
  case (Cons y ys)
  have "filter (\<lambda>x. f x = f y) ys = []" using Cons.prems by (auto simp: filter_empty_conv) (metis imageI)
  then show ?case using Cons by (auto simp: the_only_def)
qed (simp add: the_only_def)

text \<open>The look-up in a table without duplicates, by its keys and values.\<close>

lemma the_only_lookup:
  assumes "map (\<lambda>x. (f x, g x)) xs = ys" "distinct (map fst ys)"
  shows "map_option g (the_only (\<lambda>x. f x = k) xs) = Some v \<longleftrightarrow> (k, v) \<in> set ys"
proof -
  have "map fst ys = map f xs" using assms(1) by auto
  then have "distinct (map f xs)" using assms(2) by simp
  from the_only_distinct [OF this] show ?thesis using assms(1) by auto
qed

lemma well_formedD:
  assumes "well_formed p" "x \<in> set (pr_incoming p) \<union> set (pr_outgoing p)" "y \<in> set (pr_incoming p) \<union> set (pr_outgoing p)"
  shows "pm_type x = pm_type y \<longleftrightarrow> pm_enum_id x = pm_enum_id y"
  using assms by (auto simp: well_formed_def)

lemma distinct_types:
  assumes "well_formed p" "set ms \<subseteq> set (pr_incoming p) \<union> set (pr_outgoing p)" "distinct (map pm_enum_id ms)"
  shows "distinct (map pm_type ms)"
  using assms(2,3) well_formedD [OF assms(1)] by (fastforce simp: distinct_map inj_on_def)

text \<open>
  C27. The two tables of a well-formed protocol are inverse to each other and complete: a type has a
  value, and the value that type, exactly when they are a message of the protocol, incoming, outgoing or
  both; and there is one specialization for each, as the compiler requires.
\<close>

theorem tables_are_inverse:
  assumes "well_formed p"
  shows "(map_option ml_enum_value (lut_of_type p t) = Some e \<longleftrightarrow>
      (\<exists>m\<in>set (pr_incoming p) \<union> set (pr_outgoing p). pm_type m = t \<and> pm_enum_id m = e)) \<and>
    (type_of_enum p e = Some t \<longleftrightarrow>
      (\<exists>m\<in>set (pr_incoming p) \<union> set (pr_outgoing p). pm_type m = t \<and> pm_enum_id m = e))"
    (is "(_ \<longleftrightarrow> ?message) \<and> _")
proof
  note same = well_formedD [OF assms]
  let ?types = "map (\<lambda>m. (pm_type m, pm_enum_id m)) (pr_incoming p @ outgoing_only p)"
  have "distinct (map pm_enum_id (pr_incoming p @ outgoing_only p))"
    using assms by (auto simp: well_formed_def outgoing_only_def incoming_fields_def outgoing_fields_def distinct_map_filter)
      (metis imageI)
  from distinct_types [OF assms _ this] have keys: "distinct (map fst ?types)"
    by (auto simp: outgoing_only_def comp_def)
  have "(t, e) \<in> set ?types \<longleftrightarrow> ?message"
    using same by (fastforce simp: outgoing_only_def incoming_fields_def)
  then show "map_option ml_enum_value (lut_of_type p t) = Some e \<longleftrightarrow> ?message"
    unfolding lut_of_type_def the_only_lookup [OF luts_types keys] .
  have keys: "distinct (map fst (enum_value_luts p))"
    using assms by (auto simp: enum_value_luts_def well_formed_def incoming_fields_def outgoing_fields_def comp_def
        distinct_map_filter)
  have "(e, t) \<in> set (enum_value_luts p) \<longleftrightarrow> ?message"
    using same by (fastforce simp: enum_value_luts_def outgoing_fields_def)
  moreover have "map (\<lambda>l. (fst l, snd l)) (enum_value_luts p) = enum_value_luts p" by simp
  ultimately show "type_of_enum p e = Some t \<longleftrightarrow> ?message"
    unfolding type_of_enum_def using the_only_lookup [OF _ keys, of fst snd "enum_value_luts p" e t] by blast
qed

lemma length_outgoing_order:
  assumes "well_formed p"
  shows "length (outgoing_order p) = length (outgoing_enums_list p)"
proof -
  have "distinct (outgoing_order p)" "distinct (outgoing_enums_list p)"
    using assms by (auto simp: well_formed_def outgoing_order_def outgoing_enums_list_def outgoing_fields_def)
  moreover have "set (outgoing_order p) = set (outgoing_enums_list p)"
    by (auto simp: outgoing_order_def outgoing_enums_list_def outgoing_fields_def)
  ultimately show ?thesis by (metis distinct_card)
qed

lemma set_zip_index: "set (zip (map int [0..<length es]) es) = (\<lambda>j. (int j, es ! j)) ` {..<length es}"
  by (force simp: set_zip)

lemma pairs_nth:
  assumes "map (\<lambda>l. (f l, g l)) (filter P xs) = zip (map int [0..<length es]) es"
  shows "(\<forall>l\<in>set xs. P l \<longrightarrow> ds ! nat (f l) = g l) \<longleftrightarrow> (\<forall>j<length es. ds ! j = es ! j)"
proof -
  have "(\<forall>l\<in>set xs. P l \<longrightarrow> ds ! nat (f l) = g l) \<longleftrightarrow>
      (\<forall>(i, e)\<in>set (map (\<lambda>l. (f l, g l)) (filter P xs)). ds ! nat i = e)" by auto
  also have "\<dots> \<longleftrightarrow> (\<forall>j<length es. ds ! j = es ! j)"
    unfolding assms set_zip_index by auto
  finally show ?thesis .
qed

text \<open>
  C28. The indices in the table of a well-formed protocol. Every incoming message has an index, its
  position in the list of incoming values, and no other message has one. The index of an outgoing
  message is its position in the list of outgoing values for every message only if that list starts with
  the messages that are incoming too, in the order of the incoming list. The index over all messages stays
  below their number only if at most one message is outgoing only.
\<close>

theorem message_indices:
  assumes "well_formed p"
  shows "map (\<lambda>l. (ml_protocol_index_in l, ml_enum_value l)) (filter (\<lambda>l. ml_protocol_index_in l \<noteq> -1) (msg_type_luts p)) =
      zip (map int [0..<length (pr_incoming p)]) (incoming_enums_list p) \<and>
    ((\<forall>l\<in>set (msg_type_luts p). ml_protocol_index_out l \<noteq> -1 \<longrightarrow>
        outgoing_enums_list p ! nat (ml_protocol_index_out l) = ml_enum_value l) \<longleftrightarrow>
      outgoing_enums_list p = filter (\<lambda>e. e \<in> set (outgoing_enums_list p)) (incoming_enums_list p) @
        filter (\<lambda>e. e \<notin> set (incoming_enums_list p)) (outgoing_enums_list p)) \<and>
    ((\<forall>l\<in>set (msg_type_luts p). ml_protocol_index l < int (length (msg_type_luts p))) \<longleftrightarrow>
      length (filter (\<lambda>e. e \<notin> set (incoming_enums_list p)) (outgoing_enums_list p)) \<le> 1)"
    (is "?incoming \<and> (?outgoing \<longleftrightarrow> _ = ?order) \<and> (?all \<longleftrightarrow> length ?only \<le> 1)")
proof (intro conjI)
  show ?incoming using luts_in [of p] unfolding msg_types_count_incoming_def .
next
  have order: "?order = outgoing_order p"
    by (simp add: outgoing_order_def outgoing_fields_def incoming_fields_def outgoing_enums_list_def incoming_enums_list_def)
  show "?outgoing \<longleftrightarrow> outgoing_enums_list p = ?order"
    unfolding order pairs_nth [OF luts_out] using length_outgoing_order [OF assms]
    by (auto intro: nth_equalityI)
next
  define n m where "n = msg_types_count_incoming p" and "m = length (outgoing_only p)"
  have only: "length ?only = m"
    by (simp add: m_def outgoing_only_def incoming_fields_def outgoing_enums_list_def incoming_enums_list_def filter_map comp_def)
  have "length (map ml_protocol_index (msg_type_luts p)) = n + m"
    unfolding luts_all by (simp add: n_def m_def)
  then have len: "length (msg_type_luts p) = n + m" by simp
  have "?all \<longleftrightarrow> (\<forall>i\<in>set (map ml_protocol_index (msg_type_luts p)). i < int (n + m))" unfolding len by simp
  also have "\<dots> \<longleftrightarrow> (\<forall>i<m. n + 2 * i < n + m)"
    unfolding luts_all n_def [symmetric] m_def [symmetric] by (force simp: ball_Un)
  also have "\<dots> \<longleftrightarrow> m \<le> 1"
  proof
    assume "\<forall>i<m. n + 2 * i < n + m"
    then show "m \<le> 1" by (cases m) (auto dest: spec [of _ "m - 1"])
  qed auto
  finally show "?all \<longleftrightarrow> length ?only \<le> 1" unfolding only .
qed

text \<open>The messages of \<open>ping_pong.proto\<close> as the server sees them, and one more for both directions.\<close>

definition example_protocol :: protocol where
  "example_protocol = \<lparr>
     pr_incoming = [\<lparr>pm_type = ''pp::PingRequest'', pm_enum_id = ''pp::PING_REQUEST''\<rparr>,
                    \<lparr>pm_type = ''pp::BothWay'', pm_enum_id = ''pp::BOTH_WAY''\<rparr>],
     pr_outgoing = [\<lparr>pm_type = ''pp::PongReply'', pm_enum_id = ''pp::PONG_REPLY''\<rparr>,
                    \<lparr>pm_type = ''pp::BothWay'', pm_enum_id = ''pp::BOTH_WAY''\<rparr>,
                    \<lparr>pm_type = ''pp::MultiSendMsg'', pm_enum_id = ''pp::MULTI_SEND_MSG''\<rparr>]\<rparr>"

lemma example_well_formed: "well_formed example_protocol"
  by code_simp

theorem tables_are_inverse_witness:
  "well_formed example_protocol \<and> type_of_enum example_protocol ''pp::BOTH_WAY'' = Some ''pp::BothWay''"
  using tables_are_inverse [OF example_well_formed, of "''pp::BothWay''" "''pp::BOTH_WAY''"] example_well_formed
  by (simp add: example_protocol_def)

theorem message_indices_witness:
  "well_formed example_protocol \<and>
   map ml_protocol_index (msg_type_luts example_protocol) = [0, 1, 2, 4] \<and>
   map (\<lambda>l. (ml_protocol_index_in l, ml_enum_value l))
     (filter (\<lambda>l. ml_protocol_index_in l \<noteq> -1) (msg_type_luts example_protocol)) =
     [(0, ''pp::PING_REQUEST''), (1, ''pp::BOTH_WAY'')] \<and>
   \<not> (\<forall>l\<in>set (msg_type_luts example_protocol). ml_protocol_index_out l \<noteq> -1 \<longrightarrow>
        outgoing_enums_list example_protocol ! nat (ml_protocol_index_out l) = ml_enum_value l)"
proof -
  have "outgoing_enums_list example_protocol = [''pp::PONG_REPLY'', ''pp::BOTH_WAY'', ''pp::MULTI_SEND_MSG'']"
      "incoming_enums_list example_protocol = [''pp::PING_REQUEST'', ''pp::BOTH_WAY'']"
      "map ml_protocol_index (msg_type_luts example_protocol) = [0, 1, 2, 4]"
    by code_simp+
  moreover have "length (pr_incoming example_protocol) = 2" by (simp add: example_protocol_def)
  ultimately show ?thesis
    using message_indices [OF example_well_formed] example_well_formed by (simp add: upt_rec)
qed

end
