(* ===== verification/EntryParams.thy ===== *)
theory EntryParams
  imports Entry
begin

text \<open>
  How an entry is made, from \<open>proto_entry/include/opio/proto_entry/entry_base.hpp\<close> (the parameter holder
  \<open>entry_ctor_params_t\<close>, \<open>safe_make_message_consumer\<close>, \<open>execute_for_reference\<close>),
  \<open>proto_entry/src/opio/proto_entry/entry_base.cpp\<close> (the counter of connection ids) and
  \<open>proto_entry/templates/entry.tmpl.hpp\<close> (\<open>make_custom\<close>). The parameters of types the traits choose are
  values of type variables; an exception is \<open>Inl\<close> with its \<open>what()\<close>.
\<close>

section \<open>Connection ids\<close>

text \<open>\<open>connection_id_counter++\<close> on an atomic: the id, and the counter afterwards.\<close>

definition make_global_unique_connection_id :: "u64 \<Rightarrow> u64 \<times> u64" where
  "make_global_unique_connection_id connection_id_counter = (connection_id_counter, connection_id_counter + 1)"

section \<open>Message consumers\<close>

text \<open>
  What the type \<open>Message_Consumer\<close> is: an object, a pointer to one (\<open>None\<close> is null), or a weak pointer
  (\<open>None\<close> when \<open>lock()\<close> gives null: it was never set, or its object is gone).
\<close>

datatype 'c consumer =
    Instance 'c
  | Raw_ptr "'c option"
  | Unique_ptr "'c option"
  | Shared_ptr "'c option"
  | Weak_ptr "'c option"

datatype consumer_kind = K_instance | K_raw_ptr | K_unique_ptr | K_shared_ptr | K_weak_ptr

fun kind_of :: "'c consumer \<Rightarrow> consumer_kind" where
  "kind_of (Instance _) = K_instance"
| "kind_of (Raw_ptr _) = K_raw_ptr"
| "kind_of (Unique_ptr _) = K_unique_ptr"
| "kind_of (Shared_ptr _) = K_shared_ptr"
| "kind_of (Weak_ptr _) = K_weak_ptr"

text \<open>
  \<open>param_giveaway\<close>: the value that was set, the default constructed one (\<open>dflt\<close>, \<open>None\<close> where the type
  has none), or an exception.
\<close>

definition param_giveaway :: "'a option \<Rightarrow> 'a option \<Rightarrow> string \<Rightarrow> string + 'a" where
  "param_giveaway dflt param param_name =
     (case param of
        None \<Rightarrow> (case dflt of
            Some v \<Rightarrow> Inr v
          | None \<Rightarrow> Inl (''entry parameter '' @ param_name @
              '' must be explicitly set (the type is not default constructible)''))
      | Some v \<Rightarrow> Inr v)"

text \<open>
  \<open>safe_make_message_consumer\<close>, overloaded for the three pointers that must not be null. A weak pointer
  has no overload, it is an object that can be default constructed. \<open>dflt\<close> is the default constructed
  consumer object.
\<close>

fun safe_make_message_consumer :: "'c option \<Rightarrow> consumer_kind \<Rightarrow> 'c consumer option \<Rightarrow> string + 'c consumer" where
  "safe_make_message_consumer dflt K_instance param =
     param_giveaway (map_option Instance dflt) param ''message_consumer''"
| "safe_make_message_consumer dflt K_raw_ptr param =
     (case param of
        None \<Rightarrow> Inl (''entry parameter message_consumer must be explicitly set '' @
                     ''(the type is a pointer, default value is not allowed)'')
      | Some c \<Rightarrow> Inr c)"
| "safe_make_message_consumer dflt K_unique_ptr param =
     (case param of
        None \<Rightarrow> Inl (''entry parameter message_consumer is unique_ptr<T> and must be explicitly set '' @
                     ''(default value is not allowed)'')
      | Some c \<Rightarrow> Inr c)"
| "safe_make_message_consumer dflt K_shared_ptr param =
     (case param of
        None \<Rightarrow> Inl (''entry parameter message_consumer is shared_ptr<T> and must be explicitly set '' @
                     ''(default value is not allowed)'')
      | Some c \<Rightarrow> Inr c)"
| "safe_make_message_consumer dflt K_weak_ptr param =
     param_giveaway (Some (Weak_ptr None)) param ''message_consumer''"

text \<open>
  \<open>execute_for_reference\<close>. The result is the assertion \<open>None\<close>, or what the function returned, if it was
  called, and the consumer with the object the function left.
\<close>

definition execute_for_reference_impl :: "'c \<Rightarrow> ('c \<Rightarrow> 'r \<times> 'c) \<Rightarrow> 'r \<times> 'c" where
  "execute_for_reference_impl message_consumer f = f message_consumer"

fun execute_for_reference :: "'c consumer \<Rightarrow> ('c \<Rightarrow> 'r \<times> 'c) \<Rightarrow> ('r option \<times> 'c consumer) option" where
  "execute_for_reference (Instance c) f =
     (let (r, c) = execute_for_reference_impl c f in Some (Some r, Instance c))"
| "execute_for_reference (Raw_ptr p) f = do {
     c \<leftarrow> p;
     let (r, c) = execute_for_reference_impl c f;
     Some (Some r, Raw_ptr (Some c)) }"
| "execute_for_reference (Unique_ptr p) f = do {
     c \<leftarrow> p;
     let (r, c) = execute_for_reference_impl c f;
     Some (Some r, Unique_ptr (Some c)) }"
| "execute_for_reference (Shared_ptr p) f = do {
     c \<leftarrow> p;
     let (r, c) = execute_for_reference_impl c f;
     Some (Some r, Shared_ptr (Some c)) }"
| "execute_for_reference (Weak_ptr p) f =
     (case p of
        Some c \<Rightarrow> (let (r, c) = execute_for_reference_impl c f in Some (Some r, Weak_ptr (Some c)))
      | None \<Rightarrow> Some (None, Weak_ptr None))"

text \<open>\<open>consume_message\<close>: \<open>on_message\<close> of the user's object, that may throw.\<close>

definition consume_message ::
  "('c \<Rightarrow> u16 \<Rightarrow> 'm carrier \<Rightarrow> string option \<times> 'c) \<Rightarrow> 'c consumer \<Rightarrow> u16 \<Rightarrow> 'm carrier \<Rightarrow>
   (string option option \<times> 'c consumer) option" where
  "consume_message on_message message_consumer message_id message =
     execute_for_reference message_consumer (\<lambda>mc. on_message mc message_id message)"

section \<open>The parameter holder\<close>

record ('log, 'drv, 'wd, 'ust, 'str, 'c, 'st) entry_ctor_params =
  m_conn_id :: "u64 option"
  m_underlying_cfg :: connection_cfg
  m_logger :: "'log option"
  m_buffer_driver :: "'drv option"
  m_operation_watchdog :: "'wd option"
  m_underlying_stats_driver :: "'ust option"
  m_strand :: "'str option"
  m_cfg :: entry_cfg
  m_shutdown_handler :: shutdown_handler_variant
  m_message_consumer :: "'c consumer option"
  m_stats_driver :: "'st option"

type_synonym ('log, 'drv, 'wd, 'ust, 'str, 'c, 'st) params_change =
  "('log, 'drv, 'wd, 'ust, 'str, 'c, 'st) entry_ctor_params \<Rightarrow> ('log, 'drv, 'wd, 'ust, 'str, 'c, 'st) entry_ctor_params"

definition default_entry_ctor_params :: "('log, 'drv, 'wd, 'ust, 'str, 'c, 'st) entry_ctor_params" where
  "default_entry_ctor_params =
     \<lparr>m_conn_id = None, m_underlying_cfg = default_connection_cfg, m_logger = None, m_buffer_driver = None,
      m_operation_watchdog = None, m_underlying_stats_driver = None, m_strand = None, m_cfg = default_entry_cfg,
      m_shutdown_handler = Sh_not_supplied, m_message_consumer = None, m_stats_driver = None\<rparr>"

text \<open>The setters; of the two overloads the one for rvalues calls the other.\<close>

definition set_connection_id :: "u64 \<Rightarrow> ('log, 'drv, 'wd, 'ust, 'str, 'c, 'st) params_change" where
  "set_connection_id conn_id p = p\<lparr>m_conn_id := Some conn_id\<rparr>"

definition set_underlying_connection_cfg :: "connection_cfg \<Rightarrow> ('log, 'drv, 'wd, 'ust, 'str, 'c, 'st) params_change" where
  "set_underlying_connection_cfg underlying_cfg p = p\<lparr>m_underlying_cfg := underlying_cfg\<rparr>"

definition set_logger :: "'log \<Rightarrow> ('log, 'drv, 'wd, 'ust, 'str, 'c, 'st) params_change" where
  "set_logger log p = p\<lparr>m_logger := Some log\<rparr>"

definition set_buffer_driver :: "'drv \<Rightarrow> ('log, 'drv, 'wd, 'ust, 'str, 'c, 'st) params_change" where
  "set_buffer_driver buffer_driver p = p\<lparr>m_buffer_driver := Some buffer_driver\<rparr>"

definition set_operation_watchdog :: "'wd \<Rightarrow> ('log, 'drv, 'wd, 'ust, 'str, 'c, 'st) params_change" where
  "set_operation_watchdog operation_watchdog p = p\<lparr>m_operation_watchdog := Some operation_watchdog\<rparr>"

definition set_underlying_stats_driver :: "'ust \<Rightarrow> ('log, 'drv, 'wd, 'ust, 'str, 'c, 'st) params_change" where
  "set_underlying_stats_driver underlying_stats_driver p = p\<lparr>m_underlying_stats_driver := Some underlying_stats_driver\<rparr>"

definition set_strand :: "'str \<Rightarrow> ('log, 'drv, 'wd, 'ust, 'str, 'c, 'st) params_change" where
  "set_strand strand p = p\<lparr>m_strand := Some strand\<rparr>"

definition set_entry_config :: "entry_cfg \<Rightarrow> ('log, 'drv, 'wd, 'ust, 'str, 'c, 'st) params_change" where
  "set_entry_config cfg p = p\<lparr>m_cfg := cfg\<rparr>"

definition set_shutdown_handler :: "('log, 'drv, 'wd, 'ust, 'str, 'c, 'st) params_change" where
  "set_shutdown_handler p = p\<lparr>m_shutdown_handler := Sh_handler\<rparr>"

definition set_shutdown_handler2 :: "('log, 'drv, 'wd, 'ust, 'str, 'c, 'st) params_change" where
  "set_shutdown_handler2 p = p\<lparr>m_shutdown_handler := Sh_handler2\<rparr>"

definition set_message_consumer :: "'c consumer \<Rightarrow> ('log, 'drv, 'wd, 'ust, 'str, 'c, 'st) params_change" where
  "set_message_consumer message_consumer p = p\<lparr>m_message_consumer := Some message_consumer\<rparr>"

definition set_stats_driver :: "'st \<Rightarrow> ('log, 'drv, 'wd, 'ust, 'str, 'c, 'st) params_change" where
  "set_stats_driver stats_driver p = p\<lparr>m_stats_driver := Some stats_driver\<rparr>"

text \<open>\<open>connection_id()\<close>: the first call without an id takes one from the counter and keeps it.\<close>

definition get_connection_id ::
  "u64 \<Rightarrow> ('log, 'drv, 'wd, 'ust, 'str, 'c, 'st) entry_ctor_params \<Rightarrow>
   u64 \<times> u64 \<times> ('log, 'drv, 'wd, 'ust, 'str, 'c, 'st) entry_ctor_params" where
  "get_connection_id counter p =
     (case m_conn_id p of
        Some conn_id \<Rightarrow> (conn_id, counter, p)
      | None \<Rightarrow> (let (conn_id, counter) = make_global_unique_connection_id counter
                in (conn_id, counter, p\<lparr>m_conn_id := Some conn_id\<rparr>)))"

section \<open>Making an entry\<close>

text \<open>
  What the types of the traits allow: the default constructed values (\<open>None\<close> where there is none), the
  watchdog made from the executor of the socket (a \<open>static_assert\<close> demands that there is one), the
  strand made from it, the kind of the consumer, and the number of buffers of the input stream.
\<close>

record ('log, 'drv, 'wd, 'ust, 'str, 'c, 'st) entry_types =
  et_logger :: "'log option"
  et_buffer_driver :: "'drv option"
  et_watchdog_from_executor :: 'wd
  et_underlying_stats_driver :: "'ust option"
  et_strand_from_executor :: "'str option"
  et_strand :: "'str option"
  et_consumer_kind :: consumer_kind
  et_consumer :: "'c option"
  et_stats_driver :: "'st option"
  et_buffer_queue_capacity :: nat

text \<open>An entry with the parts the constructor and \<open>init_underlying_connection\<close> store beside \<open>m\<close> its base.\<close>

record ('log, 'drv, 'wd, 'ust, 'str, 'c, 'st, 'm) core_entry =
  co_base :: "'m entry"
  co_connection_id :: u64
  co_underlying_cfg :: connection_cfg
  co_logger :: 'log
  co_buffer_driver :: 'drv
  co_operation_watchdog :: 'wd
  co_underlying_stats :: 'ust
  co_strand :: 'str
  co_consumer :: "'c consumer"
  co_stats :: 'st

definition make_custom_full ::
  "nat \<Rightarrow> int \<Rightarrow> u64 \<Rightarrow> connection_cfg \<Rightarrow> 'log \<Rightarrow> 'drv \<Rightarrow> 'wd \<Rightarrow> 'ust \<Rightarrow> 'str \<Rightarrow> entry_cfg \<Rightarrow> shutdown_handler_variant \<Rightarrow>
   'c consumer \<Rightarrow> 'st \<Rightarrow> ('log, 'drv, 'wd, 'ust, 'str, 'c, 'st, 'm) core_entry" where
  "make_custom_full capacity now conn_id underlying_cfg log drv wd ust str cfg shutdown_handler consumer st =
     (let base = entry_ctor cfg shutdown_handler capacity;
          base = init_underlying_connection now base
      in \<lparr>co_base = base, co_connection_id = conn_id, co_underlying_cfg = underlying_cfg, co_logger = log,
          co_buffer_driver = drv, co_operation_watchdog = wd, co_underlying_stats = ust, co_strand = str,
          co_consumer = consumer, co_stats = st\<rparr>)"

definition make_operation_watchdog ::
  "('log, 'drv, 'wd, 'ust, 'str, 'c, 'st) entry_types \<Rightarrow> ('log, 'drv, 'wd, 'ust, 'str, 'c, 'st) entry_ctor_params \<Rightarrow> 'wd" where
  "make_operation_watchdog T p =
     (case m_operation_watchdog p of Some wd \<Rightarrow> wd | None \<Rightarrow> et_watchdog_from_executor T)"

definition make_strand ::
  "('log, 'drv, 'wd, 'ust, 'str, 'c, 'st) entry_types \<Rightarrow> ('log, 'drv, 'wd, 'ust, 'str, 'c, 'st) entry_ctor_params \<Rightarrow> string + 'str" where
  "make_strand T p =
     (case m_strand p of
        Some str \<Rightarrow> Inr str
      | None \<Rightarrow> (case et_strand_from_executor T of
          Some str \<Rightarrow> Inr str
        | None \<Rightarrow> (case et_strand T of
            Some str \<Rightarrow> Inr str
          | None \<Rightarrow> Inl (''entry parameter strand must be explicitly set '' @
              ''(the type is not default constructible or constructible from socket.get_executor())''))))"

text \<open>
  \<open>make_custom( socket, params )\<close> at the time \<open>now\<close>, and the counter of the ids afterwards. C++ leaves
  open in which order the arguments are evaluated; here it is the order in which they are written.
\<close>

definition make_custom ::
  "('log, 'drv, 'wd, 'ust, 'str, 'c, 'st) entry_types \<Rightarrow> int \<Rightarrow> u64 \<Rightarrow>
   ('log, 'drv, 'wd, 'ust, 'str, 'c, 'st) entry_ctor_params \<Rightarrow>
   (string + ('log, 'drv, 'wd, 'ust, 'str, 'c, 'st, 'm) core_entry) \<times> u64" where
  "make_custom T now counter p =
     (let wd = make_operation_watchdog T p in
      case make_strand T p of Inl what \<Rightarrow> (Inl what, counter) | Inr str \<Rightarrow>
      let (conn_id, counter, p) = get_connection_id counter p in
      case param_giveaway (et_logger T) (m_logger p) ''logger'' of Inl what \<Rightarrow> (Inl what, counter) | Inr log \<Rightarrow>
      case param_giveaway (et_buffer_driver T) (m_buffer_driver p) ''buffer_driver'' of
        Inl what \<Rightarrow> (Inl what, counter) | Inr drv \<Rightarrow>
      case param_giveaway (et_underlying_stats_driver T) (m_underlying_stats_driver p) ''underlying_stats_driver'' of
        Inl what \<Rightarrow> (Inl what, counter) | Inr ust \<Rightarrow>
      case safe_make_message_consumer (et_consumer T) (et_consumer_kind T) (m_message_consumer p) of
        Inl what \<Rightarrow> (Inl what, counter) | Inr consumer \<Rightarrow>
      case param_giveaway (et_stats_driver T) (m_stats_driver p) ''stats_driver'' of
        Inl what \<Rightarrow> (Inl what, counter) | Inr st \<Rightarrow>
      (Inr (make_custom_full (et_buffer_queue_capacity T) now conn_id (m_underlying_cfg p) log drv wd ust str
         (m_cfg p) (m_shutdown_handler p) consumer st), counter))"

text \<open>
  \<open>make_custom( socket, param_setter )\<close>: a function of the user calls setters on default parameters. It
  is given as the list of its calls.
\<close>

datatype ('log, 'drv, 'wd, 'ust, 'str, 'c, 'st) setter_call =
    Connection_id u64
  | Underlying_connection_cfg connection_cfg
  | Logger 'log
  | Buffer_driver 'drv
  | Operation_watchdog 'wd
  | Underlying_stats_driver 'ust
  | Strand 'str
  | Entry_config entry_cfg
  | Shutdown_handler
  | Shutdown_handler2
  | Message_consumer "'c consumer"
  | Stats_driver 'st

fun call_setter :: "('log, 'drv, 'wd, 'ust, 'str, 'c, 'st) setter_call \<Rightarrow> ('log, 'drv, 'wd, 'ust, 'str, 'c, 'st) params_change" where
  "call_setter (Connection_id conn_id) = set_connection_id conn_id"
| "call_setter (Underlying_connection_cfg cfg) = set_underlying_connection_cfg cfg"
| "call_setter (Logger log) = set_logger log"
| "call_setter (Buffer_driver drv) = set_buffer_driver drv"
| "call_setter (Operation_watchdog wd) = set_operation_watchdog wd"
| "call_setter (Underlying_stats_driver ust) = set_underlying_stats_driver ust"
| "call_setter (Strand str) = set_strand str"
| "call_setter (Entry_config cfg) = set_entry_config cfg"
| "call_setter Shutdown_handler = set_shutdown_handler"
| "call_setter Shutdown_handler2 = set_shutdown_handler2"
| "call_setter (Message_consumer c) = set_message_consumer c"
| "call_setter (Stats_driver st) = set_stats_driver st"

definition make_custom_with_setter ::
  "('log, 'drv, 'wd, 'ust, 'str, 'c, 'st) entry_types \<Rightarrow> int \<Rightarrow> u64 \<Rightarrow>
   ('log, 'drv, 'wd, 'ust, 'str, 'c, 'st) setter_call list \<Rightarrow>
   (string + ('log, 'drv, 'wd, 'ust, 'str, 'c, 'st, 'm) core_entry) \<times> u64" where
  "make_custom_with_setter T now counter calls =
     make_custom T now counter (fold call_setter calls default_entry_ctor_params)"

section \<open>Parameters\<close>

definition "the_conn_id s = (case s of Connection_id v \<Rightarrow> Some v | _ \<Rightarrow> None)"
definition "the_underlying_cfg s = (case s of Underlying_connection_cfg v \<Rightarrow> Some v | _ \<Rightarrow> None)"
definition "the_logger s = (case s of Logger v \<Rightarrow> Some v | _ \<Rightarrow> None)"
definition "the_buffer_driver s = (case s of Buffer_driver v \<Rightarrow> Some v | _ \<Rightarrow> None)"
definition "the_watchdog s = (case s of Operation_watchdog v \<Rightarrow> Some v | _ \<Rightarrow> None)"
definition "the_underlying_stats s = (case s of Underlying_stats_driver v \<Rightarrow> Some v | _ \<Rightarrow> None)"
definition "the_strand s = (case s of Strand v \<Rightarrow> Some v | _ \<Rightarrow> None)"
definition "the_config s = (case s of Entry_config v \<Rightarrow> Some v | _ \<Rightarrow> None)"
definition "the_shutdown_handler s = (case s of Shutdown_handler \<Rightarrow> Some Sh_handler | Shutdown_handler2 \<Rightarrow> Some Sh_handler2 | _ \<Rightarrow> None)"
definition "the_consumer s = (case s of Message_consumer v \<Rightarrow> Some v | _ \<Rightarrow> None)"
definition "the_stats s = (case s of Stats_driver v \<Rightarrow> Some v | _ \<Rightarrow> None)"

lemmas the_setting_defs = the_conn_id_def the_underlying_cfg_def the_logger_def the_buffer_driver_def the_watchdog_def
  the_underlying_stats_def the_strand_def the_config_def the_shutdown_handler_def the_consumer_def the_stats_def

lemmas setter_defs = set_connection_id_def set_underlying_connection_cfg_def set_logger_def set_buffer_driver_def
  set_operation_watchdog_def set_underlying_stats_driver_def set_strand_def set_entry_config_def set_shutdown_handler_def
  set_shutdown_handler2_def set_message_consumer_def set_stats_driver_def

lemma fold_setters:
  "fold call_setter calls default_entry_ctor_params =
     \<lparr>m_conn_id = last_argument the_conn_id calls, m_underlying_cfg = or_else (last_argument the_underlying_cfg calls) default_connection_cfg,
      m_logger = last_argument the_logger calls, m_buffer_driver = last_argument the_buffer_driver calls,
      m_operation_watchdog = last_argument the_watchdog calls, m_underlying_stats_driver = last_argument the_underlying_stats calls,
      m_strand = last_argument the_strand calls, m_cfg = or_else (last_argument the_config calls) default_entry_cfg,
      m_shutdown_handler = or_else (last_argument the_shutdown_handler calls) Sh_not_supplied,
      m_message_consumer = last_argument the_consumer calls, m_stats_driver = last_argument the_stats calls\<rparr>"
proof (induction calls rule: rev_induct)
  case Nil
  show ?case by (simp add: default_entry_ctor_params_def)
next
  case (snoc s calls)
  then show ?case by (cases s) (simp_all add: setter_defs the_setting_defs)
qed

lemma param_giveaway_eq:
  "param_giveaway dflt param name = Inr v \<longleftrightarrow> pick param dflt = Some v"
  "(\<exists>what. param_giveaway dflt param name = Inl what) \<longleftrightarrow> pick param dflt = None"
  by (auto simp: param_giveaway_def pick_def split: option.splits)

text \<open>The consumer an entry gets when none was given: none for the three pointers, else the default one.\<close>

definition default_consumer :: "('log, 'drv, 'wd, 'ust, 'str, 'c, 'st) entry_types \<Rightarrow> 'c consumer option" where
  "default_consumer T = (case et_consumer_kind T of
     K_instance \<Rightarrow> map_option Instance (et_consumer T) | K_weak_ptr \<Rightarrow> Some (Weak_ptr None) | _ \<Rightarrow> None)"

lemma safe_make_eq:
  "safe_make_message_consumer (et_consumer T) (et_consumer_kind T) param = Inr c \<longleftrightarrow>
     pick param (default_consumer T) = Some c"
  "(\<exists>what. safe_make_message_consumer (et_consumer T) (et_consumer_kind T) param = Inl what) \<longleftrightarrow>
     pick param (default_consumer T) = None"
  by (cases "et_consumer_kind T"; auto simp: default_consumer_def param_giveaway_def pick_def split: option.splits)+

definition default_strand :: "('log, 'drv, 'wd, 'ust, 'str, 'c, 'st) entry_types \<Rightarrow> 'str option" where
  "default_strand T = (case et_strand_from_executor T of Some s \<Rightarrow> Some s | None \<Rightarrow> et_strand T)"

lemma make_strand_eq:
  "make_strand T p = Inr s \<longleftrightarrow> pick (m_strand p) (default_strand T) = Some s"
  "(\<exists>what. make_strand T p = Inl what) \<longleftrightarrow> pick (m_strand p) (default_strand T) = None"
  by (auto simp: make_strand_def default_strand_def pick_def split: option.splits)

lemma make_custom_cases:
  "make_custom T now counter p = (Inr core, counter') \<Longrightarrow>
     \<exists>str log drv ust c st. make_strand T p = Inr str \<and> param_giveaway (et_logger T) (m_logger p) ''logger'' = Inr log \<and>
       param_giveaway (et_buffer_driver T) (m_buffer_driver p) ''buffer_driver'' = Inr drv \<and>
       param_giveaway (et_underlying_stats_driver T) (m_underlying_stats_driver p) ''underlying_stats_driver'' = Inr ust \<and>
       safe_make_message_consumer (et_consumer T) (et_consumer_kind T) (m_message_consumer p) = Inr c \<and>
       param_giveaway (et_stats_driver T) (m_stats_driver p) ''stats_driver'' = Inr st \<and>
       counter' = (if m_conn_id p = None then counter + 1 else counter) \<and>
       core = make_custom_full (et_buffer_queue_capacity T) now (or_else (m_conn_id p) counter) (m_underlying_cfg p)
         log drv (make_operation_watchdog T p) ust str (m_cfg p) (m_shutdown_handler p) c st"
  by (auto simp: make_custom_def Let_def get_connection_id_def make_global_unique_connection_id_def
      split: sum.splits option.splits prod.splits)

lemma make_custom_fails:
  "make_custom T now counter p = (Inl what, counter') \<Longrightarrow>
     (\<exists>what. make_strand T p = Inl what) \<or> (\<exists>what. param_giveaway (et_logger T) (m_logger p) ''logger'' = Inl what) \<or>
     (\<exists>what. param_giveaway (et_buffer_driver T) (m_buffer_driver p) ''buffer_driver'' = Inl what) \<or>
     (\<exists>what. param_giveaway (et_underlying_stats_driver T) (m_underlying_stats_driver p) ''underlying_stats_driver'' = Inl what) \<or>
     (\<exists>what. safe_make_message_consumer (et_consumer T) (et_consumer_kind T) (m_message_consumer p) = Inl what) \<or>
     (\<exists>what. param_giveaway (et_stats_driver T) (m_stats_driver p) ''stats_driver'' = Inl what)"
  by (auto simp: make_custom_def Let_def get_connection_id_def make_global_unique_connection_id_def
      split: sum.splits option.splits prod.splits)

section \<open>Properties\<close>

text \<open>
  C29. Making an entry with any sequence of calls of the setters. It throws exactly when one of strand,
  logger, buffer driver, statistics driver of the connection, message consumer or statistics driver was not
  set and has no default. Otherwise every part of the entry is the argument of the last call of its
  setter, whatever the order of the calls, or its default, an id that was not given comes from the counter,
  and the new entry reads and has started the heartbeat with the timeout of its configuration.
\<close>

theorem make_takes_latest_setting:
  "case make_custom_with_setter T now counter calls of
     (Inl what, counter') \<Rightarrow>
       given the_strand calls (default_strand T) = None \<or> given the_logger calls (et_logger T) = None \<or>
       given the_buffer_driver calls (et_buffer_driver T) = None \<or>
       given the_underlying_stats calls (et_underlying_stats_driver T) = None \<or>
       given the_consumer calls (default_consumer T) = None \<or> given the_stats calls (et_stats_driver T) = None
   | (Inr core, counter') \<Rightarrow>
       Some (co_strand core) = given the_strand calls (default_strand T) \<and>
       Some (co_logger core) = given the_logger calls (et_logger T) \<and>
       Some (co_buffer_driver core) = given the_buffer_driver calls (et_buffer_driver T) \<and>
       Some (co_underlying_stats core) = given the_underlying_stats calls (et_underlying_stats_driver T) \<and>
       Some (co_consumer core) = given the_consumer calls (default_consumer T) \<and>
       Some (co_stats core) = given the_stats calls (et_stats_driver T) \<and>
       Some (co_operation_watchdog core) = given the_watchdog calls (Some (et_watchdog_from_executor T)) \<and>
       Some (co_underlying_cfg core) = given the_underlying_cfg calls (Some default_connection_cfg) \<and>
       Some (co_connection_id core) = given the_conn_id calls (Some counter) \<and>
       counter' = (if last_argument the_conn_id calls = None then counter + 1 else counter) \<and>
       (let cfg = or_else (last_argument the_config calls) default_entry_cfg
        in co_base core =
             \<lparr>en_connection_is_active = True, en_cfg = cfg, en_pkg_input = pkg_input_new (et_buffer_queue_capacity T),
              en_shutdown_handler = or_else (last_argument the_shutdown_handler calls) Sh_not_supplied,
              en_last_input_at = now, en_heartbeat_sent_count = 0,
              en_out = [Ee_start_reading, Ee_timer_expires_after (hb_initiate_heartbeat_timeout (ec_heartbeat cfg))]\<rparr>)"
    (is "case_prod ?spec ?made")
proof -
  define p where "p = fold call_setter calls default_entry_ctor_params"
  note p = p_def [unfolded fold_setters]
  obtain res counter' where res: "?made = (res, counter')" by force
  then have made: "make_custom T now counter p = (res, counter')" by (simp add: make_custom_with_setter_def p_def)
  show ?thesis
  proof (cases res)
    case (Inl what)
    from make_custom_fails [OF made [unfolded this]] show ?thesis
      unfolding param_giveaway_eq safe_make_eq make_strand_eq res Inl
      by (simp add: p given_def)
  next
    case (Inr core)
    from make_custom_cases [OF made [unfolded this]] show ?thesis
      unfolding param_giveaway_eq safe_make_eq make_strand_eq res Inr
      by (auto simp: p given_def pick_Some make_custom_full_def make_operation_watchdog_def Let_def or_else_def
          entry_ctor_def init_underlying_connection_def update_last_input_at_def schedule_next_heartbeat_check_def
          get_initiate_heartbeat_timeout_def)
  qed
qed

text \<open>The ids the counter gives to \<open>n\<close> entries.\<close>

fun generated_ids :: "nat \<Rightarrow> u64 \<Rightarrow> u64 list" where
  "generated_ids 0 counter = []"
| "generated_ids (Suc n) counter =
     (let (conn_id, counter) = make_global_unique_connection_id counter in conn_id # generated_ids n counter)"

lemma generated_ids_eq: "generated_ids n counter = map (\<lambda>i. counter + word_of_nat i) [0..<n]"
proof (induction n arbitrary: counter)
  case (Suc n)
  have "map (\<lambda>i. counter + word_of_nat i) [0..<Suc n] = counter # map (\<lambda>i. counter + 1 + word_of_nat i) [0..<n]"
    unfolding map_upt_Suc by (simp add: ac_simps)
  then show ?case by (simp add: make_global_unique_connection_id_def Suc)
qed simp

text \<open>
  The ids of the counter are unique as long as no more than \<open>2 ^ 64\<close> are taken, from whatever value
  it starts, and not longer.
\<close>

lemma generated_ids_unique: "distinct (generated_ids n counter) \<longleftrightarrow> n \<le> 2 ^ 64"
proof
  assume d: "distinct (generated_ids n counter)"
  show "n \<le> 2 ^ 64"
  proof (rule ccontr)
    assume "\<not> n \<le> 2 ^ 64"
    then have n: "0 < n" "2 ^ 64 < n" by simp_all
    define k :: nat where "k = 2 ^ 64"
    have nth: "generated_ids n counter ! i = counter + word_of_nat i" if "i < n" for i
      using that by (simp add: generated_ids_eq)
    have "(word_of_nat k :: u64) = word_of_nat 0" unfolding word_of_nat_eq_iff by (simp add: take_bit_eq_mod k_def)
    then have "generated_ids n counter ! 0 = generated_ids n counter ! k"
      using n unfolding k_def [symmetric] by (simp add: nth)
    moreover have "length (generated_ids n counter) = n" "k \<noteq> 0" by (simp_all add: generated_ids_eq k_def)
    ultimately show False using n nth_eq_iff_index_eq [OF d, of 0 k] unfolding k_def [symmetric] by simp
  qed
next
  assume "n \<le> 2 ^ 64"
  then have "inj_on (\<lambda>i. counter + word_of_nat i :: u64) {0..<n}"
    by (auto simp: inj_on_def word_of_nat_eq_iff take_bit_eq_mod)
  then show "distinct (generated_ids n counter)" unfolding generated_ids_eq by (simp add: distinct_map)
qed

text \<open>Consuming a sequence of messages, the last result included.\<close>

fun consume_all ::
  "('c \<Rightarrow> u16 \<Rightarrow> 'm carrier \<Rightarrow> string option \<times> 'c) \<Rightarrow> 'c consumer \<Rightarrow> (u16 \<times> 'm carrier) list \<Rightarrow> 'c consumer option" where
  "consume_all on_message c [] = Some c"
| "consume_all on_message c ((message_id, message) # msgs) = do {
     (_, c) \<leftarrow> consume_message on_message c message_id message;
     consume_all on_message c msgs }"

fun object_of :: "'c consumer \<Rightarrow> 'c option" where
  "object_of (Instance c) = Some c"
| "object_of (Raw_ptr p) = p"
| "object_of (Unique_ptr p) = p"
| "object_of (Shared_ptr p) = p"
| "object_of (Weak_ptr p) = p"

lemma map_consumer_simps [simp]:
  "kind_of (map_consumer f c) = kind_of c" "object_of (map_consumer f c) = map_option f (object_of c)"
  by (cases c; simp)+

lemma consume_message_object:
  assumes "object_of c = Some x"
  shows "consume_message on_message c i m =
    Some (Some (fst (on_message x i m)), map_consumer (\<lambda>_. snd (on_message x i m)) c)"
proof -
  obtain r x' where "on_message x i m = (r, x')" by force
  then show ?thesis using assms by (cases c) (simp_all add: consume_message_def execute_for_reference_impl_def)
qed

lemma consume_all_object:
  "object_of c = Some x \<Longrightarrow> \<exists>c'. consume_all on_message c msgs = Some c' \<and> kind_of c' = kind_of c \<and>
     object_of c' = Some (fold (\<lambda>(i, m) x. snd (on_message x i m)) msgs x)"
proof (induction msgs arbitrary: c x)
  case (Cons im msgs)
  obtain i m where im: "im = (i, m)" by (cases im)
  show ?case
    using Cons.IH [of "map_consumer (\<lambda>_. snd (on_message x i m)) c" "snd (on_message x i m)"] Cons.prems
    by (simp add: im consume_message_object)
qed simp

lemma consume_all_expired: "consume_all on_message (Weak_ptr None) msgs = Some (Weak_ptr None)"
  by (induction msgs) (auto simp: consume_message_def)

text \<open>
  C30. The consumer of an entry keeps its type. If what the user set has the type of the consumer and is
  not a null pointer, the consumer of the entry has that type, no assertion fails however many messages it
  gets, its type stays, and its object has seen all of them in order; only a weak pointer to no object, the
  default of its type, drops them all.
\<close>

theorem consumer_well_typed:
  assumes "safe_make_message_consumer dflt kind param = Inr c"
    and "\<forall>c\<in>set_option param. kind_of c = kind \<and> (object_of c \<noteq> None \<or> kind = K_weak_ptr)"
  shows "kind_of c = kind \<and>
    (\<exists>c'. consume_all on_message c msgs = Some c' \<and> kind_of c' = kind \<and>
       object_of c' = map_option (fold (\<lambda>(i, m) x. snd (on_message x i m)) msgs) (object_of c)) \<and>
    (object_of c = None \<longrightarrow> c = Weak_ptr None)"
proof -
  have c: "kind_of c = kind" "object_of c \<noteq> None \<or> c = Weak_ptr None"
    using assms by (cases kind; cases param; cases c; auto simp: param_giveaway_def split: option.splits)+
  show ?thesis
  proof (cases "object_of c")
    case None
    then show ?thesis using c by (auto simp: consume_all_expired)
  next
    case (Some x)
    from consume_all_object [OF this, of on_message msgs] show ?thesis using c Some by auto
  qed
qed

theorem consumer_well_typed_witness:
  "\<exists>c'. consume_all (\<lambda>x i (m :: nat carrier). (None, x + mc_message m)) (Shared_ptr (Some 1))
       [(7, \<lparr>mc_message = 2, mc_attached_buffer = []\<rparr>), (8, \<lparr>mc_message = 3, mc_attached_buffer = []\<rparr>)] = Some c' \<and>
     object_of c' = Some 6"
  using consumer_well_typed [of None K_shared_ptr "Some (Shared_ptr (Some 1))" "Shared_ptr (Some (1 :: nat))"
      "\<lambda>x i m. (None, x + mc_message m)"
      "[(7, \<lparr>mc_message = 2, mc_attached_buffer = []\<rparr>), (8, \<lparr>mc_message = 3, mc_attached_buffer = []\<rparr>)]"]
  by auto

end
