(* ===== verification/EntryStrand.thy ===== *)
theory EntryStrand
  imports EntryProps
begin

text \<open>
  The functions of an entry that only put work on its strand: \<open>close\<close> and what the connection's end
  posts (\<open>entry_base.hpp\<close>), \<open>post_send\<close> and \<open>dispatch_send\<close> of \<open>entry.tmpl.hpp\<close>. A strand runs one work at
  a time, in the order posted; \<open>dispatch\<close> runs the work at once when it is called on the strand.
  \<open>post_send_with_cb\<close> and \<open>dispatch_send\<close> with a callback have no model: they pass the arguments of
  \<open>send_with_cb\<close> in the wrong order and do not compile.
\<close>

section \<open>The strand of an entry\<close>

datatype 'm entry_work =
    W_send u16 'm
  | W_close
  | W_handle_shutdown connection_shutdown_reason

record 'm entry_strand =
  st_entry :: "'m entry"
  st_works :: "'m entry_work list"

fun run_work :: "'m message_api \<Rightarrow> 'm entry_work \<Rightarrow> 'm entry \<Rightarrow> 'm entry option" where
  "run_work mapi (W_send enum_id msg) e = entry_send mapi e enum_id msg"
| "run_work mapi W_close e = close_work e"
| "run_work mapi (W_handle_shutdown reason) e = handle_shutdown e reason"

definition post_work :: "'m entry_work \<Rightarrow> 'm entry_strand \<Rightarrow> 'm entry_strand" where
  "post_work w st = st\<lparr>st_works := st_works st @ [w]\<rparr>"

definition dispatch_work :: "bool \<Rightarrow> 'm message_api \<Rightarrow> 'm entry_work \<Rightarrow> 'm entry_strand \<Rightarrow> 'm entry_strand option" where
  "dispatch_work on_strand mapi w st =
     (if on_strand then do { e \<leftarrow> run_work mapi w (st_entry st); Some (st\<lparr>st_entry := e\<rparr>) }
      else Some (post_work w st))"

definition entry_post_send :: "u16 \<Rightarrow> 'm \<Rightarrow> 'm entry_strand \<Rightarrow> 'm entry_strand" where
  "entry_post_send enum_id msg st = post_work (W_send enum_id msg) st"

definition entry_dispatch_send :: "bool \<Rightarrow> 'm message_api \<Rightarrow> u16 \<Rightarrow> 'm \<Rightarrow> 'm entry_strand \<Rightarrow> 'm entry_strand option" where
  "entry_dispatch_send on_strand mapi enum_id msg st = dispatch_work on_strand mapi (W_send enum_id msg) st"

definition close_entry :: "'m entry_strand \<Rightarrow> 'm entry_strand" where
  "close_entry st = post_work W_close st"

text \<open>The shutdown handler the entry gives its connection.\<close>

definition on_connection_shutdown :: "connection_shutdown_reason \<Rightarrow> 'm entry_strand \<Rightarrow> 'm entry_strand" where
  "on_connection_shutdown reason st = post_work (W_handle_shutdown reason) st"

fun run_works :: "'m message_api \<Rightarrow> 'm entry_work list \<Rightarrow> 'm entry \<Rightarrow> 'm entry option" where
  "run_works mapi [] e = Some e"
| "run_works mapi (w # ws) e = do { e \<leftarrow> run_work mapi w e; run_works mapi ws e }"

definition drain_strand :: "'m message_api \<Rightarrow> 'm entry_strand \<Rightarrow> 'm entry_strand option" where
  "drain_strand mapi st = do {
     e \<leftarrow> run_works mapi (st_works st) (st_entry st);
     Some (st\<lparr>st_entry := e, st_works := []\<rparr>) }"

section \<open>Calls from outside the strand\<close>

datatype 'm outside_call =
    Call_post_send u16 'm
  | Call_dispatch_send u16 'm
  | Call_close
  | Connection_ended connection_shutdown_reason

fun make_call :: "'m message_api \<Rightarrow> 'm outside_call \<Rightarrow> 'm entry_strand \<Rightarrow> 'm entry_strand option" where
  "make_call mapi (Call_post_send enum_id msg) st = Some (entry_post_send enum_id msg st)"
| "make_call mapi (Call_dispatch_send enum_id msg) st = entry_dispatch_send False mapi enum_id msg st"
| "make_call mapi Call_close st = Some (close_entry st)"
| "make_call mapi (Connection_ended reason) st = Some (on_connection_shutdown reason st)"

fun make_calls :: "'m message_api \<Rightarrow> 'm outside_call list \<Rightarrow> 'm entry_strand \<Rightarrow> 'm entry_strand option" where
  "make_calls mapi [] st = Some st"
| "make_calls mapi (c # cs) st = do { st \<leftarrow> make_call mapi c st; make_calls mapi cs st }"

text \<open>What the calls amount to: sends until the first end, then the events of that end.\<close>

fun outcome_of :: "'m message_api \<Rightarrow> 'm outside_call list \<Rightarrow> 'm entry_event list" where
  "outcome_of mapi [] = []"
| "outcome_of mapi (Call_post_send enum_id msg # cs) =
     Ee_send Op_schedule_send [wire_image mapi (Wp_message enum_id msg [])] # outcome_of mapi cs"
| "outcome_of mapi (Call_dispatch_send enum_id msg # cs) =
     Ee_send Op_schedule_send [wire_image mapi (Wp_message enum_id msg [])] # outcome_of mapi cs"
| "outcome_of mapi (Call_close # cs) =
     [Ee_connection_shutdown, Ee_shutdown_handler2 (shutdown_context_of Esr_user_initiated), Ee_timer_cancel]"
| "outcome_of mapi (Connection_ended reason # cs) =
     [Ee_shutdown_handler2 (shutdown_context_conn reason), Ee_timer_cancel]"

fun ends :: "'m outside_call \<Rightarrow> bool" where
  "ends Call_close \<longleftrightarrow> True"
| "ends (Connection_ended reason) \<longleftrightarrow> True"
| "ends _ \<longleftrightarrow> False"

fun call_ok :: "'m message_api \<Rightarrow> 'm outside_call \<Rightarrow> bool" where
  "call_ok mapi (Call_post_send enum_id msg) \<longleftrightarrow> message_ok mapi msg \<and> length (serialize mapi msg) < 2 ^ 32"
| "call_ok mapi (Call_dispatch_send enum_id msg) \<longleftrightarrow> message_ok mapi msg \<and> length (serialize mapi msg) < 2 ^ 32"
| "call_ok mapi _ \<longleftrightarrow> True"

fun work_of :: "'m outside_call \<Rightarrow> 'm entry_work" where
  "work_of (Call_post_send enum_id msg) = W_send enum_id msg"
| "work_of (Call_dispatch_send enum_id msg) = W_send enum_id msg"
| "work_of Call_close = W_close"
| "work_of (Connection_ended reason) = W_handle_shutdown reason"

lemma make_calls_eq: "make_calls mapi cs st = Some (st\<lparr>st_works := st_works st @ map work_of cs\<rparr>)"
proof (induction cs arbitrary: st)
  case (Cons c cs)
  then show ?case
    by (cases c) (simp_all add: entry_post_send_def entry_dispatch_send_def dispatch_work_def close_entry_def
        on_connection_shutdown_def post_work_def)
qed simp

lemma send_work_event:
  assumes "message_ok mapi msg" "length (serialize mapi msg) < 2 ^ 32"
  shows "entry_send mapi e enum_id msg = Some (if en_connection_is_active e
    then emit [Ee_send Op_schedule_send [wire_image mapi (Wp_message enum_id msg [])]] e else e)"
  by (simp add: entry_send_def image_bytes_eq [OF assms] schedule_send_raw_bufs_def message_header_def)

lemma works_of_ended:
  "\<not> en_connection_is_active e \<Longrightarrow> \<forall>c\<in>set cs. call_ok mapi c \<Longrightarrow> run_works mapi (map work_of cs) e = Some e"
proof (induction cs)
  case (Cons c cs)
  then show ?case
    by (cases c) (simp_all add: send_work_event close_work_def shutdown_and_terminate_def handle_shutdown_def)
qed simp

lemma works_of_active:
  assumes "en_connection_is_active e" "en_shutdown_handler e = Sh_handler2" "\<forall>c\<in>set cs. call_ok mapi c"
  shows "\<exists>e'. run_works mapi (map work_of cs) e = Some e' \<and> en_out e' = en_out e @ outcome_of mapi cs \<and>
    en_connection_is_active e' = (\<forall>c\<in>set cs. \<not> ends c)"
  using assms
proof (induction cs arbitrary: e)
  case (Cons c cs)
  show ?case
  proof (cases "ends c")
    case False
    then obtain enum_id msg where c: "work_of c = W_send enum_id msg" "message_ok mapi msg" "length (serialize mapi msg) < 2 ^ 32"
        "outcome_of mapi (c # cs) = Ee_send Op_schedule_send [wire_image mapi (Wp_message enum_id msg [])] # outcome_of mapi cs"
      using Cons.prems(3) by (cases c) auto
    let ?e = "emit [Ee_send Op_schedule_send [wire_image mapi (Wp_message enum_id msg [])]] e"
    obtain e' where "run_works mapi (map work_of cs) ?e = Some e'" "en_out e' = en_out ?e @ outcome_of mapi cs"
        "en_connection_is_active e' = (\<forall>c\<in>set cs. \<not> ends c)"
      using Cons.IH [of ?e] Cons.prems by auto
    then show ?thesis using Cons.prems(1) False by (simp add: c(1,4) send_work_event [OF c(2,3)])
  next
    case True
    let ?e = "e\<lparr>en_out := en_out e @ outcome_of mapi (c # cs), en_shutdown_handler := Sh_was_called,
        en_connection_is_active := False\<rparr>"
    have "run_work mapi (work_of c) e = Some ?e"
      using True Cons.prems(1,2)
      by (cases c) (simp_all add: close_work_def shutdown_and_terminate_def handle_shutdown_def terminate_def)
    then show ?thesis using works_of_ended [of ?e cs mapi] Cons.prems(3) True by auto
  qed
qed simp

text \<open>
  C31. Calls made from outside the strand take effect in the order made. Once the strand has run, the
  messages given to \<open>post_send\<close> and \<open>dispatch_send\<close> before the first \<open>close()\<close> or end of the connection
  were sent, in order, the events of that end followed once, and nothing asked for afterwards did
  anything; without an end the entry is still active.
\<close>

theorem outside_calls_in_order:
  assumes "en_connection_is_active (st_entry st)" "en_shutdown_handler (st_entry st) = Sh_handler2"
    and "st_works st = []" "\<forall>c\<in>set calls. call_ok mapi c"
  shows "\<exists>st1 st2. make_calls mapi calls st = Some st1 \<and> st_entry st1 = st_entry st \<and> drain_strand mapi st1 = Some st2 \<and>
    en_out (st_entry st2) = en_out (st_entry st) @ outcome_of mapi calls \<and>
    en_connection_is_active (st_entry st2) = (\<forall>c\<in>set calls. \<not> ends c)"
  using works_of_active [OF assms(1,2,4)] assms(3) by (auto simp: make_calls_eq drain_strand_def)

theorem outside_calls_in_order_witness:
  "\<exists>st2 :: byte list entry_strand. en_out (st_entry st2) = en_out (fresh_entry default_entry_cfg Sh_handler2 8 0) @
     [Ee_send Op_schedule_send [wire_image sample_mapi (Wp_message 7 [1] [])],
      Ee_connection_shutdown, Ee_shutdown_handler2 (shutdown_context_of Esr_user_initiated), Ee_timer_cancel] \<and>
     \<not> en_connection_is_active (st_entry st2)"
  using outside_calls_in_order [of "\<lparr>st_entry = fresh_entry default_entry_cfg Sh_handler2 8 0, st_works = []\<rparr>"
      "[Call_dispatch_send 7 [1], Call_close, Call_post_send 7 [2 :: byte]]" sample_mapi]
  by (auto simp: message_ok_def sample_mapi_def)

end
