(* ===== verification/MessageCarrier.thy ===== *)
theory MessageCarrier
  imports Buffer
begin

text \<open>
  \<open>proto_entry/include/opio/proto_entry/message_carrier.hpp\<close> and
  \<open>proto_entry/include/opio/proto_entry/impl/protobuf_parsing_engines.hpp\<close>: the two ways to parse a message
  and to hand it to the user, by value or in an arena of its own that the carrier owns. Protobuf's
  \<open>ParseFromZeroCopyStream\<close> is the argument \<open>parse\<close>: the message if it parsed, and the stream afterwards.
  The arenas are a heap: \<open>Arena::Create\<close> puts one message into an arena, and an arena lives until the
  \<open>unique_ptr\<close> that owns it is destroyed or gets another one.
\<close>

section \<open>Messages by value\<close>

record 'm trivial_carrier =
  tc_message :: 'm
  tc_attached_buffer :: simple_buffer

definition trivial_parse_package :: "('i \<Rightarrow> 'm option \<times> 'i) \<Rightarrow> 'i \<Rightarrow> 'm option \<times> 'i" where
  "trivial_parse_package parse input =
     (case parse input of
        (Some msg, input) \<Rightarrow> (Some msg, input)
      | (None, input) \<Rightarrow> (None, input))"

definition trivial_carry_message :: "'m \<Rightarrow> 'm trivial_carrier" where
  "trivial_carry_message msg = \<lparr>tc_message = msg, tc_attached_buffer = sb_default\<rparr>"

definition trivial_carry_message_attached :: "'m \<Rightarrow> simple_buffer \<Rightarrow> 'm trivial_carrier" where
  "trivial_carry_message_attached msg attached_buf = \<lparr>tc_message = msg, tc_attached_buffer = fst (sb_move_construct attached_buf)\<rparr>"

section \<open>Messages in arenas\<close>

text \<open>The arenas alive, by their number, with the message in each; \<open>None\<close> is a message not yet parsed.\<close>

record 'm arenas =
  ar_next :: nat
  ar_alive :: "nat \<rightharpoonup> 'm option"

definition make_arena :: "'m arenas \<Rightarrow> nat \<times> 'm arenas" where
  "make_arena h = (ar_next h, h\<lparr>ar_next := ar_next h + 1, ar_alive := (ar_alive h)(ar_next h \<mapsto> None)\<rparr>)"

definition free_arena :: "nat option \<Rightarrow> 'm arenas \<Rightarrow> 'm arenas" where
  "free_arena p h = (case p of None \<Rightarrow> h | Some a \<Rightarrow> h\<lparr>ar_alive := (ar_alive h)(a := None)\<rparr>)"

text \<open>A pointer to a message is the number of its arena. Reading through it is defined while that lives.\<close>

record arena_parse_results =
  ap_arena :: "nat option"
  ap_message :: "nat option"

record arena_carrier =
  ac_message :: "nat option"
  ac_arena_anchor :: "nat option"
  ac_attached_buffer :: simple_buffer

definition arena_parse_results_new :: "'m arenas \<Rightarrow> arena_parse_results \<times> 'm arenas" where
  "arena_parse_results_new h = (let (a, h) = make_arena h in (\<lparr>ap_arena = Some a, ap_message = Some a\<rparr>, h))"

text \<open>\<open>common_protobuf_parsing_engine_t::parse_package\<close>; the failed results take their arena with them.\<close>

definition arena_parse_package ::
  "('i \<Rightarrow> 'm option \<times> 'i) \<Rightarrow> 'i \<Rightarrow> 'm arenas \<Rightarrow> (arena_parse_results option \<times> 'i \<times> 'm arenas) option" where
  "arena_parse_package parse input h = do {
     let (res, h) = arena_parse_results_new h;
     check (ap_arena res \<noteq> None);
     a \<leftarrow> ap_message res;
     case parse input of
       (Some msg, input) \<Rightarrow> Some (Some res, input, h\<lparr>ar_alive := (ar_alive h)(a \<mapsto> Some msg)\<rparr>)
     | (None, input) \<Rightarrow> Some (None, input, free_arena (ap_arena res) h) }"

text \<open>The carrier, and the results whose arena was moved out.\<close>

definition arena_carry_message :: "arena_parse_results \<Rightarrow> (arena_carrier \<times> arena_parse_results) option" where
  "arena_carry_message res = do {
     check (ap_arena res \<noteq> None);
     Some (\<lparr>ac_message = ap_message res, ac_arena_anchor = ap_arena res, ac_attached_buffer = sb_default\<rparr>,
           res\<lparr>ap_arena := None\<rparr>) }"

definition arena_carry_message_attached ::
  "arena_parse_results \<Rightarrow> simple_buffer \<Rightarrow> (arena_carrier \<times> arena_parse_results) option" where
  "arena_carry_message_attached res attached_buf = do {
     check (ap_arena res \<noteq> None);
     Some (\<lparr>ac_message = ap_message res, ac_arena_anchor = ap_arena res,
            ac_attached_buffer = fst (sb_move_construct attached_buf)\<rparr>,
           res\<lparr>ap_arena := None\<rparr>) }"

text \<open>\<open>get()\<close> and \<open>*\<close>: the message, if the pointer is not null and its arena alive.\<close>

definition arena_get :: "'m arenas \<Rightarrow> arena_carrier \<Rightarrow> 'm option" where
  "arena_get h c = do { a \<leftarrow> ac_message c; m \<leftarrow> ar_alive h a; m }"

section \<open>Moving carriers\<close>

text \<open>
  The carriers of a program by their variables, so that a carrier can be assigned to itself. The move
  assignment follows the source: the pointer is copied, then the pointer of the source cleared, then the
  arena moved, which frees the one the target had, then the buffer.
\<close>

record 'm carriers =
  cs_arenas :: "'m arenas"
  cs_carriers :: "nat \<rightharpoonup> arena_carrier"

definition arena_move_assign :: "nat \<Rightarrow> nat \<Rightarrow> 'm carriers \<Rightarrow> 'm carriers option" where
  "arena_move_assign this carrier s = do {
     t \<leftarrow> cs_carriers s this;
     c \<leftarrow> cs_carriers s carrier;
     let s = s\<lparr>cs_carriers := (cs_carriers s)(this \<mapsto> t\<lparr>ac_message := ac_message c\<rparr>)\<rparr>;
     c \<leftarrow> cs_carriers s carrier;
     let s = s\<lparr>cs_carriers := (cs_carriers s)(carrier \<mapsto> c\<lparr>ac_message := None\<rparr>)\<rparr>;
     c \<leftarrow> cs_carriers s carrier;
     let released = ac_arena_anchor c;
     let s = s\<lparr>cs_carriers := (cs_carriers s)(carrier \<mapsto> c\<lparr>ac_arena_anchor := None\<rparr>)\<rparr>;
     t \<leftarrow> cs_carriers s this;
     let s = s\<lparr>cs_carriers := (cs_carriers s)(this \<mapsto> t\<lparr>ac_arena_anchor := released\<rparr>),
               cs_arenas := free_arena (ac_arena_anchor t) (cs_arenas s)\<rparr>;
     c \<leftarrow> cs_carriers s carrier;
     t \<leftarrow> cs_carriers s this;
     let (buf, rest) = sb_move_assign (ac_attached_buffer t) (ac_attached_buffer c);
     let s = s\<lparr>cs_carriers := (cs_carriers s)(carrier \<mapsto> c\<lparr>ac_attached_buffer := rest\<rparr>)\<rparr>;
     t \<leftarrow> cs_carriers s this;
     Some (s\<lparr>cs_carriers := (cs_carriers s)(this \<mapsto> t\<lparr>ac_attached_buffer := buf\<rparr>)\<rparr>) }"

text \<open>The move constructor: default members, of which the pointer is not initialized, and an assignment.\<close>

definition arena_move_construct :: "nat \<Rightarrow> nat \<Rightarrow> nat option \<Rightarrow> 'm carriers \<Rightarrow> 'm carriers option" where
  "arena_move_construct this carrier garbage s =
     arena_move_assign this carrier
       (s\<lparr>cs_carriers := (cs_carriers s)(this \<mapsto>
            \<lparr>ac_message = garbage, ac_arena_anchor = None, ac_attached_buffer = sb_default\<rparr>)\<rparr>)"

definition arena_destroy :: "nat \<Rightarrow> 'm carriers \<Rightarrow> 'm carriers option" where
  "arena_destroy this s = do {
     t \<leftarrow> cs_carriers s this;
     Some (s\<lparr>cs_carriers := (cs_carriers s)(this := None), cs_arenas := free_arena (ac_arena_anchor t) (cs_arenas s)\<rparr>) }"

text \<open>A parsed package put into a new variable, with the bytes that came with it, if any.\<close>

definition arena_receive ::
  "nat \<Rightarrow> ('i \<Rightarrow> 'm option \<times> 'i) \<Rightarrow> 'i \<Rightarrow> simple_buffer option \<Rightarrow> 'm carriers \<Rightarrow> (bool \<times> 'i \<times> 'm carriers) option" where
  "arena_receive this parse input attached s = do {
     (res, input, h) \<leftarrow> arena_parse_package parse input (cs_arenas s);
     case res of
       None \<Rightarrow> Some (False, input, s\<lparr>cs_arenas := h\<rparr>)
     | Some res \<Rightarrow> do {
         (c, res) \<leftarrow> (case attached of None \<Rightarrow> arena_carry_message res | Some b \<Rightarrow> arena_carry_message_attached res b);
         Some (True, input, s\<lparr>cs_arenas := free_arena (ap_arena res) h, cs_carriers := (cs_carriers s)(this \<mapsto> c)\<rparr>) } }"

section \<open>What a program does with carriers\<close>

inductive carriers_step :: "('i \<Rightarrow> 'm option \<times> 'i) \<Rightarrow> 'm carriers \<Rightarrow> 'm carriers \<Rightarrow> bool" for parse where
  cs_receive: "cs_carriers s x = None \<Longrightarrow> arena_receive x parse input attached s = Some (ok, input', s') \<Longrightarrow>
    carriers_step parse s s'"
| cs_move_construct: "cs_carriers s x = None \<Longrightarrow> cs_carriers s y \<noteq> None \<Longrightarrow> arena_move_construct x y garbage s = Some s' \<Longrightarrow>
    carriers_step parse s s'"
| cs_move_assign: "arena_move_assign x y s = Some s' \<Longrightarrow> carriers_step parse s s'"
| cs_destroy: "arena_destroy x s = Some s' \<Longrightarrow> carriers_step parse s s'"

inductive_cases carriers_stepE: "carriers_step parse s s'"

definition no_carriers :: "'m carriers" where
  "no_carriers = \<lparr>cs_arenas = \<lparr>ar_next = 0, ar_alive = Map.empty\<rparr>, cs_carriers = Map.empty\<rparr>"

definition owns :: "'m carriers \<Rightarrow> nat \<Rightarrow> nat \<Rightarrow> bool" where
  "owns s x a \<longleftrightarrow> (\<exists>c. cs_carriers s x = Some c \<and> ac_arena_anchor c = Some a)"

text \<open>Every arena alive has a message and one owner, and a carrier points to its own arena or nowhere.\<close>

definition carriers_inv :: "'m carriers \<Rightarrow> bool" where
  "carriers_inv s \<longleftrightarrow>
     (\<forall>x c. cs_carriers s x = Some c \<longrightarrow> ac_message c = None \<or> ac_message c = ac_arena_anchor c) \<and>
     (\<forall>x a. owns s x a \<longrightarrow> (\<exists>m. ar_alive (cs_arenas s) a = Some (Some m))) \<and>
     (\<forall>x y a. owns s x a \<longrightarrow> owns s y a \<longrightarrow> x = y) \<and>
     (\<forall>a. ar_alive (cs_arenas s) a \<noteq> None \<longrightarrow> (\<exists>x. owns s x a) \<and> a < ar_next (cs_arenas s))"

lemma arena_move_assign_eq:
  assumes "cs_carriers s x = Some t" "cs_carriers s y = Some c"
  shows "arena_move_assign x y s = Some (if x = y then s\<lparr>cs_carriers := (cs_carriers s)(x \<mapsto> c\<lparr>ac_message := None\<rparr>)\<rparr>
    else s\<lparr>cs_carriers := (cs_carriers s)(x \<mapsto> c,
             y \<mapsto> \<lparr>ac_message = None, ac_arena_anchor = None, ac_attached_buffer = sb_default\<rparr>),
           cs_arenas := free_arena (ac_arena_anchor t) (cs_arenas s)\<rparr>)"
proof (cases "x = y")
  case True
  then show ?thesis
    using assms
    by (cases c, cases "ac_attached_buffer c")
      (simp add: arena_move_assign_def sb_move_assign_def Let_def free_arena_def)
next
  case False
  then show ?thesis
    using assms
    by (cases c, cases t, cases "ac_attached_buffer c", cases "ac_attached_buffer t")
      (simp add: arena_move_assign_def sb_move_assign_def Let_def sb_default_def fun_upd_twist)
qed

lemma arena_receive_eq:
  "arena_receive x parse input attached s =
    (let a = ar_next (cs_arenas s)
     in case parse input of
          (Some msg, input) \<Rightarrow> Some (True, input, s\<lparr>cs_arenas := \<lparr>ar_next = a + 1, ar_alive = (ar_alive (cs_arenas s))(a \<mapsto> Some msg)\<rparr>,
             cs_carriers := (cs_carriers s)(x \<mapsto> \<lparr>ac_message = Some a, ac_arena_anchor = Some a,
               ac_attached_buffer = (case attached of None \<Rightarrow> sb_default | Some b \<Rightarrow> b)\<rparr>)\<rparr>)
        | (None, input) \<Rightarrow> Some (False, input, s\<lparr>cs_arenas := \<lparr>ar_next = a + 1, ar_alive = (ar_alive (cs_arenas s))(a := None)\<rparr>\<rparr>))"
  by (simp add: arena_receive_def arena_parse_package_def arena_parse_results_new_def make_arena_def Let_def free_arena_def
      arena_carry_message_def arena_carry_message_attached_def sb_move_construct_eq split: prod.split option.split)

lemma carriers_invD:
  assumes "carriers_inv s"
  shows "cs_carriers s x = Some c \<Longrightarrow> ac_message c = None \<or> ac_message c = ac_arena_anchor c"
    and "owns s x a \<Longrightarrow> \<exists>m. ar_alive (cs_arenas s) a = Some (Some m)"
    and "owns s x a \<Longrightarrow> owns s y a \<Longrightarrow> x = y"
    and "ar_alive (cs_arenas s) a = Some v \<Longrightarrow> \<exists>x. owns s x a"
    and "ar_alive (cs_arenas s) a = Some v \<Longrightarrow> a < ar_next (cs_arenas s)"
  using assms unfolding carriers_inv_def by blast+

lemma fresh_not_owned: "carriers_inv s \<Longrightarrow> \<not> owns s x (ar_next (cs_arenas s))"
  using carriers_invD(2,5) by blast

lemma receive_inv:
  assumes "arena_receive x parse input attached s = Some (ok, input', s')" "cs_carriers s x = None" "carriers_inv s"
  shows "carriers_inv s'"
proof -
  let ?a = "ar_next (cs_arenas s)"
  note inv = carriers_invD [OF assms(3)] and fresh = fresh_not_owned [OF assms(3)]
  have dead: "ar_alive (cs_arenas s) ?a = None" using inv(5) by fastforce
  obtain res rest where p: "parse input = (res, rest)" by force
  show ?thesis
  proof (cases res)
    case None
    then have s': "s' = s\<lparr>cs_arenas := \<lparr>ar_next = ?a + 1, ar_alive = (ar_alive (cs_arenas s))(?a := None)\<rparr>\<rparr>"
      using assms(1) by (simp add: arena_receive_eq p Let_def)
    have owns: "owns s' = owns s" by (simp add: s' owns_def fun_eq_iff)
    show ?thesis
      unfolding carriers_inv_def owns using inv fresh by (auto simp: s' less_Suc_eq)
  next
    case (Some msg)
    define c where "c = \<lparr>ac_message = Some ?a, ac_arena_anchor = Some ?a,
      ac_attached_buffer = (case attached of None \<Rightarrow> sb_default | Some b \<Rightarrow> b)\<rparr>"
    have s': "s' = s\<lparr>cs_arenas := \<lparr>ar_next = ?a + 1, ar_alive = (ar_alive (cs_arenas s))(?a \<mapsto> Some msg)\<rparr>,
        cs_carriers := (cs_carriers s)(x \<mapsto> c)\<rparr>"
      using assms(1) Some by (simp add: arena_receive_eq p Let_def c_def)
    have owns: "owns s' y a \<longleftrightarrow> (if y = x then a = ?a else owns s y a)" for y a
      by (auto simp: s' owns_def c_def)
    have "\<not> owns s x a" for a using assms(2) by (simp add: owns_def)
    then show ?thesis
      unfolding carriers_inv_def owns using inv fresh
      by (auto simp: s' c_def less_Suc_eq split: if_splits) metis
  qed
qed

lemma move_assign_inv:
  assumes "cs_carriers s x = Some t" "cs_carriers s y = Some c" "arena_move_assign x y s = Some s'"
    and "carriers_inv (s\<lparr>cs_carriers := (cs_carriers s)(x \<mapsto> t\<lparr>ac_message := None\<rparr>)\<rparr>)"
  shows "carriers_inv s'"
proof (cases "x = y")
  case True
  then show ?thesis using assms by (simp add: arena_move_assign_eq)
next
  case False
  let ?s = "s\<lparr>cs_carriers := (cs_carriers s)(x \<mapsto> t\<lparr>ac_message := None\<rparr>)\<rparr>"
  note inv = carriers_invD [OF assms(4)]
  have s': "s' = s\<lparr>cs_carriers := (cs_carriers s)(x \<mapsto> c,
             y \<mapsto> \<lparr>ac_message = None, ac_arena_anchor = None, ac_attached_buffer = sb_default\<rparr>),
           cs_arenas := free_arena (ac_arena_anchor t) (cs_arenas s)\<rparr>"
    using assms(3) False by (simp add: arena_move_assign_eq [OF assms(1,2)])
  have owns: "owns s' z a \<longleftrightarrow> (if z = x then owns ?s y a else if z = y then False else owns ?s z a)" for z a
    using False assms(2) by (auto simp: s' owns_def)
  have t: "owns ?s x a \<longleftrightarrow> ac_arena_anchor t = Some a" for a by (simp add: owns_def)
  have alive: "ar_alive (cs_arenas s') a = (if ac_arena_anchor t = Some a then None else ar_alive (cs_arenas s) a)" for a
    by (auto simp: s' free_arena_def split: option.split)
  have nxt: "ar_next (cs_arenas s') = ar_next (cs_arenas s)" by (auto simp: s' free_arena_def split: option.split)
  have c: "ac_message c = None \<or> ac_message c = ac_arena_anchor c" using inv(1) [of y c] assms(2) False by simp
  show ?thesis
    unfolding carriers_inv_def
  proof (intro conjI allI impI)
    fix z d assume "cs_carriers s' z = Some d"
    then show "ac_message d = None \<or> ac_message d = ac_arena_anchor d"
      using c inv(1) [of z d] by (auto simp: s' split: if_splits)
  next
    fix z a assume z: "owns s' z a"
    then obtain w where w: "owns ?s w a" "w \<noteq> x" using False by (auto simp: owns split: if_splits)
    then have "\<not> owns ?s x a" using inv(3) by blast
    then show "\<exists>m. ar_alive (cs_arenas s') a = Some (Some m)" using inv(2) [OF w(1)] by (simp add: alive t)
  next
    fix z w a assume "owns s' z a" "owns s' w a"
    then show "z = w" using inv(3) False by (auto simp: owns split: if_splits dest: inv(3))
  next
    fix a assume a: "ar_alive (cs_arenas s') a \<noteq> None"
    then obtain v where v: "ar_alive (cs_arenas ?s) a = Some v" and na: "\<not> owns ?s x a" by (auto simp: alive t split: if_splits)
    from inv(4) [OF v] obtain z where z: "owns ?s z a" by blast
    with na have "z \<noteq> x" by blast
    with z have "owns s' (if z = y then x else z) a" using False by (auto simp: owns)
    then show "\<exists>x. owns s' x a" by blast
    show "a < ar_next (cs_arenas s')" using inv(5) [OF v] by (simp add: nxt)
  qed
qed

lemma forget_message_inv:
  "carriers_inv s \<Longrightarrow> cs_carriers s x = Some t \<Longrightarrow>
   carriers_inv (s\<lparr>cs_carriers := (cs_carriers s)(x \<mapsto> t\<lparr>ac_message := None\<rparr>)\<rparr>)"
proof -
  assume s: "carriers_inv s" "cs_carriers s x = Some t"
  have "owns (s\<lparr>cs_carriers := (cs_carriers s)(x \<mapsto> t\<lparr>ac_message := None\<rparr>)\<rparr>) = owns s"
    using s(2) by (auto simp: owns_def fun_eq_iff)
  with s show ?thesis by (simp add: carriers_inv_def)
qed

lemma new_carrier_inv:
  assumes "carriers_inv s" "cs_carriers s x = None"
  shows "carriers_inv (s\<lparr>cs_carriers := (cs_carriers s)(x \<mapsto> \<lparr>ac_message = None, ac_arena_anchor = None, ac_attached_buffer = b\<rparr>)\<rparr>)"
proof -
  have "owns (s\<lparr>cs_carriers := (cs_carriers s)(x \<mapsto> \<lparr>ac_message = None, ac_arena_anchor = None, ac_attached_buffer = b\<rparr>)\<rparr>) = owns s"
    using assms(2) by (auto simp: owns_def fun_eq_iff)
  with assms show ?thesis by (simp add: carriers_inv_def)
qed

lemma destroy_inv:
  assumes "carriers_inv s" "arena_destroy x s = Some s'"
  shows "carriers_inv s'"
proof -
  note inv = carriers_invD [OF assms(1)]
  obtain t where t: "cs_carriers s x = Some t" using assms(2) by (auto simp: arena_destroy_def bind_eq_Some_conv)
  then have s': "s' = s\<lparr>cs_carriers := (cs_carriers s)(x := None), cs_arenas := free_arena (ac_arena_anchor t) (cs_arenas s)\<rparr>"
    using assms(2) by (simp add: arena_destroy_def)
  have own: "owns s x a \<longleftrightarrow> ac_arena_anchor t = Some a" for a using t by (simp add: owns_def)
  have owns: "owns s' z a \<longleftrightarrow> z \<noteq> x \<and> owns s z a" for z a by (auto simp: s' owns_def)
  have alive: "ar_alive (cs_arenas s') a = (if owns s x a then None else ar_alive (cs_arenas s) a)" for a
    by (auto simp: s' own free_arena_def split: option.split)
  have nxt: "ar_next (cs_arenas s') = ar_next (cs_arenas s)" by (auto simp: s' free_arena_def split: option.split)
  have c: "ac_message d = None \<or> ac_message d = ac_arena_anchor d" if "cs_carriers s' z = Some d" for z d
    using that inv(1) [of z d] by (auto simp: s' split: if_splits)
  show ?thesis
    unfolding carriers_inv_def owns alive nxt using c inv(2,3,4,5) by (auto split: if_splits) (metis inv(3))+
qed

lemma carriers_step_inv:
  assumes "carriers_step parse s s'" "carriers_inv s"
  shows "carriers_inv s'"
  using assms(1)
proof cases
  case (cs_receive x input attached ok input')
  show ?thesis by (rule receive_inv [OF cs_receive(2,1) assms(2)])
next
  case (cs_move_construct x y garbage)
  define s1 where "s1 = s\<lparr>cs_carriers := (cs_carriers s)(x \<mapsto>
      \<lparr>ac_message = garbage, ac_arena_anchor = None, ac_attached_buffer = sb_default\<rparr>)\<rparr>"
  have "x \<noteq> y" using cs_move_construct(1,2) by auto
  moreover obtain c where "cs_carriers s y = Some c" using cs_move_construct(2) by auto
  ultimately have c: "cs_carriers s1 x = Some \<lparr>ac_message = garbage, ac_arena_anchor = None, ac_attached_buffer = sb_default\<rparr>"
      "cs_carriers s1 y = Some c" by (simp_all add: s1_def)
  show ?thesis
  proof (rule move_assign_inv [OF c])
    show "arena_move_assign x y s1 = Some s'" using cs_move_construct(3) by (simp add: arena_move_construct_def s1_def)
    show "carriers_inv (s1\<lparr>cs_carriers := (cs_carriers s1)(x \<mapsto>
        \<lparr>ac_message = garbage, ac_arena_anchor = None, ac_attached_buffer = sb_default\<rparr>\<lparr>ac_message := None\<rparr>)\<rparr>)"
      using new_carrier_inv [OF assms(2) cs_move_construct(1)] by (simp add: s1_def)
  qed
next
  case (cs_move_assign x y)
  then obtain t c where "cs_carriers s x = Some t" "cs_carriers s y = Some c"
    by (auto simp: arena_move_assign_def bind_eq_Some_conv split: if_splits)
  with cs_move_assign assms(2) show ?thesis using move_assign_inv forget_message_inv by blast
next
  case (cs_destroy x)
  then show ?thesis using destroy_inv [OF assms(2)] by blast
qed

lemma carriers_reachable_inv: "(carriers_step parse)\<^sup>*\<^sup>* no_carriers s \<Longrightarrow> carriers_inv s"
proof (induction rule: rtranclp_induct)
  case base
  show ?case by (simp add: no_carriers_def carriers_inv_def owns_def)
next
  case (step y z)
  then show ?case by (blast intro: carriers_step_inv)
qed

section \<open>Properties\<close>

text \<open>
  C32. However a program parses messages into carriers, moves them around and destroys them, no carrier
  points to a message that is gone, every arena belongs to exactly one carrier, and none is leaked.
\<close>

theorem carriers_are_safe:
  assumes "(carriers_step parse)\<^sup>*\<^sup>* no_carriers s"
  shows "(\<forall>x c. cs_carriers s x = Some c \<longrightarrow> ac_message c \<noteq> None \<longrightarrow> arena_get (cs_arenas s) c \<noteq> None) \<and>
    (\<forall>a. ar_alive (cs_arenas s) a \<noteq> None \<longleftrightarrow> (\<exists>!x. owns s x a))"
proof (intro conjI allI impI)
  note inv = carriers_invD [OF carriers_reachable_inv [OF assms]]
  fix x c assume c: "cs_carriers s x = Some c" "ac_message c \<noteq> None"
  then obtain a where "ac_message c = Some a" "owns s x a" using inv(1) [OF c(1)] by (auto simp: owns_def)
  then show "arena_get (cs_arenas s) c \<noteq> None" using inv(2) by (fastforce simp: arena_get_def)
next
  note inv = carriers_invD [OF carriers_reachable_inv [OF assms]]
  fix a show "ar_alive (cs_arenas s) a \<noteq> None \<longleftrightarrow> (\<exists>!x. owns s x a)"
    using inv(2) [of _ a] inv(3) [of _ a] inv(4) [of a] by (metis not_None_eq option.discI)
qed

text \<open>
  A move assignment between two carriers of such a program hands over the message and the attached
  bytes, leaves the source empty and no other carrier touched; of a carrier to itself it loses the message
  and keeps the bytes.
\<close>

lemma carrier_moves:
  assumes "(carriers_step parse)\<^sup>*\<^sup>* no_carriers s" "cs_carriers s x = Some t" "cs_carriers s y = Some c"
  shows "\<exists>s' t' c'. arena_move_assign x y s = Some s' \<and> cs_carriers s' x = Some t' \<and> cs_carriers s' y = Some c' \<and>
    arena_get (cs_arenas s') t' = (if x = y then None else arena_get (cs_arenas s) c) \<and>
    sb_view (ac_attached_buffer t') = sb_view (ac_attached_buffer c) \<and>
    arena_get (cs_arenas s') c' = None \<and>
    (\<forall>z d. z \<noteq> x \<and> z \<noteq> y \<longrightarrow> cs_carriers s z = Some d \<longrightarrow>
       cs_carriers s' z = Some d \<and> arena_get (cs_arenas s') d = arena_get (cs_arenas s) d)"
proof -
  note inv = carriers_invD [OF carriers_reachable_inv [OF assms(1)]]
  show ?thesis
  proof (cases "x = y")
    case True
    then show ?thesis using assms(2,3) by (simp add: arena_move_assign_eq arena_get_def)
  next
    case False
    define h where "h = free_arena (ac_arena_anchor t) (cs_arenas s)"
    have same: "arena_get h d = arena_get (cs_arenas s) d" if "cs_carriers s z = Some d" "z \<noteq> x" for z d
    proof (cases "ac_message d")
      case (Some a)
      then have "owns s z a" using inv(1) [OF that(1)] that(1) by (simp add: owns_def)
      then have "ac_arena_anchor t \<noteq> Some a" using inv(3) [of z a x] that(2) assms(2) by (auto simp: owns_def)
      then show ?thesis using Some by (auto simp: h_def arena_get_def free_arena_def split: option.split)
    qed (simp add: arena_get_def)
    have "arena_get h c = arena_get (cs_arenas s) c" using same [OF assms(3)] False by simp
    with same False show ?thesis
      unfolding arena_move_assign_eq [OF assms(2,3)] by (auto simp: h_def arena_get_def)
  qed
qed

text \<open>
  The parsing strategy does not matter: with the same parser on the same input both succeed or fail
  together and leave the same stream, and the carrier in an arena has the message and the attached bytes
  that the carrier by value has.
\<close>

lemma strategies_agree:
  "\<exists>s' ok rest. arena_receive x parse input attached s = Some (ok, rest, s') \<and>
     (case trivial_parse_package parse input of
        (Some msg, rest') \<Rightarrow> rest = rest' \<and> ok \<and>
          (\<exists>c. cs_carriers s' x = Some c \<and>
             (let c' = (case attached of None \<Rightarrow> trivial_carry_message msg | Some b \<Rightarrow> trivial_carry_message_attached msg b)
              in arena_get (cs_arenas s') c = Some (tc_message c') \<and> ac_attached_buffer c = tc_attached_buffer c'))
      | (None, rest') \<Rightarrow> rest = rest' \<and> \<not> ok \<and> cs_carriers s' = cs_carriers s)"
  by (cases "parse input"; cases "fst (parse input)"; cases attached)
    (auto simp: arena_receive_eq trivial_parse_package_def Let_def arena_get_def trivial_carry_message_def
      trivial_carry_message_attached_def)

text \<open>A program that receives two messages into the carriers 0 and 1.\<close>

definition demo_parse :: "nat list \<Rightarrow> nat option \<times> nat list" where
  "demo_parse input = (case input of [] \<Rightarrow> (None, []) | m # rest \<Rightarrow> (Some m, rest))"

definition demo_carriers :: "nat carriers" where
  "demo_carriers = (case arena_receive 0 demo_parse [5, 6] None no_carriers of
     Some (_, rest, s) \<Rightarrow> (case arena_receive 1 demo_parse rest (Some (sb_of_bytes [9])) s of Some (_, _, s) \<Rightarrow> s))"

lemma demo_carriers_eq:
  "demo_carriers = \<lparr>cs_arenas = \<lparr>ar_next = 2, ar_alive = [0 \<mapsto> Some 5, 1 \<mapsto> Some 6]\<rparr>,
     cs_carriers = [0 \<mapsto> \<lparr>ac_message = Some 0, ac_arena_anchor = Some 0, ac_attached_buffer = sb_default\<rparr>,
       1 \<mapsto> \<lparr>ac_message = Some 1, ac_arena_anchor = Some 1, ac_attached_buffer = sb_of_bytes [9]\<rparr>]\<rparr>"
  by (simp add: demo_carriers_def demo_parse_def arena_receive_eq no_carriers_def Let_def numeral_2_eq_2)

lemma demo_carriers_reachable: "(carriers_step demo_parse)\<^sup>*\<^sup>* no_carriers demo_carriers"
proof -
  obtain s1 where s1: "arena_receive 0 demo_parse [5, 6] None no_carriers = Some (True, [6], s1)"
    by (simp add: demo_parse_def arena_receive_eq Let_def)
  then have "cs_carriers s1 1 = None" by (auto simp: demo_parse_def arena_receive_eq no_carriers_def Let_def)
  moreover have s2: "arena_receive 1 demo_parse [6] (Some (sb_of_bytes [9])) s1 = Some (True, [], demo_carriers)"
    by (simp add: demo_carriers_def s1) (simp add: demo_parse_def arena_receive_eq Let_def)
  ultimately have "carriers_step demo_parse s1 demo_carriers" by (rule carriers_step.cs_receive)
  moreover have "cs_carriers no_carriers 0 = None" by (simp add: no_carriers_def)
  then have "carriers_step demo_parse no_carriers s1" using s1 by (rule carriers_step.cs_receive)
  ultimately show ?thesis by (meson r_into_rtranclp rtranclp_trans)
qed

theorem carriers_are_safe_witness: "\<exists>!x. owns demo_carriers x 1"
proof -
  have "ar_alive (cs_arenas demo_carriers) 1 \<noteq> None" by (simp add: demo_carriers_eq)
  then show ?thesis using carriers_are_safe [OF demo_carriers_reachable] by blast
qed

lemma carrier_moves_witness:
  "\<exists>s' t. arena_move_assign 0 1 demo_carriers = Some s' \<and> cs_carriers s' 0 = Some t \<and> arena_get (cs_arenas s') t = Some 6"
proof -
  obtain t c where c: "cs_carriers demo_carriers 0 = Some t" "cs_carriers demo_carriers 1 = Some c"
      "arena_get (cs_arenas demo_carriers) c = Some 6"
    by (simp add: demo_carriers_eq arena_get_def)
  from carrier_moves [OF demo_carriers_reachable c(1,2)] c(3) show ?thesis by auto
qed

end
