(* ===== verification/TextValues.thy ===== *)
theory TextValues
  imports BinaryViewFmt
begin

text \<open>
  Values with a text in the configuration: the log levels (\<open>logger/src/opio/logger/log.cpp\<close>,
  \<open>logger/src/opio/logger/cfg_json.cpp\<close>) and the internet protocol
  (\<open>net/include/opio/net/tcp/cfg_json.hpp\<close>), with the factory of loggers
  (\<open>logger/src/opio/logger/logger_factory.cpp\<close>, \<open>sink_factory.cpp\<close>) that the former configure. An
  exception is \<open>Inl\<close> with its \<open>what()\<close>.
\<close>

section \<open>Log levels\<close>

text \<open>A level is the number of its enumerator; a cast makes any \<open>int\<close> one.\<close>

type_synonym log_level = int

definition all_levels :: "string list" where
  "all_levels = [''trace'', ''debug'', ''info'', ''warn'', ''error'', ''critical'', ''nolog'']"

definition nolog :: log_level where "nolog = 6"
definition info :: log_level where "info = 2"

fun index_of :: "'a \<Rightarrow> 'a list \<Rightarrow> nat" where
  "index_of x [] = 0"
| "index_of x (y # ys) = (if x = y then 0 else index_of x ys + 1)"

text \<open>\<open>fmt::join\<close>.\<close>

fun join :: "string \<Rightarrow> string list \<Rightarrow> string" where
  "join sep [] = []"
| "join sep [s] = s"
| "join sep (s # ss) = s @ sep @ join sep ss"

definition quote :: string where "quote = [CHR 0x22]"

definition log_level_from_string :: "string \<Rightarrow> string + log_level" where
  "log_level_from_string str =
     (let level_it = index_of str all_levels
      in if level_it = length all_levels
         then Inl (''invalid log_level value, must be one of: '' @ quote @ join (quote @ '', '' @ quote) all_levels @ quote)
         else Inr (int level_it))"

definition fmt_int :: "int \<Rightarrow> string" where
  "fmt_int n = (if n < 0 then ''-'' @ fmt_d (nat (- n)) else fmt_d (nat n))"

definition invalid_numeric_level :: "int \<Rightarrow> string" where
  "invalid_numeric_level numeric_value =
     ''invalid log_level value, the numeric representation must be in a range 0..'' @ fmt_d (length all_levels) @
     '', while '' @ fmt_int numeric_value @ '' is provided''"

definition log_level_to_string :: "log_level \<Rightarrow> string + string" where
  "log_level_to_string lvl =
     (let numeric_value = lvl
      in if numeric_value \<ge> int (length all_levels) \<or> numeric_value < 0
         then Inl (invalid_numeric_level numeric_value)
         else Inr (all_levels ! nat numeric_value))"

text \<open>A value of rapidjson, as far as these functions tell them apart.\<close>

datatype json_value = J_string string | J_other

definition read_log_level :: "json_value \<Rightarrow> string + log_level" where
  "read_log_level object =
     (case object of
        J_string s \<Rightarrow> log_level_from_string s
      | J_other \<Rightarrow> Inl ''log_level must be a string'')"

definition write_log_level :: "log_level \<Rightarrow> string + json_value" where
  "write_log_level v =
     (let numeric_value = v
      in if numeric_value \<ge> int (length all_levels) \<or> numeric_value < 0
         then Inl (invalid_numeric_level numeric_value)
         else (case log_level_to_string v of Inl what \<Rightarrow> Inl what | Inr s \<Rightarrow> Inr (J_string s)))"

section \<open>The internet protocol\<close>

datatype ip_tcp = Ip_v4 | Ip_v6

text \<open>
  \<open>read_string\<close> is json_dto's \<open>read_json_value\<close> for strings. The message of an exception in here goes
  into \<open>fmt::format\<close> with a format that has no place for it.
\<close>

definition read_ip_tcp :: "(json_value \<Rightarrow> string + string) \<Rightarrow> json_value \<Rightarrow> string + ip_tcp" where
  "read_ip_tcp read_string object =
     (let v = (case read_string object of
                 Inl what \<Rightarrow> Inl what
               | Inr str \<Rightarrow>
                   if str = ''v4'' then Inr Ip_v4
                   else if str = ''v6'' then Inr Ip_v6
                   else Inl (''unknown protocol '' @ str))
      in case v of Inr p \<Rightarrow> Inr p | Inl what \<Rightarrow> Inl ''unable to read asio_ns::ip::tcp: '')"

definition write_ip_tcp :: "ip_tcp \<Rightarrow> json_value" where
  "write_ip_tcp v = (let representation = (if v = Ip_v4 then ''v4'' else ''v5'') in J_string representation)"

section \<open>Loggers\<close>

datatype logger_sink =
    Color_sink "string option"
  | Daily_sink string "string option"

record logger =
  lg_name :: string
  lg_sinks :: "logger_sink list"
  lg_level :: log_level

record logger_factory =
  lf_default_level :: log_level
  lf_sinks :: "logger_sink list"

record global_logger_cfg =
  gl_log_message_pattern :: string
  gl_path :: string
  gl_global_log_level :: log_level
  gl_log_to_stdout :: bool

definition default_global_logger_cfg :: global_logger_cfg where
  "default_global_logger_cfg =
     \<lparr>gl_log_message_pattern = ''[%Y-%m-%d %H:%M:%S.%e] [%n] [%^%l%$] %v [%g:%#]'' @ [CHR 0x0A], gl_path = ''./'',
      gl_global_log_level = info, gl_log_to_stdout = False\<rparr>"

text \<open>\<open>operator/\<close> of \<open>std::filesystem::path\<close> with \<open>/\<close> as the separator.\<close>

definition path_append :: "string \<Rightarrow> string \<Rightarrow> string" where
  "path_append p q =
     (if q \<noteq> [] \<and> hd q = CHR ''/'' then q
      else if p = [] \<or> last p = CHR ''/'' then p @ q
      else p @ ''/'' @ q)"

text \<open>The directory is created too; \<open>create_directories\<close> says whether that throws.\<close>

definition prepare_path_and_basename :: "(string \<Rightarrow> string option) \<Rightarrow> string \<Rightarrow> string \<Rightarrow> string + string" where
  "prepare_path_and_basename create_directories path filename_prefix =
     (case create_directories path of
        Some what \<Rightarrow> Inl what
      | None \<Rightarrow> Inr (path_append path filename_prefix))"

definition make_color_sink :: "string option \<Rightarrow> logger_sink" where
  "make_color_sink pattern = Color_sink pattern"

definition make_daily_sink :: "(string \<Rightarrow> string option) \<Rightarrow> string \<Rightarrow> string \<Rightarrow> string option \<Rightarrow> string + logger_sink" where
  "make_daily_sink create_directories path filename_prefix pattern =
     (case prepare_path_and_basename create_directories path filename_prefix of
        Inl what \<Rightarrow> Inl what
      | Inr basename \<Rightarrow> Inr (Daily_sink basename pattern))"

definition make_logger_factory_of :: "log_level \<Rightarrow> logger_sink list \<Rightarrow> logger_factory" where
  "make_logger_factory_of default_level spd_sinks = \<lparr>lf_default_level = default_level, lf_sinks = spd_sinks\<rparr>"

definition make_logger_factory ::
  "(string \<Rightarrow> string option) \<Rightarrow> string \<Rightarrow> global_logger_cfg \<Rightarrow> string + logger_factory" where
  "make_logger_factory create_directories app_name cfg =
     (if gl_path cfg = [] then Inr (make_logger_factory_of nolog [])
      else case make_daily_sink create_directories (gl_path cfg) app_name (Some (gl_log_message_pattern cfg)) of
        Inl what \<Rightarrow> Inl what
      | Inr daily \<Rightarrow>
          if gl_log_to_stdout cfg
          then Inr (make_logger_factory_of (gl_global_log_level cfg)
                      [make_color_sink (Some (gl_log_message_pattern cfg)), daily])
          else Inr (make_logger_factory_of (gl_global_log_level cfg) [daily]))"

definition make_logger_at :: "logger_factory \<Rightarrow> log_level \<Rightarrow> string \<Rightarrow> logger" where
  "make_logger_at f level logger_name = \<lparr>lg_name = logger_name, lg_sinks = lf_sinks f, lg_level = level\<rparr>"

definition make_logger :: "logger_factory \<Rightarrow> string \<Rightarrow> logger" where
  "make_logger f logger_name = make_logger_at f (lf_default_level f) logger_name"

definition make_logger_maybe :: "logger_factory \<Rightarrow> log_level option \<Rightarrow> string \<Rightarrow> logger" where
  "make_logger_maybe f maybe_specific_level logger_name =
     (case maybe_specific_level of
        None \<Rightarrow> make_logger f logger_name
      | Some level \<Rightarrow> make_logger_at f level logger_name)"

section \<open>Properties\<close>

lemma index_of_le: "index_of x xs \<le> length xs"
  by (induction xs) auto

lemma index_of_distinct: "distinct xs \<Longrightarrow> i < length xs \<Longrightarrow> index_of x xs = i \<longleftrightarrow> xs ! i = x"
proof (induction xs arbitrary: i)
  case (Cons y ys)
  then show ?case by (cases i) auto
qed simp

lemma length_all_levels: "length all_levels = 7" and distinct_all_levels: "distinct all_levels"
  by (simp_all add: all_levels_def)

text \<open>
  The text of a log level and the level determine each other: a level has a text exactly when the text
  is read as that level, so every level of the enumeration round trips, through strings and through JSON,
  and every other number and text is refused.
\<close>

lemma log_level_roundtrip:
  "(log_level_to_string v = Inr s \<longleftrightarrow> log_level_from_string s = Inr v) \<and>
   (write_log_level v = Inr j \<longleftrightarrow> (\<exists>s. j = J_string s \<and> log_level_to_string v = Inr s)) \<and>
   (read_log_level j = Inr v \<longleftrightarrow> write_log_level v = Inr j) \<and>
   ((\<exists>s. log_level_to_string v = Inr s) \<longleftrightarrow> 0 \<le> v \<and> v \<le> nolog)"
proof -
  have to_iff: "log_level_to_string v = Inr s \<longleftrightarrow> 0 \<le> v \<and> v < 7 \<and> all_levels ! nat v = s" for s
    by (auto simp: log_level_to_string_def length_all_levels Let_def)
  have from_iff: "log_level_from_string s = Inr v \<longleftrightarrow> 0 \<le> v \<and> v < 7 \<and> all_levels ! nat v = s" for s
  proof -
    have "log_level_from_string s = Inr v \<longleftrightarrow> index_of s all_levels \<noteq> 7 \<and> int (index_of s all_levels) = v"
      by (auto simp: log_level_from_string_def length_all_levels Let_def)
    also have "\<dots> \<longleftrightarrow> 0 \<le> v \<and> v < 7 \<and> index_of s all_levels = nat v"
      using index_of_le [of s all_levels] by (auto simp: length_all_levels)
    also have "\<dots> \<longleftrightarrow> 0 \<le> v \<and> v < 7 \<and> all_levels ! nat v = s"
      using index_of_distinct [OF distinct_all_levels, of "nat v" s] by (auto simp: length_all_levels)
    finally show ?thesis .
  qed
  have w: "write_log_level v = Inr j \<longleftrightarrow> (\<exists>s. j = J_string s \<and> log_level_to_string v = Inr s)"
    by (auto simp: write_log_level_def log_level_to_string_def Let_def)
  show ?thesis
    unfolding w
    by (cases j) (auto simp: to_iff from_iff read_log_level_def nolog_def)
qed

text \<open>
  Writing the internet protocol and reading it back gives the protocol only for version 4: version 6
  is written as a text that no reader accepts, whatever its reader of strings, as long as that returns a
  string as it is.
\<close>

lemma ip_tcp_roundtrip_only_v4:
  assumes "\<forall>s. read_string (J_string s) = Inr s"
  shows "read_ip_tcp read_string (write_ip_tcp p) = Inr p \<longleftrightarrow> p = Ip_v4"
  using assms by (cases p) (simp_all add: read_ip_tcp_def write_ip_tcp_def)

lemma ip_tcp_roundtrip_only_v4_witness:
  "read_ip_tcp (\<lambda>j. case j of J_string s \<Rightarrow> Inr s | J_other \<Rightarrow> Inl []) (write_ip_tcp Ip_v6) \<noteq> Inr Ip_v6"
  using ip_tcp_roundtrip_only_v4 [of "\<lambda>j. case j of J_string s \<Rightarrow> Inr s | J_other \<Rightarrow> Inl []" Ip_v6] by simp

lemma empty_path_logs_nowhere:
  "gl_path cfg = [] \<Longrightarrow> \<exists>f. make_logger_factory create_directories app_name cfg = Inr f \<and>
     lg_sinks (make_logger_maybe f lvl name) = [] \<and> lg_level (make_logger f name) = nolog"
  by (simp add: make_logger_factory_def make_logger_factory_of_def make_logger_maybe_def make_logger_def make_logger_at_def
      split: option.split)

end
