(* ===== verification/SlowProxy.thy ===== *)
theory SlowProxy
  imports Connection
begin

text \<open>
  The session of \<open>net/examples/tcp/slow_proxy.cpp\<close>, a proxy that limits the rate at which it reads. What a
  session asks of its two connections is kept with each of them; that a connection reads, sends and ends as
  asked is the matter of \<open>Connection\<close>. A session lives as long as the registry holds it.
\<close>

section \<open>Configuration\<close>

record app_cfg =
  kb_per_sec :: u32
  log_level :: int
  limit_after_timeout_sec :: u16

text \<open>The bounds given to \<open>min_max_constraint\<close>.\<close>

definition app_cfg_ok :: "app_cfg \<Rightarrow> bool" where
  "app_cfg_ok cfg \<longleftrightarrow> 1 \<le> kb_per_sec cfg \<and> kb_per_sec cfg \<le> 1024 * 1024 \<and> 0 \<le> log_level cfg \<and> log_level cfg \<le> 5"

text \<open>The arithmetic of \<open>std::uint32_t\<close>, that wraps.\<close>

definition read_buf_len :: "app_cfg \<Rightarrow> u32" where
  "read_buf_len cfg = 1024 * kb_per_sec cfg div 16"

definition usec_to_wait :: "u32 \<Rightarrow> u32 \<Rightarrow> u32" where
  "usec_to_wait size_just_read kb = (size_just_read * 1000 * 1000) div (kb * 1024)"

section \<open>Sessions\<close>

record proxy_conn =
  pc_id :: u64
  pc_reading :: bool
  pc_sent :: "byte list list"
  pc_shutdown_called :: bool
  pc_next_read :: "u32 option"

record proxy_session =
  px_kb_per_sec :: u32
  px_limit_after :: int
  px_client :: proxy_conn
  px_server :: proxy_conn

text \<open>Which of the two connections of a session.\<close>

datatype side = Client | Server

fun other :: "side \<Rightarrow> side" where
  "other Client = Server"
| "other Server = Client"

fun conn_at :: "side \<Rightarrow> proxy_session \<Rightarrow> proxy_conn" where
  "conn_at Client s = px_client s"
| "conn_at Server s = px_server s"

fun update_at :: "side \<Rightarrow> (proxy_conn \<Rightarrow> proxy_conn) \<Rightarrow> proxy_session \<Rightarrow> proxy_session" where
  "update_at Client f s = s\<lparr>px_client := f (px_client s)\<rparr>"
| "update_at Server f s = s\<lparr>px_server := f (px_server s)\<rparr>"

text \<open>
  \<open>schedule_next_read_from\<close>; \<open>now\<close> in seconds of the steady clock. The timer is \<open>pc_next_read\<close>, the
  microseconds it was set to.
\<close>

definition schedule_next_read_from :: "int \<Rightarrow> u32 \<Rightarrow> side \<Rightarrow> proxy_session \<Rightarrow> proxy_session" where
  "schedule_next_read_from now size_just_read ctx s =
     (if now \<le> px_limit_after s then s
      else
        let s = update_at ctx (\<lambda>c. c\<lparr>pc_reading := False\<rparr>) s;
            usec = usec_to_wait size_just_read (px_kb_per_sec s)
        in update_at ctx (\<lambda>c. c\<lparr>pc_next_read := Some usec\<rparr>) s)"

text \<open>The handler of that timer, with the error code of the wait; \<open>s\<close> is \<open>None\<close> when the session is gone.\<close>

definition on_next_read :: "bool \<Rightarrow> side \<Rightarrow> proxy_session option \<Rightarrow> proxy_session option" where
  "on_next_read failed ctx s =
     (if \<not> failed
      then map_option (update_at ctx (\<lambda>c. c\<lparr>pc_reading := True, pc_next_read := None\<rparr>)) s
      else s)"

text \<open>The input handlers of the two connections.\<close>

definition on_input :: "int \<Rightarrow> side \<Rightarrow> byte list \<Rightarrow> proxy_session \<Rightarrow> proxy_session" where
  "on_input now from_side buf s =
     (let s = schedule_next_read_from now (word_of_nat (length buf)) from_side s
      in update_at (other from_side) (\<lambda>c. c\<lparr>pc_sent := pc_sent c @ [buf]\<rparr>) s)"

definition close_session :: "proxy_session \<Rightarrow> proxy_session" where
  "close_session s =
     (let s = update_at Client (\<lambda>c. c\<lparr>pc_shutdown_called := True\<rparr>) s
      in update_at Server (\<lambda>c. c\<lparr>pc_shutdown_called := True\<rparr>) s)"

text \<open>
  The registry by the remote endpoint of the client. The shutdown handler of a connection of the session
  with the client connection \<open>cid\<close> finds that session while it is registered; the result has what became
  of it.
\<close>

type_synonym session_registry = "string \<rightharpoonup> proxy_session"

definition on_shutdown ::
  "connection_shutdown_reason \<Rightarrow> string \<Rightarrow> u64 \<Rightarrow> session_registry \<Rightarrow> session_registry \<times> proxy_session option" where
  "on_shutdown res registry_key cid registry =
     (if res = User_initiated then (registry, None)
      else case registry registry_key of
        Some s \<Rightarrow> if pc_id (px_client s) = cid
                  then (let s = close_session s in (registry(registry_key := None), Some s))
                  else (registry, None)
      | None \<Rightarrow> (registry, None))"

text \<open>\<open>session_t::make\<close> with the counter of the ids; \<open>remote\<close> is the remote endpoint of the client.\<close>

definition make_session ::
  "app_cfg \<Rightarrow> int \<Rightarrow> string \<Rightarrow> u64 \<Rightarrow> session_registry \<Rightarrow> proxy_session \<times> u64 \<times> session_registry" where
  "make_session cfg now remote id_counter registry =
     (let client = \<lparr>pc_id = id_counter, pc_reading = False, pc_sent = [], pc_shutdown_called = False, pc_next_read = None\<rparr>;
          id_counter = id_counter + 1;
          server = client\<lparr>pc_id := id_counter\<rparr>;
          id_counter = id_counter + 1;
          ses = \<lparr>px_kb_per_sec = kb_per_sec cfg, px_limit_after = now + int (unat (limit_after_timeout_sec cfg)),
                 px_client = client, px_server = server\<rparr>;
          ses = update_at Client (\<lambda>c. c\<lparr>pc_reading := True\<rparr>) ses;
          ses = update_at Server (\<lambda>c. c\<lparr>pc_reading := True\<rparr>) ses
      in (ses, id_counter, registry(remote \<mapsto> ses)))"

section \<open>What a session forwards\<close>

fun on_inputs :: "(int \<times> side \<times> byte list) list \<Rightarrow> proxy_session \<Rightarrow> proxy_session" where
  "on_inputs [] s = s"
| "on_inputs ((now, from_side, buf) # ins) s = on_inputs ins (on_input now from_side buf s)"

lemma conn_at_update: "conn_at d (update_at d' f s) = (if d = d' then f (conn_at d s) else conn_at d s)"
  by (cases d; cases d') simp_all

lemma other_eq: "other d = other d' \<longleftrightarrow> d = d'"
  by (cases d; cases d') simp_all

lemma on_input_sent:
  "pc_sent (conn_at d (on_input now d' buf s)) = pc_sent (conn_at d s) @ (if d = other d' then [buf] else [])"
  by (cases d; cases d') (simp_all add: on_input_def schedule_next_read_from_def Let_def)

lemma forwards_in_order:
  "pc_sent (conn_at (other d) (on_inputs ins s)) =
   pc_sent (conn_at (other d) s) @ map (\<lambda>(_, _, buf). buf) (filter (\<lambda>(_, d', _). d' = d) ins)"
proof (induction ins arbitrary: s)
  case (Cons i ins)
  obtain now d' buf where i: "i = (now, d', buf)" by (cases i)
  show ?case by (simp add: i Cons on_input_sent other_eq)
qed simp

section \<open>The rate\<close>

lemma unat_usec_to_wait:
  assumes "app_cfg_ok cfg"
  shows "unat (usec_to_wait n (kb_per_sec cfg)) =
    (unat n * 1000000) mod 2 ^ 32 div (unat (kb_per_sec cfg) * 1024)"
proof -
  have kb: "unat (kb_per_sec cfg) \<le> 1048576" using assms by (simp add: app_cfg_ok_def word_le_nat_alt)
  have "unat (kb_per_sec cfg * 1024) = unat (kb_per_sec cfg) * 1024"
    using kb by (simp add: unat_word_ariths)
  moreover have "unat (n * 1000 * 1000) = (unat n * 1000000) mod 2 ^ 32"
    by (simp add: unat_word_ariths mod_mult_left_eq mult.commute)
  ultimately show ?thesis by (simp add: usec_to_wait_def unat_div)
qed

lemma unat_read_buf_len: "app_cfg_ok cfg \<Longrightarrow> unat (read_buf_len cfg) = 64 * unat (kb_per_sec cfg)"
  by (simp add: read_buf_len_def app_cfg_ok_def word_le_nat_alt unat_div unat_word_ariths)

text \<open>
  C34. With every valid configuration, the wait after a read of up to 4294 bytes is the time the rate
  allows, to the microsecond. After a read that fills the buffer it is the 62.5 milliseconds meant only up
  to 67 kilobytes per second; from 68 on the product wraps and the wait is shorter.
\<close>

theorem read_rate_limited:
  assumes "app_cfg_ok cfg"
  shows "(unat n \<le> 4294 \<longrightarrow>
      unat (usec_to_wait n (kb_per_sec cfg)) = unat n * 1000000 div (unat (kb_per_sec cfg) * 1024)) \<and>
    (usec_to_wait (read_buf_len cfg) (kb_per_sec cfg) = 62500 \<longleftrightarrow> kb_per_sec cfg \<le> 67) \<and>
    usec_to_wait (read_buf_len cfg) (kb_per_sec cfg) \<le> 62500"
proof -
  define kb where "kb = unat (kb_per_sec cfg)"
  have kb: "0 < kb" "kb \<le> 1048576"
    using assms by (simp_all add: app_cfg_ok_def word_le_nat_alt kb_def)
  define w where "w = unat (usec_to_wait (read_buf_len cfg) (kb_per_sec cfg))"
  have w: "w = (64000000 * kb) mod 2 ^ 32 div (1024 * kb)"
    using unat_usec_to_wait [OF assms, of "read_buf_len cfg"]
    by (simp add: unat_read_buf_len [OF assms] w_def kb_def mult.commute)
  have full: "(64000000 * kb) div (1024 * kb) = 62500" using kb(1) by simp
  have iff: "w = 62500 \<longleftrightarrow> kb \<le> 67"
  proof
    assume "kb \<le> 67"
    then have "64000000 * kb < 2 ^ 32" by simp
    then show "w = 62500" using full by (simp add: w)
  next
    assume w': "w = 62500"
    show "kb \<le> 67"
    proof (rule ccontr)
      assume "\<not> kb \<le> 67"
      then have "2 ^ 32 \<le> 64000000 * kb" by simp
      then have "(64000000 * kb) mod 2 ^ 32 < 64000000 * kb"
        by (meson le_less_trans less_le_trans mod_less_divisor not_less zero_less_numeral zero_less_power mod_le_divisor
            linorder_not_le order_less_le_trans)
      also have "64000000 * kb = 62500 * (1024 * kb)" by simp
      finally have "w < 62500" unfolding w using kb(1) by (intro less_mult_imp_div_less) simp
      then show False using w' by simp
    qed
  qed
  have le: "w \<le> 62500"
    unfolding w using div_le_mono [of "(64000000 * kb) mod 2 ^ 32" "64000000 * kb" "1024 * kb"] full by simp
  have small: "unat (usec_to_wait n (kb_per_sec cfg)) = unat n * 1000000 div (kb * 1024)" if "unat n \<le> 4294"
    unfolding unat_usec_to_wait [OF assms] kb_def using that by simp
  show ?thesis
    using small iff le by (simp add: w_def kb_def word_unat_eq_iff word_le_nat_alt)
qed

theorem read_rate_limited_witness:
  "usec_to_wait (read_buf_len \<lparr>kb_per_sec = 68, log_level = 2, limit_after_timeout_sec = 0\<rparr>) 68 \<noteq> 62500 \<and>
   usec_to_wait (read_buf_len \<lparr>kb_per_sec = 67, log_level = 2, limit_after_timeout_sec = 0\<rparr>) 67 = 62500"
  using read_rate_limited [of "\<lparr>kb_per_sec = 68, log_level = 2, limit_after_timeout_sec = 0\<rparr>" 0]
    read_rate_limited [of "\<lparr>kb_per_sec = 67, log_level = 2, limit_after_timeout_sec = 0\<rparr>" 0]
  by (simp add: app_cfg_ok_def)

end
