(* ===== verification/ProxyLink.thy ===== *)
theory ProxyLink
  imports SlowProxy EchoServer
begin

text \<open>
  The session of \<open>net/examples/tcp/slow_proxy.cpp\<close> on its two connections. \<open>SlowProxy\<close> has what the
  session asks of them; here the calls are made, and what arrives on one connection is followed to the
  wire of the other. The executor of the io context is the strand of both connections, so every call is
  made on the strand.
\<close>

section \<open>The two connections\<close>

text \<open>
  \<open>pl_session\<close> is what the weak pointers of the handlers find: nothing when the session left the registry,
  which alone holds it. \<open>pl_read d\<close> are the bytes read so far on the connection to \<open>d\<close>.
\<close>

record 'b proxy_link =
  pl_session :: "proxy_session option"
  pl_conn :: "side \<Rightarrow> 'b conn"
  pl_read :: "side \<Rightarrow> byte list"

definition on_conn :: "side \<Rightarrow> 'b conn \<Rightarrow> 'b proxy_link \<Rightarrow> 'b proxy_link" where
  "on_conn d c p = p\<lparr>pl_conn := (pl_conn p)(d := c)\<rparr>"

definition on_session :: "(proxy_session \<Rightarrow> proxy_session) \<Rightarrow> 'b proxy_link \<Rightarrow> 'b proxy_link" where
  "on_session f p = p\<lparr>pl_session := map_option f (pl_session p)\<rparr>"

section \<open>The shutdown handler\<close>

text \<open>
  What the handler does to the connection that calls it: it returns when the user shut the connection
  down or the session is gone, and otherwise \<open>close()\<close> shuts the connection down, within the handler; the
  handler is then called with \<open>user_initiated\<close> and returns.
\<close>

definition proxy_shutdown_cb ::
  "bool \<Rightarrow> 'b conn_env \<Rightarrow> nat \<Rightarrow> connection_shutdown_reason \<Rightarrow> 'b conn \<Rightarrow> 'b conn option" where
  "proxy_shutdown_cb alive E h res c =
     (if res = User_initiated then Some c
      else if alive then shutdown_conn True (E\<lparr>e_shutdown_cb := \<lambda>h res c. Some c\<rparr>) c
      else Some c)"

text \<open>
  The connections of a session. They are made with an input handler that does nothing; the one that
  replaces it works on both connections and is \<open>proxy_handler\<close>.
\<close>

definition proxy_env :: "bool \<Rightarrow> 'b conn_env \<Rightarrow> 'b conn_env" where
  "proxy_env alive E = E\<lparr>e_input := \<lambda>h b c. Some (b, None, c), e_shutdown_cb := proxy_shutdown_cb alive E\<rparr>"

text \<open>The handler was called between the two states, and not because the user shut the connection down.\<close>

definition handler_closes :: "'b conn \<Rightarrow> 'b conn \<Rightarrow> bool" where
  "handler_closes c c' \<longleftrightarrow>
     (\<exists>res\<in>set (drop (length (shutdown_reasons (c_out c))) (shutdown_reasons (c_out c'))). res \<noteq> User_initiated)"

text \<open>
  An operation on the connection to \<open>d\<close>, and what its shutdown handler does beyond that connection: \<open>close()\<close>
  shuts the other one down as well, and the session leaves the registry.
\<close>

definition proxy_call ::
  "'b conn_env \<Rightarrow> side \<Rightarrow> ('b conn_env \<Rightarrow> 'b conn \<Rightarrow> 'b conn option) \<Rightarrow> 'b proxy_link \<Rightarrow> 'b proxy_link option" where
  "proxy_call E d f p = do {
     let alive = (pl_session p \<noteq> None);
     c \<leftarrow> f (proxy_env alive E) (pl_conn p d);
     if alive \<and> handler_closes (pl_conn p d) c then do {
       c' \<leftarrow> shutdown_conn True (proxy_env alive E) (pl_conn p (other d));
       Some ((on_conn (other d) c' (on_conn d c p))\<lparr>pl_session := None\<rparr>) }
     else Some (on_conn d c p) }"

section \<open>The session\<close>

text \<open>\<open>make\<close>: the two connections, with the handlers of the session.\<close>

definition proxy_connection :: "'b conn_env \<Rightarrow> app_cfg \<Rightarrow> 'b conn option" where
  "proxy_connection E cfg = do {
     ccfg \<leftarrow> cfg_input_buffer_size (unat (read_buf_len cfg)) default_connection_cfg;
     let c = connection_ctor (proxy_env True E) ccfg 0 None;
     r \<leftarrow> reset_input_handler True (proxy_env True E) (Some 1) c;
     c \<leftarrow> (case r of Inl _ \<Rightarrow> None | Inr c \<Rightarrow> Some c);
     c \<leftarrow> reset_shutdown_handler True (proxy_env True E) (Some 0) c;
     start_reading True (proxy_env True E) c }"

text \<open>
  The input handler of the connection to \<open>d\<close>, with \<open>schedule_next_read_from\<close>: it stops reading when the
  rate is limited, and sends the buffer of the context on the other connection.
\<close>

definition proxy_handler ::
  "'b conn_env \<Rightarrow> int \<Rightarrow> side \<Rightarrow> input_ctx \<Rightarrow> 'b proxy_link \<Rightarrow> (input_ctx \<times> 'b proxy_link) option" where
  "proxy_handler E now d ctx p =
     (case pl_session p of
        None \<Rightarrow> Some (ctx, p)
      | Some s \<Rightarrow> do {
          p \<leftarrow> (if now \<le> px_limit_after s then Some p else proxy_call E d (stop_reading True) p);
          let p = on_session (schedule_next_read_from now (word_of_nat (sb_size (ic_buffer ctx))) d) p;
          let (buf, left) = sb_move_construct (ic_buffer ctx);
          p \<leftarrow> proxy_call E (other d) (\<lambda>E. schedule_send True True E [bd_to_output (e_driver E) buf]) p;
          let p = on_session (update_at (other d) (\<lambda>k. k\<lparr>pc_sent := pc_sent k @ [sb_view buf]\<rparr>)) p;
          Some (ctx\<lparr>ic_buffer := left\<rparr>, p) })"

text \<open>A read on the connection to \<open>d\<close> completes: \<open>after_read\<close> with this handler.\<close>

definition proxy_read :: "'b conn_env \<Rightarrow> int \<Rightarrow> side \<Rightarrow> byte list \<Rightarrow> 'b proxy_link \<Rightarrow> 'b proxy_link option" where
  "proxy_read E now d bytes p = do {
     (buffer, c) \<leftarrow> (do { c \<leftarrow> read_completes bytes (pl_conn p d); input_arrives E (length bytes) c });
     (ctx, p) \<leftarrow> proxy_handler E now d (input_ctx_new buffer) (on_conn d c p);
     let c = input_handled E (ic_buffer ctx) (ic_next_read_buffer ctx) (pl_conn p d);
     Some ((on_conn d c p)\<lparr>pl_read := (pl_read p)(d := pl_read p d @ bytes)\<rparr>) }"

definition proxy_next_read :: "'b conn_env \<Rightarrow> side \<Rightarrow> 'b proxy_link \<Rightarrow> 'b proxy_link option" where
  "proxy_next_read E d p = do {
     let p' = p\<lparr>pl_session := on_next_read False d (pl_session p)\<rparr>;
     if pl_session p = None then Some p' else proxy_call E d (start_reading True) p' }"

definition proxy_close :: "'b conn_env \<Rightarrow> 'b proxy_link \<Rightarrow> 'b proxy_link option" where
  "proxy_close E p = do {
     p \<leftarrow> proxy_call E Client (shutdown_conn True) p;
     p \<leftarrow> proxy_call E Server (shutdown_conn True) p;
     Some (on_session close_session p) }"

text \<open>
  What happens to a session: reads complete, the timers of the next reads expire, \<open>main\<close> closes it, and
  its connections go on by themselves, which includes errors and timeouts.
\<close>

inductive proxy_reachable :: "'b conn_env \<Rightarrow> app_cfg \<Rightarrow> 'b proxy_link \<Rightarrow> bool" for E cfg where
  pr_make: "proxy_connection E cfg = Some c \<Longrightarrow> make_session cfg now remote n registry = (ses, n', registry') \<Longrightarrow>
    proxy_reachable E cfg \<lparr>pl_session = Some ses, pl_conn = (\<lambda>_. c), pl_read = (\<lambda>_. [])\<rparr>"
| pr_read: "proxy_reachable E cfg p \<Longrightarrow> length bytes \<le> sb_size (c_read_buffer (pl_conn p d)) \<Longrightarrow>
    proxy_read E now d bytes p = Some p' \<Longrightarrow> proxy_reachable E cfg p'"
| pr_next_read: "proxy_reachable E cfg p \<Longrightarrow> proxy_next_read E d p = Some p' \<Longrightarrow> proxy_reachable E cfg p'"
| pr_close: "proxy_reachable E cfg p \<Longrightarrow> proxy_close E p = Some p' \<Longrightarrow> proxy_reachable E cfg p'"
| pr_own: "proxy_reachable E cfg p \<Longrightarrow> own_event ev \<Longrightarrow> ev_ok ev (pl_conn p d) \<Longrightarrow>
    proxy_call E d (\<lambda>E. conn_step E ev) p = Some p' \<Longrightarrow> proxy_reachable E cfg p'"

section \<open>The connections keep their account\<close>

lemma proxy_env_entry:
  assumes "quiet_env E"
  shows "entry_env (proxy_env alive E)"
proof -
  have same: "shutdown_conn True (E\<lparr>e_shutdown_cb := \<lambda>h res c. Some c\<rparr>) c = shutdown_impl E User_initiated c" for c
    by (simp add: shutdown_conn_def asio_dispatch_def shutdown_impl_eq shutdown_begin_def
        quiet_env.shutdown_cb_user [OF assms] cong: option.case_cong)
  have "quiet_env (proxy_env alive E)"
    unfolding proxy_env_def
    by (rule quiet_env_handlers [OF assms]) (auto simp: proxy_shutdown_cb_def same intro: exI [of _ "[]"])
  then show ?thesis
    by (intro entry_env.intro entry_env_axioms.intro) (simp_all add: proxy_env_def)
qed

lemma proxy_env_quiet: "quiet_env E \<Longrightarrow> quiet_env (proxy_env alive E)"
  using proxy_env_entry [of E alive] by (simp add: entry_env_def)

lemma proxy_env_simps [simp]:
  "e_driver (proxy_env alive E) = e_driver E" "conn_inv (proxy_env alive E) c = conn_inv E c"
  by (simp_all add: proxy_env_def conn_inv_def conn_ok_def conn_core_def conn_stream_def cong: option.case_cong)

lemma own_event_no_send: "own_event ev \<Longrightarrow> no_send ev"
  by (cases ev) simp_all

text \<open>One connection: what it is given is what the other one read.\<close>

definition link_ok :: "'b conn_env \<Rightarrow> byte list \<Rightarrow> 'b conn \<Rightarrow> bool" where
  "link_ok E given_bytes c \<longleftrightarrow> conn_inv E c \<and> carries (e_driver E) given_bytes c \<and>
     strand_bytes (e_driver E) c = [] \<and> sb_wf (c_read_buffer c)"

lemma link_ok_same:
  "link_ok E bs c \<Longrightarrow> data_path c' = data_path c \<Longrightarrow> c_strand c' = c_strand c \<Longrightarrow> sb_wf (c_read_buffer c') \<Longrightarrow>
   link_ok E bs c'"
  using conn_inv_data_path [of c' c E] conn_inv_works [of E c]
  by (auto simp: link_ok_def carries_def strand_bytes_def taken_in_def data_path_def)

lemma link_ok_stopped: "link_ok E bs c \<Longrightarrow> c_shutdown_was_called c \<Longrightarrow> link_ok E (bs @ bs2) c"
  by (auto simp: link_ok_def carries_def conn_inv_def conn_ok_def conn_core_def intro: prefix_prefix)

lemma link_ok_step:
  assumes "quiet_env E" "link_ok E bs c" "own_event ev" "ev_ok ev c" "conn_step (proxy_env alive E) ev c = Some c'"
  shows "link_ok E bs c'"
proof -
  have env: "entry_env (proxy_env alive E)" and quiet: "quiet_env (proxy_env alive E)"
    by (fact proxy_env_entry [OF assms(1)] proxy_env_quiet [OF assms(1)])+
  have "conn_inv E c'"
    using quiet_env.conn_step_inv [OF quiet _ assms(4,5)] assms(2) by (simp add: link_ok_def)
  moreover have "sb_wf (c_read_buffer c')"
  proof (rule quiet_env.own_event_read_buffer [OF quiet assms(5,3)])
    show "length bytes \<le> sb_size (c_read_buffer c)" if "ev = Ev_read_completed ec bytes" for ec bytes
      using assms(4) that by simp
  qed (use assms(2) in \<open>simp add: link_ok_def\<close>)
  ultimately show ?thesis
    using entry_env.step_carries [OF env _ assms(5) own_event_no_send [OF assms(3)], of bs] assms(2)
    by (simp add: link_ok_def)
qed

lemma link_ok_work:
  assumes "quiet_env E" "link_ok E bs c" "work_ok w" "run_strand_work (proxy_env alive E) w c = Some c'"
  shows "link_ok E (bs @ work_bytes (e_driver E) w) c'"
proof -
  have quiet: "quiet_env (proxy_env alive E)" by (rule proxy_env_quiet [OF assms(1)])
  show ?thesis
    using quiet_env.strand_work_inv [OF quiet _ assms(3,4)] quiet_env.strand_work_read_buffer [OF quiet assms(4)]
      quiet_env.dispatch_carries [OF quiet, of bs c True w c'] assms(2,4)
    by (simp add: link_ok_def asio_dispatch_def)
qed

lemma link_ok_connection:
  assumes "quiet_env E" "proxy_connection E cfg = Some c"
  shows "link_ok E [] c" "shutdown_reasons (c_out c) = []"
proof -
  let ?E = "proxy_env True E"
  obtain ccfg c1 c2 where c1: "run_strand_work ?E (W_reset_input_handler 1) (connection_ctor ?E ccfg 0 None) = Some c1"
      "run_strand_work ?E (W_reset_shutdown_handler (Some 0)) c1 = Some c2" "run_strand_work ?E W_start_reading c2 = Some c"
    using assms(2) by (auto simp: proxy_connection_def reset_input_handler_def reset_shutdown_handler_def
        start_reading_def asio_dispatch_def bind_eq_Some_conv Let_def split: sum.splits)
  have "buffer_driver_laws (e_driver E)" using assms(1) by (simp add: quiet_env_def)
  then have "link_ok E [] (connection_ctor ?E ccfg 0 None)"
    using quiet_env.ctor_inv [OF proxy_env_quiet [OF assms(1)], of True ccfg 0 None]
    by (simp add: link_ok_def ctor_carries buffer_driver_laws.allocate_input) (simp add: connection_ctor_def
        buffer_driver_laws.allocate_input)
  from link_ok_work [OF assms(1) this _ c1(1)] have "link_ok E [] c1" by simp
  from link_ok_work [OF assms(1) this _ c1(2)] have "link_ok E [] c2" by simp
  from link_ok_work [OF assms(1) this _ c1(3)] show "link_ok E [] c" by simp
  show "shutdown_reasons (c_out c) = []"
    using c1 by (auto simp: connection_ctor_def reset_input_handler_impl_def reset_shutdown_handler_impl_def
        start_reading_work_def initiate_read_def observe_def Let_def)
qed

section \<open>The proxy keeps its account\<close>

text \<open>
  The connection to \<open>d\<close> was given \<open>to d\<close>. While the session is in the registry no handler was called but for
  the user, and afterwards both connections are shut down.
\<close>

definition proxy_inv :: "'b conn_env \<Rightarrow> (side \<Rightarrow> byte list) \<Rightarrow> (side \<Rightarrow> byte list) \<Rightarrow> 'b proxy_link \<Rightarrow> bool" where
  "proxy_inv E to logged p \<longleftrightarrow> (\<forall>d. link_ok E (to d) (pl_conn p d)) \<and>
     (case pl_session p of
        Some s \<Rightarrow> \<forall>d. concat (pc_sent (conn_at d s)) = logged d \<and>
          set (shutdown_reasons (c_out (pl_conn p d))) \<subseteq> {User_initiated}
      | None \<Rightarrow> \<forall>d. c_shutdown_was_called (pl_conn p d))"

lemma other_simps [simp]: "other (other d) = d" "other d \<noteq> d" "d \<noteq> other d"
  by (cases d; simp)+

lemma side_cases: "(\<forall>e. P e) \<longleftrightarrow> P d \<and> P (other d)"
  by (metis other.simps side.exhaust)

text \<open>A call on one connection, whatever its shutdown handler does.\<close>

lemma proxy_call_inv:
  assumes quiet: "quiet_env E" and inv: "proxy_inv E to logged p" and call: "proxy_call E d f p = Some p'"
    and f: "\<And>alive c. f (proxy_env alive E) (pl_conn p d) = Some c \<Longrightarrow>
      link_ok E bs c \<and> settles (proxy_env alive E) (pl_conn p d) c"
  shows "proxy_inv E (to(d := bs)) logged p'"
    and "pl_session p' = pl_session p \<or> pl_session p' = None" "pl_read p' = pl_read p"
proof -
  define alive where "alive \<longleftrightarrow> pl_session p \<noteq> None"
  obtain c where c: "f (proxy_env alive E) (pl_conn p d) = Some c"
    using call unfolding proxy_call_def Let_def alive_def [symmetric] by (auto simp: bind_eq_Some_conv)
  have rest: "(if alive \<and> handler_closes (pl_conn p d) c then do {
        c' \<leftarrow> shutdown_conn True (proxy_env alive E) (pl_conn p (other d));
        Some ((on_conn (other d) c' (on_conn d c p))\<lparr>pl_session := None\<rparr>) }
      else Some (on_conn d c p)) = Some p'"
    using call unfolding proxy_call_def Let_def alive_def [symmetric] c by simp
  note fc = f [OF c]
  have q: "quiet_env (proxy_env alive E)" by (rule proxy_env_quiet [OF quiet])
  obtain rs where rs: "shutdown_reasons (c_out c) = shutdown_reasons (c_out (pl_conn p d)) @ rs"
      "rs \<noteq> [] \<Longrightarrow> c_shutdown_was_called c" "c_shutdown_was_called (pl_conn p d) \<Longrightarrow> c_shutdown_was_called c"
    using fc by (auto simp: settles_def shutdown_state_def)
  have closes: "handler_closes (pl_conn p d) c \<longleftrightarrow> \<not> set rs \<subseteq> {User_initiated}"
    by (auto simp: handler_closes_def rs(1))
  show "proxy_inv E (to(d := bs)) logged p'" "pl_session p' = pl_session p \<or> pl_session p' = None"
    "pl_read p' = pl_read p"
  proof (atomize (full), cases "alive \<and> handler_closes (pl_conn p d) c")
    case False
    then have p': "p' = on_conn d c p"
      using rest by (simp split: if_splits)
    then show "proxy_inv E (to(d := bs)) logged p' \<and> (pl_session p' = pl_session p \<or> pl_session p' = None) \<and> pl_read p' = pl_read p"
      using inv fc rs closes False
      by (auto simp: proxy_inv_def on_conn_def side_cases [of _ d] alive_def split: option.splits)
  next
    case True
    then obtain c' where c': "run_strand_work (proxy_env alive E) W_shutdown (pl_conn p (other d)) = Some c'"
        "p' = (on_conn (other d) c' (on_conn d c p))\<lparr>pl_session := None\<rparr>"
      using rest by (auto simp: shutdown_conn_def asio_dispatch_def bind_eq_Some_conv simp del: run_strand_work.simps)
    have "link_ok E (to (other d)) c'"
      using link_ok_work [OF quiet _ _ c'(1), of "to (other d)"] inv by (simp add: proxy_inv_def)
    moreover have "c_shutdown_was_called c'"
      using quiet_env.shutdown_impl_quiet [OF q, of User_initiated "pl_conn p (other d)"] c'(1) by auto
    moreover have "c_shutdown_was_called c" by (rule rs(2)) (use closes True in auto)
    ultimately show "proxy_inv E (to(d := bs)) logged p' \<and> (pl_session p' = pl_session p \<or> pl_session p' = None) \<and> pl_read p' = pl_read p"
      using fc by (simp add: c'(2) proxy_inv_def on_conn_def side_cases [of _ d])
  qed
qed

lemma proxy_work_inv:
  assumes "quiet_env E" "proxy_inv E to logged p" "proxy_call E d f p = Some p'" "work_ok w"
    and "\<And>alive c. f (proxy_env alive E) c = run_strand_work (proxy_env alive E) w c"
  shows "proxy_inv E (to(d := to d @ work_bytes (e_driver E) w)) logged p'"
    and "pl_session p' = pl_session p \<or> pl_session p' = None" "pl_read p' = pl_read p"
proof -
  have "link_ok E (to d @ work_bytes (e_driver E) w) c \<and> settles (proxy_env alive E) (pl_conn p d) c"
    if "f (proxy_env alive E) (pl_conn p d) = Some c" for alive c
    using that assms(2) link_ok_work [OF assms(1) _ assms(4), of "to d" "pl_conn p d" alive c]
      quiet_env.strand_work_settles [OF proxy_env_quiet [OF assms(1)], of alive w "pl_conn p d" c]
    by (simp add: assms(5) proxy_inv_def)
  from proxy_call_inv [OF assms(1-3) this] show "proxy_inv E (to(d := to d @ work_bytes (e_driver E) w)) logged p'"
    "pl_session p' = pl_session p \<or> pl_session p' = None" "pl_read p' = pl_read p" by auto
qed

lemma proxy_inv_conn:
  assumes "proxy_inv E to logged p" "data_path c = data_path (pl_conn p d)" "c_strand c = c_strand (pl_conn p d)"
    and "sb_wf (c_read_buffer c)" "shutdown_reasons (c_out c) = shutdown_reasons (c_out (pl_conn p d))"
  shows "proxy_inv E to logged (on_conn d c p)"
proof -
  have "link_ok E (to d) c"
    using link_ok_same [OF _ assms(2-4)] assms(1) by (simp add: proxy_inv_def)
  moreover have "c_shutdown_was_called c = c_shutdown_was_called (pl_conn p d)"
    using assms(2) by (simp add: data_path_def)
  ultimately show ?thesis
    using assms(1,5) by (auto simp: proxy_inv_def on_conn_def side_cases [of _ d] split: option.splits)
qed

lemma proxy_inv_session:
  assumes "proxy_inv E to logged p"
    and "\<And>s e. pl_session p = Some s \<Longrightarrow> concat (pc_sent (conn_at e (f s))) = logged' e"
  shows "proxy_inv E to logged' (on_session f p)"
  using assms by (auto simp: proxy_inv_def on_session_def split: option.splits)

lemma proxy_inv_read [simp]: "proxy_inv E to logged (p\<lparr>pl_read := r\<rparr>) = proxy_inv E to logged p"
  by (simp add: proxy_inv_def cong: option.case_cong)

lemma schedule_next_read_sent: "pc_sent (conn_at e (schedule_next_read_from now n d s)) = pc_sent (conn_at e s)"
  by (cases e; cases d) (simp_all add: schedule_next_read_from_def Let_def)

text \<open>The buffer of the context goes to the other connection, unless both are shut down.\<close>

lemma proxy_handler_inv:
  assumes quiet: "quiet_env E" and inv: "proxy_inv E to logged p" and wf: "sb_wf buffer"
    and run: "proxy_handler E now d (input_ctx_new buffer) p = Some (ctx, p')"
  shows "proxy_inv E (to(other d := to (other d) @ sb_view buffer)) (logged(other d := logged (other d) @ sb_view buffer)) p'"
    and "pl_read p' = pl_read p" "sb_wf (ic_buffer ctx)" "ic_next_read_buffer ctx = None"
proof (atomize (full), cases "pl_session p")
  case None
  then show "proxy_inv E (to(other d := to (other d) @ sb_view buffer)) (logged(other d := logged (other d) @ sb_view buffer)) p' \<and>
      pl_read p' = pl_read p \<and> sb_wf (ic_buffer ctx) \<and> ic_next_read_buffer ctx = None"
    using inv run wf by (auto simp: proxy_handler_def proxy_inv_def input_ctx_new_def intro: link_ok_stopped)
next
  case (Some s)
  let ?send = "W_send None [bd_to_output (e_driver E) buffer]"
  obtain p1 where p1: "(if now \<le> px_limit_after s then Some p else proxy_call E d (stop_reading True) p) = Some p1"
    using run Some by (auto simp: proxy_handler_def bind_eq_Some_conv simp del: if_split)
  define p2 where "p2 = on_session (schedule_next_read_from now (word_of_nat (sb_size buffer)) d) p1"
  obtain p3 where p3: "proxy_call E (other d) (\<lambda>E. schedule_send True True E [bd_to_output (e_driver E) buffer]) p2 = Some p3"
      "ctx = (input_ctx_new buffer)\<lparr>ic_buffer := sb_default\<rparr>"
      "p' = on_session (update_at (other d) (\<lambda>k. k\<lparr>pc_sent := pc_sent k @ [sb_view buffer]\<rparr>)) p3"
    using run Some p1 by (auto simp: proxy_handler_def bind_eq_Some_conv p2_def input_ctx_new_def sb_move_construct_eq)
  have "proxy_inv E to logged p1 \<and> pl_read p1 = pl_read p"
  proof (cases "now \<le> px_limit_after s")
    case False
    then have "proxy_call E d (stop_reading True) p = Some p1" using p1 by simp
    from proxy_work_inv [OF quiet inv this, of W_stop_reading] show ?thesis
      by (simp add: stop_reading_def asio_dispatch_def)
  qed (use p1 inv in simp)
  then have inv1: "proxy_inv E to logged p1" and read1: "pl_read p1 = pl_read p" by blast+
  have inv2: "proxy_inv E to logged p2"
    unfolding p2_def by (rule proxy_inv_session [OF inv1]) (use inv1 in \<open>simp add: proxy_inv_def schedule_next_read_sent\<close>)
  have read2: "pl_read p2 = pl_read p" by (simp add: p2_def on_session_def read1)
  have "buffer_driver_laws (e_driver E)" using quiet by (simp add: quiet_env_def)
  then have bytes: "work_bytes (e_driver E) ?send = sb_view buffer"
    using wf by (simp add: buffer_driver_laws.view_to_output)
  note sent = proxy_work_inv [OF quiet inv2 p3(1), of ?send, unfolded bytes]
  have inv3: "proxy_inv E (to(other d := to (other d) @ sb_view buffer)) logged p3" "pl_read p3 = pl_read p"
    using sent read2 by (simp_all add: schedule_send_def schedule_send_impl_def asio_dispatch_def)
  have "proxy_inv E (to(other d := to (other d) @ sb_view buffer)) (logged(other d := logged (other d) @ sb_view buffer)) p'"
    unfolding p3(3) by (rule proxy_inv_session [OF inv3(1)]) (use inv3(1) in \<open>auto simp: proxy_inv_def conn_at_update\<close>)
  then show "proxy_inv E (to(other d := to (other d) @ sb_view buffer)) (logged(other d := logged (other d) @ sb_view buffer)) p' \<and>
      pl_read p' = pl_read p \<and> sb_wf (ic_buffer ctx) \<and> ic_next_read_buffer ctx = None"
    using inv3(2) by (simp add: p3 on_session_def input_ctx_new_def)
qed

text \<open>What each connection was given and what the session logged is what was read on the other one.\<close>

abbreviation proxy_ok :: "'b conn_env \<Rightarrow> 'b proxy_link \<Rightarrow> bool" where
  "proxy_ok E p \<equiv> proxy_inv E (\<lambda>d. pl_read p (other d)) (\<lambda>d. pl_read p (other d)) p"

lemma proxy_read_inv:
  assumes quiet: "quiet_env E" and inv: "proxy_ok E p" and len: "length bytes \<le> sb_size (c_read_buffer (pl_conn p d))"
    and run: "proxy_read E now d bytes p = Some p'"
  shows "proxy_ok E p'"
proof -
  let ?c = "pl_conn p d"
  have laws: "buffer_driver_laws (e_driver E)" using quiet by (simp add: quiet_env_def)
  have wf: "sb_wf (c_read_buffer ?c)" using inv by (simp add: proxy_inv_def link_ok_def)
  have pending: "0 < c_pending_reads ?c"
    using run by (auto simp: proxy_read_def bind_eq_Some_conv split: if_splits)
  define c1 where "c1 = ?c\<lparr>c_pending_reads := c_pending_reads ?c - 1, c_read_buffer := sb_default,
      c_out := c_out ?c @ [O_inc_bytes_rx_async (length bytes), O_input bytes]\<rparr>"
  obtain buffer where buffer: "sb_wf buffer" "sb_view buffer = bytes"
      "do { c \<leftarrow> read_completes bytes ?c; input_arrives E (length bytes) c } = Some (buffer, c1)"
    using input_arrives_bytes [OF laws wf len pending] unfolding c1_def by blast
  obtain ctx p2 where p2: "proxy_handler E now d (input_ctx_new buffer) (on_conn d c1 p) = Some (ctx, p2)"
      "p' = (on_conn d (input_handled E (ic_buffer ctx) (ic_next_read_buffer ctx) (pl_conn p2 d)) p2)
        \<lparr>pl_read := (pl_read p2)(d := pl_read p2 d @ bytes)\<rparr>"
    using run unfolding proxy_read_def buffer(3) by (auto simp: bind_eq_Some_conv on_conn_def Let_def)
  have "proxy_inv E (\<lambda>d. pl_read p (other d)) (\<lambda>d. pl_read p (other d)) (on_conn d c1 p)"
    by (rule proxy_inv_conn [OF inv]) (simp_all add: c1_def data_path_def)
  note handled = proxy_handler_inv [OF quiet this buffer(1) p2(1), unfolded buffer(2) other_simps]
  have reads: "(\<lambda>e. ((pl_read p)(d := pl_read p d @ bytes)) (other e)) = (\<lambda>e. pl_read p (other e))(other d := pl_read p d @ bytes)"
    by (auto simp: fun_eq_iff)
  have "proxy_inv E (\<lambda>e. ((pl_read p)(d := pl_read p d @ bytes)) (other e)) (\<lambda>e. ((pl_read p)(d := pl_read p d @ bytes)) (other e)) p2"
    using handled(1) unfolding reads .
  then have "proxy_inv E (\<lambda>e. ((pl_read p)(d := pl_read p d @ bytes)) (other e)) (\<lambda>e. ((pl_read p)(d := pl_read p d @ bytes)) (other e))
      (on_conn d (input_handled E (ic_buffer ctx) (ic_next_read_buffer ctx) (pl_conn p2 d)) p2)"
    by (rule proxy_inv_conn)
      (use handled(3,4) buffer_driver_laws.reallocate_input [OF laws] in
        \<open>simp_all add: input_handled_eq next_buffer_def initiate_read_def observe_def data_path_def Let_def\<close>)
  moreover have "pl_read p2 = pl_read p" using handled(2) by (simp add: on_conn_def)
  ultimately show ?thesis by (simp add: p2(2) on_conn_def)
qed

lemma proxy_reachable_inv:
  assumes "quiet_env E" "proxy_reachable E cfg p"
  shows "proxy_ok E p"
  using assms(2)
proof (induction rule: proxy_reachable.induct)
  case (pr_make c now remote n registry ses n' registry')
  have "pc_sent (conn_at d ses) = []" for d
    using pr_make(2) by (cases d) (auto simp: make_session_def Let_def)
  then show ?case using link_ok_connection [OF assms(1) pr_make(1)] by (simp add: proxy_inv_def)
next
  case (pr_read p bytes d now p')
  then show ?case using proxy_read_inv [OF assms(1)] by blast
next
  case (pr_next_read p d p')
  define p1 where "p1 = on_session (\<lambda>s. the (on_next_read False d (Some s))) p"
  have p1: "p1 = p\<lparr>pl_session := on_next_read False d (pl_session p)\<rparr>"
    by (cases "pl_session p") (simp_all add: p1_def on_session_def on_next_read_def)
  have inv1: "proxy_ok E p1"
    unfolding p1_def using proxy_inv_session [OF pr_next_read.IH, of "\<lambda>s. the (on_next_read False d (Some s))"
        "\<lambda>d. pl_read p (other d)"] pr_next_read.IH
    by (auto simp: proxy_inv_def on_next_read_def conn_at_update on_session_def split: option.splits)
  show ?case
  proof (cases "pl_session p")
    case None
    then show ?thesis using pr_next_read.hyps(2) inv1 by (simp add: proxy_next_read_def p1)
  next
    case (Some s)
    then have "proxy_call E d (start_reading True) p1 = Some p'"
      using pr_next_read.hyps(2) by (simp add: proxy_next_read_def p1)
    from proxy_work_inv [OF assms(1) inv1 this, of W_start_reading] show ?thesis
      by (simp add: start_reading_def asio_dispatch_def fun_upd_idem)
  qed
next
  case (pr_close p p')
  then obtain p1 p2 where p1: "proxy_call E Client (shutdown_conn True) p = Some p1"
      "proxy_call E Server (shutdown_conn True) p1 = Some p2" "p' = on_session close_session p2"
    by (auto simp: proxy_close_def bind_eq_Some_conv)
  note first = proxy_work_inv [OF assms(1) pr_close.IH p1(1), of W_shutdown]
  have inv1: "proxy_ok E p1" using first by (simp add: shutdown_conn_def asio_dispatch_def fun_upd_idem)
  note second = proxy_work_inv [OF assms(1) inv1 p1(2), of W_shutdown]
  have inv2: "proxy_ok E p2" using second by (simp add: shutdown_conn_def asio_dispatch_def fun_upd_idem)
  have "pc_sent (conn_at e (close_session s)) = pc_sent (conn_at e s)" for e s
    by (cases e) (simp_all add: close_session_def Let_def)
  then have "proxy_inv E (\<lambda>d. pl_read p2 (other d)) (\<lambda>d. pl_read p2 (other d)) p'"
    unfolding p1(3) by (intro proxy_inv_session [OF inv2]) (use inv2 in \<open>simp add: proxy_inv_def\<close>)
  then show ?case by (simp add: p1(3) on_session_def)
next
  case (pr_own p ev d p')
  have "link_ok E (pl_read p (other d)) c \<and> settles (proxy_env alive E) (pl_conn p d) c"
    if "conn_step (proxy_env alive E) ev (pl_conn p d) = Some c" for alive c
    using that pr_own.IH link_ok_step [OF assms(1) _ pr_own.hyps(2,3)]
      quiet_env.conn_step_settles [OF proxy_env_quiet [OF assms(1)]] by (auto simp: proxy_inv_def)
  from proxy_call_inv [OF assms(1) pr_own.IH pr_own.hyps(4) this] show ?case
    by (simp add: fun_upd_idem)
qed

section \<open>Property\<close>

text \<open>
  C33. The proxy is transparent: what the operating system has taken from the connection to one side is at
  every moment a prefix of what was read on the connection to the other side, in both directions, whatever
  the reads were delayed. As long as the connection to a side is not ended and no write is in progress on
  it, everything read on the other was forwarded. When a connection ends otherwise than by the user, both
  are shut down and the session is gone from the registry.
\<close>

theorem proxy_is_transparent:
  assumes "quiet_env E" "proxy_reachable E cfg p"
  shows "prefix (c_wire (pl_conn p (other d))) (pl_read p d) \<and>
    (c_schedule_for_write_is_enabled (pl_conn p (other d)) \<longrightarrow> c_async (pl_conn p (other d)) = None \<longrightarrow>
       c_wire (pl_conn p (other d)) = pl_read p d) \<and>
    (\<forall>s. pl_session p = Some s \<longrightarrow> concat (pc_sent (conn_at (other d) s)) = pl_read p d) \<and>
    (set (shutdown_reasons (c_out (pl_conn p d))) \<subseteq> {User_initiated} \<or>
       pl_session p = None \<and> c_shutdown_was_called (pl_conn p d) \<and> c_shutdown_was_called (pl_conn p (other d)))"
proof -
  let ?c = "pl_conn p (other d)"
  have ok: "proxy_ok E p" by (rule proxy_reachable_inv [OF assms])
  then have "link_ok E (pl_read p (other (other d))) ?c" unfolding proxy_inv_def by blast
  then have inv: "conn_inv E ?c" "carries (e_driver E) (pl_read p d) ?c" "strand_bytes (e_driver E) ?c = []"
    by (simp_all add: link_ok_def)
  have "prefix (c_wire ?c) (pl_read p d)"
    using conn_inv_prefix [OF inv(1)] inv(2) by (auto simp: carries_def taken_in_def intro: prefix_order.trans)
  moreover have "c_wire ?c = pl_read p d" if "c_schedule_for_write_is_enabled ?c" "c_async ?c = None"
    using inv that by (auto simp: carries_def taken_in_def conn_inv_def conn_ok_def conn_failed_def conn_idle_def
        conn_writing_def conn_stream_def)
  moreover have "concat (pc_sent (conn_at (other d) s)) = pl_read p d" if "pl_session p = Some s" for s
    using ok that by (simp add: proxy_inv_def)
  moreover have "set (shutdown_reasons (c_out (pl_conn p d))) \<subseteq> {User_initiated} \<or>
      pl_session p = None \<and> c_shutdown_was_called (pl_conn p d) \<and> c_shutdown_was_called ?c"
    using ok by (cases "pl_session p") (simp_all add: proxy_inv_def)
  ultimately show ?thesis by blast
qed

definition demo_proxy_cfg :: app_cfg where
  "demo_proxy_cfg = \<lparr>kb_per_sec = 1, log_level = 2, limit_after_timeout_sec = 0\<rparr>"

text \<open>
  Three bytes come from the client after the time limit; then the server closes its connection.
\<close>

definition demo_proxy :: "simple_buffer proxy_link" where
  "demo_proxy = \<lparr>pl_session = Some (fst (make_session demo_proxy_cfg 0 ''peer'' 0 Map.empty)),
     pl_conn = (\<lambda>_. the (proxy_connection demo_echo_env demo_proxy_cfg)), pl_read = (\<lambda>_. [])\<rparr>"

lemmas proxy_eval = demo_proxy_def demo_proxy_cfg_def proxy_connection_def proxy_env_def proxy_shutdown_cb_def
  read_buf_len_def cfg_input_buffer_size_def reset_input_handler_def reset_input_handler_impl_def
  reset_shutdown_handler_def reset_shutdown_handler_impl_def start_reading_def start_reading_work_def
  stop_reading_def stop_reading_work_def shutdown_conn_def schedule_send_def schedule_send_impl_def
  initiate_read_def make_session_def proxy_read_def proxy_handler_def proxy_call_def on_conn_def on_session_def
  handler_closes_def input_arrives_def input_handled_def input_ctx_new_def schedule_next_read_from_def
  on_async_read_completed_def after_read_def sb_move_construct_eq simple_reduce_size_input_def sb_shrink_size_def
  simple_reallocate_input_def sb_write_def sb_view_def blit_def make_unique_bytes_def sb_new_def

theorem proxy_is_transparent_witness:
  "\<exists>p1 p2. proxy_read demo_echo_env 1 Client [1, 2, 3] demo_proxy = Some p1 \<and>
     proxy_call demo_echo_env Server (\<lambda>E. conn_step E (Ev_read_completed Ec_eof [])) p1 = Some p2 \<and>
     pl_read p2 Client = [1, 2, 3] \<and> prefix (c_wire (pl_conn p2 Server)) [1, 2, 3] \<and>
     shutdown_reasons (c_out (pl_conn p2 Server)) = [Eof, User_initiated] \<and>
     c_shutdown_was_called (pl_conn p2 Client)"
proof -
  obtain c where c: "proxy_connection demo_echo_env demo_proxy_cfg = Some c"
    by (simp add: demo_echo_env_def proxy_eval conn_eval)
  have reach: "proxy_reachable demo_echo_env demo_proxy_cfg demo_proxy"
  proof -
    define m where "m = make_session demo_proxy_cfg 0 ''peer'' 0 Map.empty"
    have "make_session demo_proxy_cfg 0 ''peer'' 0 Map.empty = (fst m, fst (snd m), snd (snd m))" by (simp add: m_def)
    from pr_make [OF c this] show ?thesis by (simp add: demo_proxy_def c m_def)
  qed
  have size: "sb_size (c_read_buffer (pl_conn demo_proxy Client)) = 64"
    by (simp add: demo_echo_env_def proxy_eval conn_eval)
  obtain p1 p2 where p1: "proxy_read demo_echo_env 1 Client [1, 2, 3] demo_proxy = Some p1" "pl_read p1 Client = [1, 2, 3]"
      and p2: "proxy_call demo_echo_env Server (\<lambda>E. conn_step E (Ev_read_completed Ec_eof [])) p1 = Some p2"
      "pl_read p2 = pl_read p1" "shutdown_reasons (c_out (pl_conn p2 Server)) = [Eof, User_initiated]"
    by (simp add: demo_echo_env_def proxy_eval conn_eval)
  have reach1: "proxy_reachable demo_echo_env demo_proxy_cfg p1"
    by (rule pr_read [OF reach _ p1(1)]) (simp add: size)
  have "proxy_reachable demo_echo_env demo_proxy_cfg p2"
    by (rule pr_own [OF reach1 _ _ p2(1)]) (simp_all add: ec_failed_def)
  from proxy_is_transparent [OF demo_echo_env_quiet this, of Client] proxy_is_transparent [OF demo_echo_env_quiet this, of Server]
  show ?thesis using p1(1,2) p2 by auto
qed

end
