(* ===== verification/PingPong.thy ===== *)
theory PingPong
  imports Prelude BinaryViewFmt
begin

text \<open>
  The server and the client of \<open>proto_entry/examples/ping_pong_entry/main.cpp\<close>. The server answers every ping
  and after each fourth sends a message to all its clients; the client sends a ping with every timer event
  and connects again when its connection ends. What an entry sends is a value of \<open>server_msg\<close> or
  \<open>request\<close>; that it gets there is the matter of \<open>Session\<close>.
\<close>

section \<open>Messages\<close>

record request =
  rq_req_id :: u32
  rq_payload :: string

datatype server_msg =
    Pong u32 string
  | Multi_send u32 string "byte list"

section \<open>The server\<close>

text \<open>\<open>m_connections\<close> is the list of its keys, in the order of the map; a shutdown handler finds its key.\<close>

record ping_server =
  ps_connections :: "u64 list"
  ps_ping_count :: u64
  ps_sent :: "(u64 \<times> server_msg) list"
  ps_closed :: "u64 list"

definition new_server :: ping_server where
  "new_server = \<lparr>ps_connections = [], ps_ping_count = 0, ps_sent = [], ps_closed = []\<rparr>"

definition on_client_connected :: "u64 \<Rightarrow> ping_server \<Rightarrow> ping_server" where
  "on_client_connected conn_id s =
     s\<lparr>ps_connections := (if conn_id \<in> set (ps_connections s) then ps_connections s else insort conn_id (ps_connections s))\<rparr>"

definition on_client_shutdown :: "u64 \<Rightarrow> ping_server \<Rightarrow> ping_server" where
  "on_client_shutdown conn_id s = s\<lparr>ps_connections := filter (\<lambda>i. i \<noteq> conn_id) (ps_connections s)\<rparr>"

definition multisend_text :: "u64 \<Rightarrow> string" where
  "multisend_text n = ''Wow, you all guys in total made '' @ fmt_d (unat n) @ '' pings''"

definition initiate_multisend :: "u64 \<Rightarrow> ping_server \<Rightarrow> ping_server" where
  "initiate_multisend ts s =
     (let msg = Multi_send (ucast (ps_ping_count s)) (multisend_text (ps_ping_count s)) (le_bytes 8 (unat ts))
      in s\<lparr>ps_sent := ps_sent s @ map (\<lambda>client. (client, msg)) (ps_connections s)\<rparr>)"

text \<open>\<open>ts\<close> is what \<open>make_now_ts\<close> gives.\<close>

definition server_on_message :: "u64 \<Rightarrow> request \<Rightarrow> u64 \<Rightarrow> ping_server \<Rightarrow> ping_server" where
  "server_on_message ts req client s =
     (let reply = Pong (rq_req_id req) (rq_payload req);
          s = s\<lparr>ps_sent := ps_sent s @ [(client, reply)]\<rparr>;
          s = s\<lparr>ps_ping_count := ps_ping_count s + 1\<rparr>
      in if ps_ping_count s mod 4 = 0 then initiate_multisend ts s else s)"

definition stop_server :: "ping_server \<Rightarrow> ping_server" where
  "stop_server s = s\<lparr>ps_closed := ps_closed s @ ps_connections s, ps_connections := []\<rparr>"

section \<open>The client\<close>

text \<open>
  \<open>cl_connection\<close> is the entry, with the flag that it is active; \<open>cl_connects\<close> counts the calls of
  \<open>async_connect\<close> not answered. A ping given to an entry that ended is dropped; \<open>cl_pings\<close> are those that
  were not.
\<close>

record ping_client =
  cl_connection :: "bool option"
  cl_connects :: nat
  cl_req_id_counter :: u32
  cl_pings :: "request list"

definition new_client :: ping_client where
  "new_client = \<lparr>cl_connection = None, cl_connects = 0, cl_req_id_counter = 1, cl_pings = []\<rparr>"

definition client_connect :: "ping_client \<Rightarrow> ping_client" where
  "client_connect c = c\<lparr>cl_connects := cl_connects c + 1\<rparr>"

definition on_connected :: "bool \<Rightarrow> ping_client \<Rightarrow> ping_client" where
  "on_connected failed c =
     (let c = c\<lparr>cl_connects := cl_connects c - 1\<rparr>
      in if \<not> failed then c\<lparr>cl_connection := Some True\<rparr> else c)"

definition on_entry_shutdown :: "ping_client \<Rightarrow> ping_client" where
  "on_entry_shutdown c = client_connect (c\<lparr>cl_connection := map_option (\<lambda>_. False) (cl_connection c)\<rparr>)"

definition on_timer :: "ping_client \<Rightarrow> ping_client" where
  "on_timer c =
     (case cl_connection c of
        Some active \<Rightarrow>
          (let req = \<lparr>rq_req_id = cl_req_id_counter c, rq_payload = ''##########***********''\<rparr>;
               c = c\<lparr>cl_req_id_counter := cl_req_id_counter c + 1\<rparr>
           in if active then c\<lparr>cl_pings := cl_pings c @ [req]\<rparr> else c)
      | None \<Rightarrow> client_connect c)"

text \<open>\<open>m_connection->close()\<close> needs a connection; \<open>None\<close> is a null pointer.\<close>

definition stop_client :: "ping_client \<Rightarrow> ping_client option" where
  "stop_client c = do {
     _ \<leftarrow> cl_connection c;
     Some (c\<lparr>cl_connection := None\<rparr>) }"

text \<open>The time stamp a multi-send message brings, zero if the attached bytes are not eight.\<close>

definition client_on_multi_send :: "byte list \<Rightarrow> u64" where
  "client_on_multi_send attached = (if length attached = 8 then word_of_nat (le_value attached) else 0)"

text \<open>What can happen to a client while its program runs.\<close>

inductive client_step :: "ping_client \<Rightarrow> ping_client \<Rightarrow> bool" where
  cl_timer: "client_step c (on_timer c)"
| cl_connected: "0 < cl_connects c \<Longrightarrow> client_step c (on_connected failed c)"
| cl_lost: "cl_connection c = Some True \<Longrightarrow> client_step c (on_entry_shutdown c)"

inductive_cases client_stepE: "client_step c c'"

section \<open>Properties\<close>

text \<open>
  A client that lost its connection and whose next connect failed never sends again: however many
  timer events come, no connect is started and every ping goes to the entry that has ended.
\<close>

lemma lost_for_good:
  assumes "client_step\<^sup>*\<^sup>* c c'" "cl_connection c = Some False" "cl_connects c = 0"
  shows "cl_connection c' = Some False \<and> cl_connects c' = 0 \<and> cl_pings c' = cl_pings c"
  using assms
proof (induction rule: rtranclp_induct)
  case (step d e)
  then have d: "cl_connection d = Some False" "cl_connects d = 0" "cl_pings d = cl_pings c" by auto
  from step(2) show ?case using d by cases (auto simp: on_timer_def Let_def)
qed simp

lemma lost_for_good_witness:
  "\<exists>c. client_step\<^sup>*\<^sup>* new_client c \<and> cl_connection c = Some False \<and> cl_connects c = 0 \<and>
     (\<forall>c'. client_step\<^sup>*\<^sup>* c c' \<longrightarrow> cl_pings c' = cl_pings c)"
proof -
  define c1 where "c1 = on_timer new_client"
  define c2 where "c2 = on_connected False c1"
  define c3 where "c3 = on_entry_shutdown c2"
  define c4 where "c4 = on_connected True c3"
  note defs = c1_def c2_def c3_def c4_def new_client_def on_timer_def client_connect_def on_connected_def
    on_entry_shutdown_def Let_def
  have "client_step new_client c1" unfolding c1_def by (rule cl_timer)
  moreover have "client_step c1 c2" unfolding c2_def by (rule cl_connected) (simp add: defs)
  moreover have "client_step c2 c3" unfolding c3_def by (rule cl_lost) (simp add: defs)
  moreover have "client_step c3 c4" unfolding c4_def by (rule cl_connected) (simp add: defs)
  ultimately have "client_step\<^sup>*\<^sup>* new_client c4" by (meson converse_rtranclp_into_rtranclp rtranclp.rtrancl_refl)
  moreover have "cl_connection c4 = Some False" "cl_connects c4 = 0" by (simp_all add: defs)
  ultimately show ?thesis using lost_for_good [of c4] by blast
qed

text \<open>The events of the server, and its run.\<close>

datatype server_event =
    Ev_connected u64
  | Ev_ping u64 request u64
  | Ev_shutdown u64

fun server_handle :: "server_event \<Rightarrow> ping_server \<Rightarrow> ping_server" where
  "server_handle (Ev_connected i) s = on_client_connected i s"
| "server_handle (Ev_ping i req ts) s = server_on_message ts req i s"
| "server_handle (Ev_shutdown i) s = on_client_shutdown i s"

fun is_ping :: "server_event \<Rightarrow> bool" where
  "is_ping (Ev_ping i req ts) \<longleftrightarrow> True"
| "is_ping _ \<longleftrightarrow> False"

fun is_pong :: "u64 \<times> server_msg \<Rightarrow> bool" where
  "is_pong (i, Pong n p) \<longleftrightarrow> True"
| "is_pong (i, Multi_send n t a) \<longleftrightarrow> False"

fun pong_of :: "server_event \<Rightarrow> u64 \<times> server_msg" where
  "pong_of (Ev_ping i req ts) = (i, Pong (rq_req_id req) (rq_payload req))"
| "pong_of _ = undefined"

text \<open>The sequence numbers of the messages a client got that were sent to all.\<close>

fun multi_number :: "u64 \<Rightarrow> u64 \<times> server_msg \<Rightarrow> u32 list" where
  "multi_number i (j, Multi_send n t a) = (if i = j then [n] else [])"
| "multi_number i (j, Pong n p) = []"

definition multi_numbers :: "u64 \<Rightarrow> (u64 \<times> server_msg) list \<Rightarrow> u32 list" where
  "multi_numbers i ms = concat (map (multi_number i) ms)"

lemma pongs_step:
  "filter is_pong (ps_sent (server_handle ev s)) = filter is_pong (ps_sent s) @ (if is_ping ev then [pong_of ev] else [])"
proof (cases ev)
  case (Ev_ping i req ts)
  have "filter is_pong (map (\<lambda>client. (client, Multi_send a b c)) xs) = []" for a b c xs
    by (induction xs) auto
  then show ?thesis by (simp add: Ev_ping server_on_message_def initiate_multisend_def Let_def)
qed (simp_all add: on_client_connected_def on_client_shutdown_def)

lemma multi_numbers_all:
  "distinct xs \<Longrightarrow> multi_numbers i (map (\<lambda>client. (client, Multi_send n t a)) xs) = (if i \<in> set xs then [n] else [])"
  by (induction xs) (auto simp: multi_numbers_def)

lemma multi_numbers_append: "multi_numbers i (xs @ ys) = multi_numbers i xs @ multi_numbers i ys"
  by (simp add: multi_numbers_def)

lemma connections_step:
  "distinct (ps_connections s) \<Longrightarrow> distinct (ps_connections (server_handle ev s))"
  by (cases ev) (auto simp: on_client_connected_def on_client_shutdown_def server_on_message_def initiate_multisend_def
      Let_def distinct_insort)

lemma every_fourth:
  "(word_of_nat n + 1 :: u64) mod 4 = 0 \<longleftrightarrow> Suc n mod 4 = 0"
  "(ucast (word_of_nat n + 1 :: u64) :: u32) = word_of_nat (Suc n)"
proof -
  have s: "(word_of_nat n + 1 :: u64) = word_of_nat (Suc n)" by simp
  have "unat (word_of_nat (Suc n) mod 4 :: u64) = Suc n mod 2 ^ 64 mod 4"
    unfolding unat_mod unsigned_of_nat by (simp add: take_bit_eq_mod)
  also have "\<dots> = Suc n mod 4" by (rule mod_mod_cancel) simp
  finally show "(word_of_nat n + 1 :: u64) mod 4 = 0 \<longleftrightarrow> Suc n mod 4 = 0" unfolding s by (metis unat_0 unat_eq_zero)
  show "(ucast (word_of_nat n + 1 :: u64) :: u32) = word_of_nat (Suc n)"
    unfolding s unsigned_of_nat word_of_nat_eq_iff by (simp add: take_bit_take_bit)
qed

lemma fourth_number: "Suc n mod 4 = 0 \<Longrightarrow> word_of_nat (Suc n) = (word_of_nat (4 * (n div 4 + 1)) :: u32)"
proof -
  assume "Suc n mod 4 = 0"
  then have "Suc n = 4 * (n div 4 + 1)" by presburger
  then show ?thesis by (rule arg_cong [where f = word_of_nat])
qed

text \<open>
  C35. Every ping is answered with its number and payload, to the client that sent it and in order, whoever
  connects and leaves meanwhile; and a client that stays connected gets the messages to all after the
  fourth, the eighth, ... ping of the server, each once and in order.
\<close>

theorem pings_answered:
  assumes "ps_connections s = conns" "i \<in> set conns" "distinct conns" "ps_ping_count s = 0" "ps_sent s = []"
    and "Ev_shutdown i \<notin> set evs"
  shows "filter is_pong (ps_sent (fold server_handle evs s)) = map pong_of (filter is_ping evs) \<and>
    multi_numbers i (ps_sent (fold server_handle evs s)) =
      map (\<lambda>k. word_of_nat (4 * (k + 1))) [0..<length (filter is_ping evs) div 4]"
proof -
  have "filter is_pong (ps_sent (fold server_handle evs s)) = map pong_of (filter is_ping evs) \<and>
      multi_numbers i (ps_sent (fold server_handle evs s)) =
        map (\<lambda>k. word_of_nat (4 * (k + 1))) [0..<length (filter is_ping evs) div 4] \<and>
      ps_ping_count (fold server_handle evs s) = word_of_nat (length (filter is_ping evs)) \<and>
      i \<in> set (ps_connections (fold server_handle evs s)) \<and> distinct (ps_connections (fold server_handle evs s))"
    using assms(6)
  proof (induction evs rule: rev_induct)
    case Nil
    then show ?case using assms by (simp add: multi_numbers_def)
  next
    case (snoc ev evs)
    let ?s = "fold server_handle evs s" and ?n = "length (filter is_ping evs)"
    have IH: "filter is_pong (ps_sent ?s) = map pong_of (filter is_ping evs)"
        "multi_numbers i (ps_sent ?s) = map (\<lambda>k. word_of_nat (4 * (k + 1))) [0..<?n div 4]"
        "ps_ping_count ?s = word_of_nat ?n" "i \<in> set (ps_connections ?s)" "distinct (ps_connections ?s)"
      using snoc by auto
    show ?case
    proof (cases ev)
      case (Ev_ping j req ts)
      note step = server_on_message_def initiate_multisend_def Let_def
      have pong: "multi_numbers i ((j, Pong a b) # ms) = multi_numbers i ms" for a b ms by (simp add: multi_numbers_def)
      have count: "ps_ping_count (server_handle ev ?s) = word_of_nat (Suc ?n)"
        by (simp add: Ev_ping step IH(3))
      have rest: "ps_connections (server_handle ev ?s) = ps_connections ?s" by (simp add: Ev_ping step)
      have "multi_numbers i (ps_sent (server_handle ev ?s)) =
          multi_numbers i (ps_sent ?s) @ (if Suc ?n mod 4 = 0 then [word_of_nat (Suc ?n)] else [])"
        using multi_numbers_all [OF IH(5), of i] IH(4) every_fourth [of ?n] pong
        by (simp add: Ev_ping step IH(3) multi_numbers_append)  (simp add: multi_numbers_def)
      also have "\<dots> = map (\<lambda>k. word_of_nat (4 * (k + 1))) [0..<Suc ?n div 4]"
        unfolding IH(2) using fourth_number [of ?n] by (simp add: div_Suc del: of_nat_Suc)
      finally show ?thesis using pongs_step [of ev ?s] IH(1,4,5) by (simp add: count rest) (simp add: Ev_ping)
    qed (use IH snoc.prems pongs_step [of ev ?s] in \<open>auto simp: on_client_connected_def on_client_shutdown_def distinct_insort set_insort_key\<close>)
  qed
  then show ?thesis by blast
qed

theorem pings_answered_witness:
  "let ping = Ev_ping 9 \<lparr>rq_req_id = 1, rq_payload = []\<rparr> 0;
       s = fold server_handle [ping, ping, ping, ping] (on_client_connected 7 new_server)
   in filter is_pong (ps_sent s) = [(9, Pong 1 []), (9, Pong 1 []), (9, Pong 1 []), (9, Pong 1 [])] \<and>
      multi_numbers 7 (ps_sent s) = [4]"
proof -
  let ?s = "on_client_connected 7 new_server" and ?ping = "Ev_ping 9 \<lparr>rq_req_id = 1, rq_payload = []\<rparr> 0"
  have s: "ps_connections ?s = [7]" "ps_ping_count ?s = 0" "ps_sent ?s = []"
    by (simp_all add: on_client_connected_def new_server_def)
  have "Ev_shutdown 7 \<notin> set [?ping, ?ping, ?ping, ?ping]" by simp
  note answered = pings_answered [OF s(1) _ _ s(2,3) this]
  have "length (filter is_ping [?ping, ?ping, ?ping, ?ping]) div 4 = 1" by simp
  with answered show ?thesis unfolding Let_def by simp
qed

end
