(* ===== verification/ConnParams.thy ===== *)
theory ConnParams
  imports ConnCfg
begin

text \<open>
  The setters of \<open>connection_t::ctor_params_t\<close> and \<open>make( socket, param_setter )\<close> of
  \<open>net/include/opio/net/tcp/connection.hpp\<close>; the data and \<open>make( socket, params )\<close> are in \<open>ConnCfg\<close>.
\<close>

section \<open>Setters\<close>

type_synonym ('log, 'drv, 'inp, 'shut, 'wd, 'st) conn_params_change =
  "('log, 'drv, 'inp, 'shut, 'wd, 'st) ctor_params \<Rightarrow> ('log, 'drv, 'inp, 'shut, 'wd, 'st) ctor_params"

definition conn_set_connection_id :: "u64 \<Rightarrow> ('log, 'drv, 'inp, 'shut, 'wd, 'st) conn_params_change" where
  "conn_set_connection_id conn_id p = p\<lparr>cp_conn_id := conn_id\<rparr>"

definition conn_set_connection_cfg :: "connection_cfg \<Rightarrow> ('log, 'drv, 'inp, 'shut, 'wd, 'st) conn_params_change" where
  "conn_set_connection_cfg cfg p = p\<lparr>cp_cfg := cfg\<rparr>"

definition conn_set_logger :: "'log \<Rightarrow> ('log, 'drv, 'inp, 'shut, 'wd, 'st) conn_params_change" where
  "conn_set_logger log p = p\<lparr>cp_logger := Some log\<rparr>"

definition conn_set_buffer_driver :: "'drv \<Rightarrow> ('log, 'drv, 'inp, 'shut, 'wd, 'st) conn_params_change" where
  "conn_set_buffer_driver buffer_driver p = p\<lparr>cp_buffer_driver := Some buffer_driver\<rparr>"

definition conn_set_input_handler :: "'inp \<Rightarrow> ('log, 'drv, 'inp, 'shut, 'wd, 'st) conn_params_change" where
  "conn_set_input_handler input_handler p = p\<lparr>cp_input_handler := Some input_handler\<rparr>"

definition conn_set_shutdown_handler :: "'shut \<Rightarrow> ('log, 'drv, 'inp, 'shut, 'wd, 'st) conn_params_change" where
  "conn_set_shutdown_handler shutdown_handler p = p\<lparr>cp_shutdown_handler := Some shutdown_handler\<rparr>"

definition conn_set_operation_watchdog :: "'wd \<Rightarrow> ('log, 'drv, 'inp, 'shut, 'wd, 'st) conn_params_change" where
  "conn_set_operation_watchdog operation_watchdog p = p\<lparr>cp_operation_watchdog := Some operation_watchdog\<rparr>"

definition conn_set_stats_driver :: "'st \<Rightarrow> ('log, 'drv, 'inp, 'shut, 'wd, 'st) conn_params_change" where
  "conn_set_stats_driver stats_driver p = p\<lparr>cp_stats_driver := Some stats_driver\<rparr>"

text \<open>The user's function is given as the list of its calls.\<close>

datatype ('log, 'drv, 'inp, 'shut, 'wd, 'st) conn_setter_call =
    Conn_id u64
  | Conn_cfg connection_cfg
  | Conn_logger 'log
  | Conn_buffer_driver 'drv
  | Conn_input_handler 'inp
  | Conn_shutdown_handler 'shut
  | Conn_operation_watchdog 'wd
  | Conn_stats_driver 'st

fun conn_call_setter :: "('log, 'drv, 'inp, 'shut, 'wd, 'st) conn_setter_call \<Rightarrow> ('log, 'drv, 'inp, 'shut, 'wd, 'st) conn_params_change" where
  "conn_call_setter (Conn_id conn_id) = conn_set_connection_id conn_id"
| "conn_call_setter (Conn_cfg cfg) = conn_set_connection_cfg cfg"
| "conn_call_setter (Conn_logger log) = conn_set_logger log"
| "conn_call_setter (Conn_buffer_driver drv) = conn_set_buffer_driver drv"
| "conn_call_setter (Conn_input_handler inp) = conn_set_input_handler inp"
| "conn_call_setter (Conn_shutdown_handler shut) = conn_set_shutdown_handler shut"
| "conn_call_setter (Conn_operation_watchdog wd) = conn_set_operation_watchdog wd"
| "conn_call_setter (Conn_stats_driver st) = conn_set_stats_driver st"

definition make_with_setter ::
  "('log, 'drv, 'inp, 'wd, 'st) ctor_defaults \<Rightarrow> ('log, 'drv, 'inp, 'shut, 'wd, 'st) conn_setter_call list \<Rightarrow>
   string + (u64 \<times> connection_cfg \<times> 'log \<times> 'drv \<times> 'inp \<times> 'shut option \<times> 'wd \<times> 'st)" where
  "make_with_setter defaults calls = make_ctor_args defaults (fold conn_call_setter calls default_ctor_params)"

section \<open>What the calls amount to\<close>

definition "conn_id_of s = (case s of Conn_id v \<Rightarrow> Some v | _ \<Rightarrow> None)"
definition "conn_cfg_of s = (case s of Conn_cfg v \<Rightarrow> Some v | _ \<Rightarrow> None)"
definition "conn_logger_of s = (case s of Conn_logger v \<Rightarrow> Some v | _ \<Rightarrow> None)"
definition "conn_driver_of s = (case s of Conn_buffer_driver v \<Rightarrow> Some v | _ \<Rightarrow> None)"
definition "conn_input_of s = (case s of Conn_input_handler v \<Rightarrow> Some v | _ \<Rightarrow> None)"
definition "conn_shutdown_of s = (case s of Conn_shutdown_handler v \<Rightarrow> Some v | _ \<Rightarrow> None)"
definition "conn_watchdog_of s = (case s of Conn_operation_watchdog v \<Rightarrow> Some v | _ \<Rightarrow> None)"
definition "conn_stats_of s = (case s of Conn_stats_driver v \<Rightarrow> Some v | _ \<Rightarrow> None)"

lemmas conn_setting_defs = conn_id_of_def conn_cfg_of_def conn_logger_of_def conn_driver_of_def conn_input_of_def
  conn_shutdown_of_def conn_watchdog_of_def conn_stats_of_def

lemmas conn_setter_defs = conn_set_connection_id_def conn_set_connection_cfg_def conn_set_logger_def
  conn_set_buffer_driver_def conn_set_input_handler_def conn_set_shutdown_handler_def conn_set_operation_watchdog_def
  conn_set_stats_driver_def

lemma fold_conn_setters:
  "fold conn_call_setter calls default_ctor_params =
     \<lparr>cp_conn_id = or_else (last_argument conn_id_of calls) 0, cp_cfg = or_else (last_argument conn_cfg_of calls) default_connection_cfg,
      cp_logger = last_argument conn_logger_of calls, cp_buffer_driver = last_argument conn_driver_of calls,
      cp_input_handler = last_argument conn_input_of calls, cp_shutdown_handler = last_argument conn_shutdown_of calls,
      cp_operation_watchdog = last_argument conn_watchdog_of calls, cp_stats_driver = last_argument conn_stats_of calls\<rparr>"
proof (induction calls rule: rev_induct)
  case Nil
  show ?case by (simp add: default_ctor_params_def)
next
  case (snoc s calls)
  then show ?case by (cases s) (simp_all add: conn_setter_defs conn_setting_defs)
qed

lemma giveaway_eq:
  "giveaway dflt param name = (case pick param dflt of Some v \<Rightarrow> Inr v | None \<Rightarrow>
     Inl (''connection parameter '' @ name @ '' must be explicitly set (the type is not default constructible)''))"
  by (simp add: giveaway_def pick_def split: option.split)

text \<open>
  A connection is made with the last argument of every setter, whatever the order of the calls, or the
  default; it is not made exactly when a parameter has neither.
\<close>

lemma make_conn_takes_latest_setting:
  "case make_with_setter defaults calls of
     Inl what \<Rightarrow>
       given conn_watchdog_of calls (pick (cd_watchdog_from_executor defaults) (cd_watchdog defaults)) = None \<or>
       given conn_logger_of calls (cd_logger defaults) = None \<or>
       given conn_driver_of calls (cd_buffer_driver defaults) = None \<or>
       given conn_input_of calls (cd_input_handler defaults) = None \<or>
       given conn_stats_of calls (cd_stats_driver defaults) = None
   | Inr (i, cfg, log, drv, inp, shut, wd, st) \<Rightarrow>
       i = or_else (last_argument conn_id_of calls) 0 \<and> cfg = or_else (last_argument conn_cfg_of calls) default_connection_cfg \<and>
       given conn_logger_of calls (cd_logger defaults) = Some log \<and>
       given conn_driver_of calls (cd_buffer_driver defaults) = Some drv \<and>
       given conn_input_of calls (cd_input_handler defaults) = Some inp \<and>
       shut = last_argument conn_shutdown_of calls \<and>
       given conn_watchdog_of calls (pick (cd_watchdog_from_executor defaults) (cd_watchdog defaults)) = Some wd \<and>
       given conn_stats_of calls (cd_stats_driver defaults) = Some st"
proof -
  have wd: "watchdog_giveaway defaults p = (case pick (cp_operation_watchdog p) (pick (cd_watchdog_from_executor defaults) (cd_watchdog defaults)) of
      Some w \<Rightarrow> Inr w | None \<Rightarrow> Inl (''connection parameter operation_watchdog must be explicitly set '' @
          ''(the type is not default constructible or constructible from socket.get_executor())''))" for p
    by (simp add: watchdog_giveaway_def pick_def split: option.split)
  show ?thesis
    unfolding make_with_setter_def make_ctor_args_def wd giveaway_eq fold_conn_setters given_def
    by (simp split: option.split)
qed

end
